(* ===== verification/Prelude.thy ===== *)
theory Prelude
  imports Main "HOL-Library.Word" "HOL-Library.Multiset"
begin

text \<open>
  The shared ground of the development: the Go values every component uses (bytes, byte
  slices, \<open>copy\<close>, big-endian numbers, the instants of package \<open>time\<close>) and the generic
  lemmas and locales on lists, chunks, step functions and sorting that the component
  theories instantiate. Nothing here models a file of the repository by itself.
\<close>

unbundle bit_operations_syntax

section \<open>Collections of facts\<close>

named_theorems go_simps \<open>rewrite rules for the Go primitives of the model\<close>
named_theorems inv_keep \<open>every operation of a component keeps its invariant\<close>

section \<open>Bytes, slices and big-endian numbers\<close>

type_synonym byte = "8 word"
type_synonym bytes = "8 word list"
type_synonym uint16 = "16 word"
type_synonym uint64 = "64 word"

text \<open>
  Go's \<open>copy(dst, src)\<close> overwrites the first \<open>min (len dst) (len src)\<close> elements of
  \<open>dst\<close> and leaves the others; the model returns the new contents of \<open>dst\<close>.
\<close>

definition go_copy :: "'a list \<Rightarrow> 'a list \<Rightarrow> 'a list" where
  "go_copy dst src = take (length dst) src @ drop (length src) dst"

lemma length_go_copy [simp]: "length (go_copy dst src) = length dst"
  by (simp add: go_copy_def)

lemma go_copy_full [simp]: "length src = length dst \<Longrightarrow> go_copy dst src = src"
  by (simp add: go_copy_def)

lemma go_copy_prefix: "length dst \<le> length src \<Longrightarrow> go_copy dst src = take (length dst) src"
  by (simp add: go_copy_def)

text \<open>
  \<open>nat_be n v\<close> are the low \<open>n\<close> bytes of \<open>v\<close>, most significant first (the
  \<open>binary.BigEndian.PutUint\<close> functions), and \<open>be_nat\<close> reads such bytes back.
\<close>

fun nat_be :: "nat \<Rightarrow> nat \<Rightarrow> bytes" where
  "nat_be 0 v = []"
| "nat_be (Suc n) v = nat_be n (v div 256) @ [of_nat (v mod 256)]"

definition be_nat :: "bytes \<Rightarrow> nat" where
  "be_nat bs = foldl (\<lambda>a b. a * 256 + unat b) 0 bs"

lemma length_nat_be [simp]: "length (nat_be n v) = n"
  by (induction n arbitrary: v) auto

lemma be_nat_Nil [simp]: "be_nat [] = 0"
  by (simp add: be_nat_def)

lemma be_nat_snoc [simp]: "be_nat (bs @ [b]) = be_nat bs * 256 + unat b"
  by (simp add: be_nat_def)

lemma unat_byte_less [simp]: "unat (b :: byte) < 256"
  using unsigned_less [of b, where ?'a = nat] by simp

lemma be_nat_less: "be_nat bs < 256 ^ length bs"
proof (induction bs rule: rev_induct)
  case Nil
  show ?case by simp
next
  case (snoc b bs)
  have "be_nat bs * 256 + unat b < (be_nat bs + 1) * 256"
    by simp
  also have "\<dots> \<le> 256 ^ length bs * 256"
    using snoc.IH by (intro mult_right_mono) auto
  finally show ?case by simp
qed

lemma be_nat_Cons: "be_nat (b # bs) = unat b * 256 ^ length bs + be_nat bs"
proof (induction bs rule: rev_induct)
  case Nil
  show ?case by (simp add: be_nat_def)
next
  case (snoc c bs)
  have "be_nat (b # bs @ [c]) = be_nat ((b # bs) @ [c])" by simp
  also have "\<dots> = be_nat (b # bs) * 256 + unat c" by (simp only: be_nat_snoc)
  also have "\<dots> = unat b * 256 ^ length (bs @ [c]) + be_nat (bs @ [c])"
    using snoc.IH by (simp add: algebra_simps)
  finally show ?case .
qed

lemma be_nat_append: "be_nat (xs @ ys) = be_nat xs * 256 ^ length ys + be_nat ys"
  by (induction xs) (simp_all add: be_nat_Cons power_add algebra_simps)

lemma unat_of_nat_mod_256 [simp]: "unat (of_nat (v mod 256) :: byte) = v mod 256"
  by (simp add: unat_of_nat)

lemma be_nat_nat_be: "be_nat (nat_be n v) = v mod 256 ^ n"
proof (induction n arbitrary: v)
  case 0
  show ?case by simp
next
  case (Suc n)
  have "be_nat (nat_be (Suc n) v) = (v div 256 mod 256 ^ n) * 256 + v mod 256"
    using Suc.IH [of "v div 256"] by simp
  also have "\<dots> = v mod (256 * 256 ^ n)"
    by (simp add: mod_mult2_eq)
  finally show ?case by simp
qed

lemma nat_be_be_nat: "length bs = n \<Longrightarrow> nat_be n (be_nat bs) = bs"
proof (induction n arbitrary: bs)
  case 0
  then show ?case by simp
next
  case (Suc n)
  then obtain cs b where bs: "bs = cs @ [b]" and len: "length cs = n"
    by (cases bs rule: rev_cases) auto
  have d: "(be_nat cs * 256 + unat b) div 256 = be_nat cs"
    by simp
  have m: "(be_nat cs * 256 + unat b) mod 256 = unat b"
    by simp
  show ?case
    using Suc.IH [OF len] by (simp add: bs d m)
qed

lemma be_nat_inject: "length xs = length ys \<Longrightarrow> be_nat xs = be_nat ys \<longleftrightarrow> xs = ys"
  by (metis nat_be_be_nat)

text \<open>Fixed-width words: \<open>PutUint16\<close>, \<open>Uint16\<close> and their kin.\<close>

definition word_be :: "nat \<Rightarrow> 'a::len word \<Rightarrow> bytes" where
  "word_be n w = nat_be n (unat w)"

definition be_word :: "bytes \<Rightarrow> 'a::len word" where
  "be_word bs = of_nat (be_nat bs)"

lemma length_word_be [simp]: "length (word_be n w) = n"
  by (simp add: word_be_def)

lemma be_word_word_be:
  fixes w :: "'a::len word"
  assumes "LENGTH('a) = 8 * n"
  shows "be_word (word_be n w) = w"
proof -
  have "(256::nat) ^ n = 2 ^ LENGTH('a)"
    by (simp add: assms power_mult)
  then have "unat w mod 256 ^ n = unat w"
    using unsigned_less [of w, where ?'a = nat] by simp
  then show ?thesis
    by (simp add: be_word_def word_be_def be_nat_nat_be)
qed

lemma word_be_be_word:
  assumes "LENGTH('a::len) = 8 * n" and "length bs = n"
  shows "word_be n (be_word bs :: 'a word) = bs"
proof -
  have "be_nat bs < 2 ^ LENGTH('a)"
    using be_nat_less [of bs] assms by (simp add: power_mult)
  then have "unat (of_nat (be_nat bs) :: 'a word) = be_nat bs"
    by (simp add: unat_of_nat)
  then show ?thesis
    using assms(2) by (simp add: word_be_def be_word_def nat_be_be_nat)
qed

section \<open>Instants and durations\<close>

text \<open>
  \<open>time.Time\<close> counts nanoseconds from Go's zero time, so \<open>time.Time{}\<close> is \<open>0\<close> and
  \<open>t.IsZero()\<close> is \<open>t = 0\<close>. \<open>time.Duration\<close> counts nanoseconds. A call of \<open>time.Now()\<close>
  is an argument of the operation that makes it.
\<close>

type_synonym instant = int
type_synonym duration = int

abbreviation IsZero :: "instant \<Rightarrow> bool" where
  "IsZero t \<equiv> t = 0"

definition Second :: duration where
  "Second = 1000000000"

definition Minute :: duration where
  "Minute = 60 * Second"

definition Hour :: duration where
  "Hour = 60 * Minute"

lemmas duration_defs = Second_def Minute_def Hour_def

text \<open>The Unix epoch on the time line that starts at Go's zero time.\<close>

definition unix_epoch :: instant where
  "unix_epoch = 62135596800 * Second"

definition Unix :: "instant \<Rightarrow> int" where
  "Unix t = (t - unix_epoch) div Second"

definition time_Unix :: "int \<Rightarrow> instant" where
  "time_Unix sec = unix_epoch + sec * Second"

text \<open>Go's integer division truncates towards zero.\<close>

definition go_div :: "int \<Rightarrow> int \<Rightarrow> int" where
  "go_div a b = sgn a * sgn b * (\<bar>a\<bar> div \<bar>b\<bar>)"

lemma go_div_nonneg [simp]: "0 \<le> a \<Longrightarrow> 0 < b \<Longrightarrow> go_div a b = a div b"
  by (cases "a = 0") (simp_all add: go_div_def)

text \<open>
  A 64-bit Go \<open>int\<close> wraps around: \<open>int64\<close> is the value an arithmetic result has in it.
\<close>

definition int64 :: "int \<Rightarrow> int" where
  "int64 x = (x + 2 ^ 63) mod 2 ^ 64 - 2 ^ 63"

lemma int64_id: "- (2 ^ 63) \<le> x \<Longrightarrow> x < 2 ^ 63 \<Longrightarrow> int64 x = x"
  by (simp add: int64_def mod_pos_pos_trivial)

lemma int64_range: "- (2 ^ 63) \<le> int64 x \<and> int64 x < 2 ^ 63"
  using pos_mod_bound [of "2 ^ 64" "x + 2 ^ 63"] by (simp add: int64_def)

lemma int64_over: "2 ^ 63 \<le> x \<Longrightarrow> x < 2 ^ 64 \<Longrightarrow> int64 x = x - 2 ^ 64"
proof -
  assume "2 ^ 63 \<le> x" "x < 2 ^ 64"
  then have "(x - 2 ^ 63 + 2 ^ 64) mod 2 ^ 64 = x - 2 ^ 63"
    by (simp only: mod_add_self2) simp
  then show ?thesis by (simp add: int64_def add.commute)
qed

section \<open>Text\<close>

text \<open>\<open>strings.TrimSpace\<close> and \<open>strings.ToLower\<close> on ASCII text.\<close>

definition is_space :: "char \<Rightarrow> bool" where
  "is_space c \<longleftrightarrow> c = CHR '' '' \<or> (of_char c :: nat) \<in> {9, 10, 11, 12, 13}"

definition TrimSpace :: "string \<Rightarrow> string" where
  "TrimSpace s = rev (dropWhile is_space (rev (dropWhile is_space s)))"

definition ToLower :: "string \<Rightarrow> string" where
  "ToLower s = map (\<lambda>ch. let v = (of_char ch :: nat) in if 65 \<le> v \<and> v \<le> 90 then char_of (v + 32) else ch) s"

text \<open>A number as \<open>%d\<close> prints it.\<close>

fun show_nat :: "nat \<Rightarrow> string" where
  "show_nat n = (if n < 10 then [char_of (48 + n)] else show_nat (n div 10) @ [char_of (48 + n mod 10)])"

text \<open>\<open>strconv.Atoi\<close>: a sign and decimal digits within 64 bits.\<close>

fun decimal :: "int \<Rightarrow> string \<Rightarrow> int option" where
  "decimal acc [] = Some acc"
| "decimal acc (ch # s) =
     (let v = (of_char ch :: nat)
      in if 48 \<le> v \<and> v \<le> 57 then decimal (10 * acc + int (v - 48)) s else None)"

definition Atoi :: "string \<Rightarrow> int option" where
  "Atoi s =
    (let neg = (take 1 s = ''-''); body = (if take 1 s = ''-'' \<or> take 1 s = ''+'' then drop 1 s else s)
     in if body = [] then None
        else case decimal 0 body of
          None \<Rightarrow> None
        | Some v \<Rightarrow> let w = (if neg then - v else v) in if int64 w = w then Some w else None)"

text \<open>
  The numbers that are left when the error of \<open>strconv.ParseUint(s, 10, 64)\<close> or \<open>strconv.Atoi\<close> is
  ignored: zero when the text is not a number, the end of the range as soon as the digits read
  so far do not fit.
\<close>

fun clamped_digits :: "int \<Rightarrow> string \<Rightarrow> int" where
  "clamped_digits acc [] = acc"
| "clamped_digits acc (ch # s) =
     (let v = (of_char ch :: nat); n = 10 * acc + int (v - 48)
      in if \<not> (48 \<le> v \<and> v \<le> 57) then 0
         else if 2 ^ 64 \<le> n then 2 ^ 64 - 1
         else clamped_digits n s)"

definition ParseUint_value :: "string \<Rightarrow> uint64" where
  "ParseUint_value s = of_int (clamped_digits 0 s)"

definition Atoi_value :: "string \<Rightarrow> int" where
  "Atoi_value s =
    (let neg = (take 1 s = ''-''); body = (if take 1 s = ''-'' \<or> take 1 s = ''+'' then drop 1 s else s);
         v = clamped_digits 0 body
     in if neg then max (- (2 ^ 63)) (- v) else min (2 ^ 63 - 1) v)"

lemma clamped_digits_range: "0 \<le> acc \<Longrightarrow> acc < 2 ^ 64 \<Longrightarrow> 0 \<le> clamped_digits acc s \<and> clamped_digits acc s < 2 ^ 64"
  by (induction acc s rule: clamped_digits.induct) (simp_all add: Let_def)

lemma decimal_grows: "0 \<le> acc \<Longrightarrow> decimal acc s = Some v \<Longrightarrow> acc \<le> v"
  by (induction acc s arbitrary: v rule: decimal.induct) (fastforce simp: Let_def split: if_splits)+

lemma clamped_digits_decimal: "0 \<le> acc \<Longrightarrow> decimal acc s = Some v \<Longrightarrow> v < 2 ^ 64 \<Longrightarrow> clamped_digits acc s = v"
proof (induction acc s rule: decimal.induct)
  case (2 acc ch s)
  define n where "n = 10 * acc + int (of_char ch - 48)"
  have d: "48 \<le> (of_char ch :: nat)" "(of_char ch :: nat) \<le> 57" "decimal n s = Some v"
    using 2(3) by (auto simp: Let_def n_def split: if_splits)
  moreover have n: "0 \<le> n" using 2(2) by (simp add: n_def)
  moreover have "n \<le> v" by (rule decimal_grows [OF n d(3)])
  ultimately have "clamped_digits acc (ch # s) = clamped_digits n s"
    using 2(4) by (simp only: clamped_digits.simps Let_def n_def [symmetric]) simp
  moreover have "clamped_digits n s = v" using 2(1) [OF refl] d n 2(4) unfolding n_def by blast
  ultimately show ?case by simp
qed simp

lemma Atoi_value_of: "Atoi s = Some n \<Longrightarrow> Atoi_value s = n"
proof -
  assume a: "Atoi s = Some n"
  define body where "body = (if take 1 s = ''-'' \<or> take 1 s = ''+'' then drop 1 s else s)"
  obtain v where v: "decimal 0 body = Some v" "n = (if take 1 s = ''-'' then - v else v)" "int64 n = n"
    using a by (auto simp: Atoi_def Let_def body_def split: if_splits option.splits)
  have "0 \<le> v" using decimal_grows [OF _ v(1)] by simp
  moreover have "- (2 ^ 63) \<le> n" "n < 2 ^ 63" using int64_range [of n] v(3) by simp_all
  moreover from calculation have "clamped_digits 0 body = v" using clamped_digits_decimal [OF _ v(1)] v(2) by (auto split: if_splits)
  ultimately show ?thesis using v(2) unfolding Atoi_value_def Let_def body_def [symmetric] by (auto split: if_splits)
qed

lemma Atoi_value_range: "- (2 ^ 63) \<le> Atoi_value s \<and> Atoi_value s < 2 ^ 63"
  using clamped_digits_range [of 0 s] clamped_digits_range [of 0 "drop 1 s"]
  by (auto simp: Atoi_value_def Let_def max_def min_def)

section \<open>Lists of fixed-width chunks\<close>

text \<open>
  \<open>chunks w n bs\<close> are the slices \<open>bs[i*w : (i+1)*w]\<close> for \<open>i < n\<close>, in order: the loop
  shape of every decoder of concatenated fixed-width records.
\<close>

definition chunks :: "nat \<Rightarrow> nat \<Rightarrow> 'a list \<Rightarrow> 'a list list" where
  "chunks w n bs = map (\<lambda>i. take w (drop (i * w) bs)) [0..<n]"

lemma length_chunks [simp]: "length (chunks w n bs) = n"
  by (simp add: chunks_def)

lemma chunks_0 [simp]: "chunks w 0 bs = []"
  by (simp add: chunks_def)

lemma chunks_Suc [simp]: "chunks w (Suc n) bs = take w bs # chunks w n (drop w bs)"
proof -
  have "[0..<Suc n] = 0 # map Suc [0..<n]"
    by (simp add: upt_conv_Cons map_Suc_upt del: upt_Suc)
  then show ?thesis
    by (simp add: chunks_def add.commute del: upt_Suc)
qed

lemma chunks_concat:
  assumes "\<And>c. c \<in> set cs \<Longrightarrow> length c = w"
  shows "chunks w (length cs) (concat cs) = cs"
  using assms by (induction cs) auto

lemma length_in_chunks:
  "length bs = n * w \<Longrightarrow> c \<in> set (chunks w n bs) \<Longrightarrow> length c = w"
proof (induction n arbitrary: bs)
  case 0
  then show ?case by simp
next
  case (Suc n)
  have "length (drop w bs) = n * w" using Suc.prems(1) by simp
  then have "c \<in> set (chunks w n (drop w bs)) \<Longrightarrow> length c = w" by (rule Suc.IH)
  with Suc.prems show ?case by auto
qed

lemma concat_chunks: "length bs = n * w \<Longrightarrow> concat (chunks w n bs) = bs"
  by (induction n arbitrary: bs) auto

text \<open>
  The contract of a fixed-width record codec, and what a decoder of concatenated records
  owes to it: the whole list comes back, up to the normalisation one record undergoes.
\<close>

fun traverse :: "('a \<Rightarrow> 'e + 'b) \<Rightarrow> 'a list \<Rightarrow> 'e + 'b list" where
  "traverse f [] = Inr []"
| "traverse f (x # xs) =
     (case f x of
        Inl e \<Rightarrow> Inl e
      | Inr y \<Rightarrow> (case traverse f xs of Inl e \<Rightarrow> Inl e | Inr ys \<Rightarrow> Inr (y # ys)))"

lemma traverse_Inr:
  "(\<And>x. x \<in> set xs \<Longrightarrow> f x = Inr (g x)) \<Longrightarrow> traverse f xs = Inr (map g xs)"
  by (induction xs) auto

lemma traverse_length: "traverse f xs = Inr ys \<Longrightarrow> length ys = length xs"
  by (induction xs arbitrary: ys) (auto split: sum.splits)

lemma traverse_nth:
  "traverse f xs = Inr ys \<Longrightarrow> i < length xs \<Longrightarrow> f (xs ! i) = Inr (ys ! i)"
proof (induction xs arbitrary: ys i)
  case Nil
  then show ?case by simp
next
  case (Cons x xs)
  then show ?case
    by (cases i) (auto split: sum.splits)
qed

locale record_codec =
  fixes encode :: "'a \<Rightarrow> 'b list"
    and decode :: "'b list \<Rightarrow> 'e + 'a"
    and norm :: "'a \<Rightarrow> 'a"
    and ok :: "'a \<Rightarrow> bool"
    and width :: nat
  assumes encode_width: "ok x \<Longrightarrow> length (encode x) = width"
    and decode_encode: "ok x \<Longrightarrow> decode (encode x) = Inr (norm x)"
    and width_pos: "0 < width"
begin

lemma length_concat_encode:
  "\<forall>x \<in> set xs. ok x \<Longrightarrow> length (concat (map encode xs)) = length xs * width"
  by (induction xs) (auto simp: encode_width)

lemma chunks_encode:
  assumes "\<forall>x \<in> set xs. ok x"
  shows "chunks width (length xs) (concat (map encode xs)) = map encode xs"
  using chunks_concat [of "map encode xs" width] assms encode_width by auto

lemma decode_all:
  assumes "\<forall>x \<in> set xs. ok x"
  shows "traverse decode (chunks width (length xs) (concat (map encode xs))) = Inr (map norm xs)"
proof -
  have "traverse decode (map encode xs) = Inr (map norm xs)"
    using assms by (induction xs) (auto simp: decode_encode)
  then show ?thesis
    using assms by (simp add: chunks_encode)
qed

end

section \<open>Invariants of step functions\<close>

text \<open>
  A component is a state, a step function over its events and an invariant every step
  keeps; the invariant then holds after every sequence of events.
\<close>

locale step_system =
  fixes step :: "'s \<Rightarrow> 'e \<Rightarrow> 's"
    and inv :: "'s \<Rightarrow> bool"
  assumes step_keeps: "inv s \<Longrightarrow> inv (step s e)"
begin

lemma run_keeps: "inv s \<Longrightarrow> inv (foldl step s es)"
  by (induction es arbitrary: s) (auto intro: step_keeps)

end

text \<open>
  Computations that can fail: \<open>ebind\<close> sequences them, \<open>efold\<close> runs one per list element. A
  step function that succeeds from every state of the invariant, on every admissible
  event, never fails on any sequence of admissible events; a component whose steps cannot
  fail is the special case.
\<close>

definition ebind :: "'e + 'a \<Rightarrow> ('a \<Rightarrow> 'e + 'b) \<Rightarrow> 'e + 'b" where
  "ebind x f = (case x of Inl e \<Rightarrow> Inl e | Inr a \<Rightarrow> f a)"

lemma ebind_simps [simp]: "ebind (Inl e) f = Inl e" "ebind (Inr a) f = f a"
  by (simp_all add: ebind_def)

fun efold :: "('s \<Rightarrow> 'a \<Rightarrow> 'e + 's) \<Rightarrow> 's \<Rightarrow> 'a list \<Rightarrow> 'e + 's" where
  "efold f s [] = Inr s"
| "efold f s (x # xs) = ebind (f s x) (\<lambda>s'. efold f s' xs)"

locale total_step_system =
  fixes estep :: "'s \<Rightarrow> 'a \<Rightarrow> 'e + 's"
    and inv :: "'s \<Rightarrow> bool"
    and admissible :: "'a \<Rightarrow> bool"
  assumes estep_total: "inv s \<Longrightarrow> admissible a \<Longrightarrow> \<exists>s'. estep s a = Inr s' \<and> inv s'"
begin

lemma erun_total:
  "inv s \<Longrightarrow> \<forall>a \<in> set as. admissible a \<Longrightarrow> \<exists>s'. efold estep s as = Inr s' \<and> inv s'"
proof (induction "as" arbitrary: s)
  case Nil
  then show ?case by simp
next
  case (Cons a as')
  then obtain s1 where "estep s a = Inr s1" "inv s1" using estep_total by force
  with Cons show ?case by simp
qed

end

sublocale step_system \<subseteq> total: total_step_system "\<lambda>s e. Inr (step s e)" inv "\<lambda>_. True"
  by unfold_locales (simp add: step_keeps)

section \<open>Sorting by a comparison function\<close>

text \<open>
  \<open>sort.Slice\<close> rearranges a slice so that no element is less than one before it. The
  model is insertion; the locale shows that for a comparison that is a strict total order
  on the elements the result does not depend on the algorithm, so the model is the slice
  every correct implementation of \<open>sort.Slice\<close> leaves.
\<close>

fun insert_by :: "('a \<Rightarrow> 'a \<Rightarrow> bool) \<Rightarrow> 'a \<Rightarrow> 'a list \<Rightarrow> 'a list" where
  "insert_by lt x [] = [x]"
| "insert_by lt x (y # ys) = (if lt y x then y # insert_by lt x ys else x # y # ys)"

definition sort_slice :: "('a \<Rightarrow> 'a \<Rightarrow> bool) \<Rightarrow> 'a list \<Rightarrow> 'a list" where
  "sort_slice lt xs = foldr (insert_by lt) xs []"

lemma mset_insert_by [simp]: "mset (insert_by lt x ys) = add_mset x (mset ys)"
  by (induction ys) auto

lemma set_insert_by [simp]: "set (insert_by lt x ys) = insert x (set ys)"
  by (induction ys) auto

lemma sort_slice_Nil [simp]: "sort_slice lt [] = []"
  by (simp add: sort_slice_def)

lemma sort_slice_Cons [simp]: "sort_slice lt (x # xs) = insert_by lt x (sort_slice lt xs)"
  by (simp add: sort_slice_def)

lemma mset_sort_slice [simp]: "mset (sort_slice lt xs) = mset xs"
  by (induction xs) auto

lemma set_sort_slice [simp]: "set (sort_slice lt xs) = set xs"
  by (metis mset_sort_slice set_mset_mset)

lemma length_sort_slice [simp]: "length (sort_slice lt xs) = length xs"
  by (metis mset_sort_slice size_mset)

lemma distinct_sort_slice [simp]: "distinct (sort_slice lt xs) = distinct xs"
  using mset_eq_imp_distinct_iff [OF mset_sort_slice] .

lemma map_insert_by:
  "map f (insert_by (\<lambda>x y. lt (f x) (f y)) x ys) = insert_by lt (f x) (map f ys)"
  by (induction ys) auto

lemma map_sort_slice: "map f (sort_slice (\<lambda>x y. lt (f x) (f y)) xs) = sort_slice lt (map f xs)"
  by (induction xs) (simp_all add: map_insert_by)

locale strict_order_on =
  fixes lt :: "'a \<Rightarrow> 'a \<Rightarrow> bool"
    and carrier :: "'a set"
  assumes irrefl: "x \<in> carrier \<Longrightarrow> \<not> lt x x"
    and trans: "x \<in> carrier \<Longrightarrow> y \<in> carrier \<Longrightarrow> z \<in> carrier \<Longrightarrow> lt x y \<Longrightarrow> lt y z \<Longrightarrow> lt x z"
    and total: "x \<in> carrier \<Longrightarrow> y \<in> carrier \<Longrightarrow> x \<noteq> y \<Longrightarrow> lt x y \<or> lt y x"
begin

lemma asym: "x \<in> carrier \<Longrightarrow> y \<in> carrier \<Longrightarrow> lt x y \<Longrightarrow> \<not> lt y x"
  using irrefl trans by blast

lemma sorted_insert_by:
  "set (x # ys) \<subseteq> carrier \<Longrightarrow> distinct (x # ys) \<Longrightarrow> sorted_wrt lt ys
    \<Longrightarrow> sorted_wrt lt (insert_by lt x ys)"
proof (induction ys)
  case Nil
  then show ?case by simp
next
  case (Cons y ys)
  show ?case
  proof (cases "lt y x")
    case True
    with Cons show ?thesis by auto
  next
    case False
    with Cons.prems have "lt x y" using total [of x y] by auto
    with Cons.prems False show ?thesis
      by (auto intro: trans [of x y])
  qed
qed

lemma sorted_sort_slice:
  "set xs \<subseteq> carrier \<Longrightarrow> distinct xs \<Longrightarrow> sorted_wrt lt (sort_slice lt xs)"
  by (induction xs) (auto intro!: sorted_insert_by)

lemma sorted_unique:
  "set xs \<subseteq> carrier \<Longrightarrow> sorted_wrt lt xs \<Longrightarrow> sorted_wrt lt ys \<Longrightarrow> mset ys = mset xs \<Longrightarrow> ys = xs"
proof (induction xs arbitrary: ys)
  case Nil
  then show ?case by simp
next
  case (Cons x xs)
  then obtain y ys' where ys: "ys = y # ys'"
    by (cases ys) auto
  have y: "y \<in> set (x # xs)" and x: "x \<in> set (y # ys')"
    using Cons.prems(4) by (metis ys list.set_intros(1) set_mset_mset)+
  have "x = y"
  proof (rule ccontr)
    assume ne: "x \<noteq> y"
    have "lt x y" using Cons.prems(2) y ne by auto
    moreover have "lt y x" using Cons.prems(3) x ne ys by auto
    ultimately show False
      using asym Cons.prems(1) y by (metis list.set_intros(1) subsetD)
  qed
  with Cons ys show ?case by auto
qed

text \<open>
  The same for a slice of records compared by a key with no repetition: the sorted slice
  is unique, and a prefix of it holds the records with the least keys.
\<close>

lemma sorted_sort_key:
  assumes "f ` set xs \<subseteq> carrier" and "distinct (map f xs)"
  shows "sorted_wrt (\<lambda>x y. lt (f x) (f y)) (sort_slice (\<lambda>x y. lt (f x) (f y)) xs)"
proof -
  have "sorted_wrt lt (sort_slice lt (map f xs))"
    using assms by (intro sorted_sort_slice) auto
  then show ?thesis by (simp add: sorted_wrt_map flip: map_sort_slice)
qed

lemma sort_key_unique:
  assumes "f ` set xs \<subseteq> carrier" and "distinct (map f xs)"
    and "sorted_wrt (\<lambda>x y. lt (f x) (f y)) ys" and "mset ys = mset xs"
  shows "ys = sort_slice (\<lambda>x y. lt (f x) (f y)) xs"
proof -
  let ?s = "sort_slice (\<lambda>x y. lt (f x) (f y)) xs"
  have eq: "mset ys = mset ?s" using assms(4) by simp
  then have set: "set ys = set ?s" by (rule mset_eq_setD)
  have "map f ys = map f ?s"
  proof (rule sorted_unique)
    show "set (map f ?s) \<subseteq> carrier" using assms(1) by simp
    show "sorted_wrt lt (map f ?s)" using sorted_sort_key [OF assms(1,2)] by (simp add: sorted_wrt_map)
    show "sorted_wrt lt (map f ys)" using assms(3) by (simp add: sorted_wrt_map)
    show "mset (map f ys) = mset (map f ?s)" using eq by simp
  qed
  moreover have "inj_on f (set ys \<union> set ?s)" using assms(2) set by (simp add: distinct_map)
  ultimately show ?thesis by (simp add: inj_on_map_eq_map)
qed

lemma take_sort_key_least:
  assumes "f ` set xs \<subseteq> carrier" and "distinct (map f xs)"
    and "x \<in> set (take k (sort_slice (\<lambda>x y. lt (f x) (f y)) xs))"
    and "y \<in> set xs" and "y \<notin> set (take k (sort_slice (\<lambda>x y. lt (f x) (f y)) xs))"
  shows "lt (f x) (f y)"
proof -
  let ?s = "sort_slice (\<lambda>x y. lt (f x) (f y)) xs"
  have "y \<in> set (drop k ?s)"
    using assms(4,5) by (metis Un_iff append_take_drop_id set_append set_sort_slice)
  moreover have "sorted_wrt (\<lambda>x y. lt (f x) (f y)) (take k ?s @ drop k ?s)"
    using sorted_sort_key [OF assms(1,2)] by simp
  ultimately show ?thesis
    using assms(3) by (simp only: sorted_wrt_append)
qed

end

section \<open>Finite maps\<close>

lemma card_dom_update_le: "finite (dom m) \<Longrightarrow> card (dom (m(k \<mapsto> v))) \<le> Suc (card (dom m))"
  by (simp add: card_insert_le_m1 card_insert_if)

lemma card_dom_update_new: "finite (dom m) \<Longrightarrow> m k = None \<Longrightarrow> card (dom (m(k \<mapsto> v))) = Suc (card (dom m))"
  by (simp add: domIff)

lemma card_dom_delete: "finite (dom m) \<Longrightarrow> card (dom (m(k := None))) \<le> card (dom m)"
  by (simp add: card_mono)

end
