(* ===== verification/Lazycat.thy ===== *)
theory Lazycat
  imports Prelude
begin

text \<open>
  \<open>ui/static/js/lazycat-notifications.src.js\<close>: the browser module behind
  \<open>window.dhtcNotifySystem\<close>. Its module state is the cached \<open>currentDevicePromise\<close> and the
  flag \<open>unavailable\<close>; a call of the \<open>async\<close> function \<open>notify\<close> is a small state machine that
  is suspended at each \<open>await\<close>, so several calls interleave. An event is one turn of the
  event loop: a call enters, the gateway's promise settles, a suspended call resumes, or
  the promise of \<open>Notify\<close> settles. The gateway of the Lazycat SDK and the device's
  \<open>Notify\<close> are not part of the module: their outcomes are carried by the events.
\<close>

section \<open>Data\<close>

text \<open>
  A device as the guard \<open>device?.notification?.Notify\<close> sees it: \<open>device.notification\<close> may be
  missing (\<open>None\<close>), and then its \<open>Notify\<close> may be (\<open>Some False\<close>).
\<close>

record Device =
  notification :: "bool option"

definition can_notify :: "Device option \<Rightarrow> bool" where
  "can_notify device = (case device of None \<Rightarrow> False | Some d \<Rightarrow> notification d = Some True)"

text \<open>
  The argument of \<open>notify\<close>; an absent property is \<open>undefined\<close>. \<open>js_or\<close> is \<open>v || dflt\<close>: the
  default replaces \<open>undefined\<close> and the empty string.
\<close>

record NotifyArgs =
  title :: "string option"
  body :: "string option"
  deeplinkUrl :: "string option"

definition js_or :: "string option \<Rightarrow> string \<Rightarrow> string" where
  "js_or v dflt = (case v of None \<Rightarrow> dflt | Some s \<Rightarrow> if s = [] then dflt else s)"

record Payload =
  p_title :: string
  p_body :: string
  p_deeplinkUrl :: string

definition payload :: "NotifyArgs \<Rightarrow> string \<Rightarrow> Payload" where
  "payload a href =
    \<lparr>p_title = js_or (title a) ''dhtc'', p_body = js_or (body a) [],
     p_deeplinkUrl = js_or (deeplinkUrl a) href\<rparr>"

text \<open>
  The promise the module caches: \<open>gateway.currentDevice\<close> with its \<open>catch\<close> handler, so it is
  pending or fulfilled, with \<open>None\<close> standing for \<open>null\<close>.
\<close>

datatype promise = Pending | Fulfilled "Device option"

text \<open>
  Where a call of \<open>notify\<close> is suspended: on the cached promise, on the \<open>null\<close> that
  \<open>getCurrentDevice\<close> returned because the system is unavailable, or on \<open>Notify\<close>.
\<close>

datatype phase = AwaitDevice NotifyArgs | AwaitNull | AwaitNotify Payload | Done bool

record LzModule =
  currentDevicePromise :: "promise option"
  unavailable :: bool
  gateway_reads :: nat
  calls :: "phase list"
  sent :: "(nat \<times> Payload) list"

definition lz_init :: LzModule where
  "lz_init = \<lparr>currentDevicePromise = None, unavailable = False, gateway_reads = 0,
     calls = [], sent = []\<rparr>"

section \<open>The module's code\<close>

text \<open>
  \<open>getCurrentDevice\<close> runs without interruption: \<open>None\<close> is the early \<open>return null\<close>,
  \<open>Some p\<close> the promise it hands out.
\<close>

definition getCurrentDevice :: "LzModule \<Rightarrow> promise option \<times> LzModule" where
  "getCurrentDevice s =
    (if unavailable s then (None, s)
     else case currentDevicePromise s of
       Some p \<Rightarrow> (Some p, s)
     | None \<Rightarrow> (Some Pending,
         s\<lparr>currentDevicePromise := Some Pending, gateway_reads := gateway_reads s + 1\<rparr>))"

text \<open>The first turn of \<open>notify\<close>, up to its first \<open>await\<close>.\<close>

definition notify_enter :: "NotifyArgs \<Rightarrow> LzModule \<Rightarrow> LzModule" where
  "notify_enter a s =
    (case getCurrentDevice s of
       (None, s') \<Rightarrow> s'\<lparr>calls := calls s' @ [AwaitNull]\<rparr>
     | (Some _, s') \<Rightarrow> s'\<lparr>calls := calls s' @ [AwaitDevice a]\<rparr>)"

text \<open>The gateway's promise settles; a rejection runs the \<open>catch\<close> handler.\<close>

datatype settlement = Resolve "Device option" | Reject

definition gateway_settle :: "settlement \<Rightarrow> LzModule \<Rightarrow> LzModule" where
  "gateway_settle r s =
    (if currentDevicePromise s = Some Pending then
       (case r of
          Resolve d \<Rightarrow> s\<lparr>currentDevicePromise := Some (Fulfilled d)\<rparr>
        | Reject \<Rightarrow> s\<lparr>unavailable := True, currentDevicePromise := Some (Fulfilled None)\<rparr>)
     else s)"

text \<open>
  The turn after \<open>await getCurrentDevice()\<close>: the guard, then the call of \<open>Notify\<close> with the
  defaulted payload; \<open>href\<close> is \<open>window.location.href\<close> at that moment.
\<close>

definition notify_resume :: "nat \<Rightarrow> string \<Rightarrow> LzModule \<Rightarrow> LzModule" where
  "notify_resume i href s =
    (if i < length (calls s) then
       (case calls s ! i of
          AwaitNull \<Rightarrow> s\<lparr>calls := (calls s)[i := Done False]\<rparr>
        | AwaitDevice a \<Rightarrow>
            (case currentDevicePromise s of
               Some (Fulfilled d) \<Rightarrow>
                 (if \<not> can_notify d then s\<lparr>calls := (calls s)[i := Done False]\<rparr>
                  else s\<lparr>calls := (calls s)[i := AwaitNotify (payload a href)],
                         sent := sent s @ [(i, payload a href)]\<rparr>)
             | _ \<Rightarrow> s)
        | _ \<Rightarrow> s)
     else s)"

text \<open>The promise of \<open>Notify\<close> settles; the \<open>catch\<close> turns a failure into \<open>false\<close>.\<close>

definition notify_settle :: "nat \<Rightarrow> bool \<Rightarrow> LzModule \<Rightarrow> LzModule" where
  "notify_settle i ok s =
    (if i < length (calls s) then
       (case calls s ! i of
          AwaitNotify _ \<Rightarrow> s\<lparr>calls := (calls s)[i := Done ok]\<rparr>
        | _ \<Rightarrow> s)
     else s)"

datatype lz_event =
    Call NotifyArgs
  | Gateway settlement
  | Resume nat string
  | Notified nat bool

fun lz_step :: "LzModule \<Rightarrow> lz_event \<Rightarrow> LzModule" where
  "lz_step s (Call a) = notify_enter a s"
| "lz_step s (Gateway r) = gateway_settle r s"
| "lz_step s (Resume i href) = notify_resume i href s"
| "lz_step s (Notified i ok) = notify_settle i ok s"

lemmas lz_defs = notify_enter_def getCurrentDevice_def gateway_settle_def notify_resume_def
  notify_settle_def

section \<open>The module invariant\<close>

text \<open>
  The gateway is read once, when the promise is created; the flag is set only with the
  promise fulfilled by \<open>null\<close>; a call waits on the promise only when it exists; a payload
  is sent only to a device that has \<open>Notify\<close>, never with an empty title and at most once
  per call; a call that resolves to \<open>true\<close> has sent one.
\<close>

definition device_ready :: "LzModule \<Rightarrow> bool" where
  "device_ready s =
    (case currentDevicePromise s of Some (Fulfilled d) \<Rightarrow> can_notify d | _ \<Rightarrow> False)"

fun call_ok :: "LzModule \<Rightarrow> nat \<Rightarrow> phase \<Rightarrow> bool" where
  "call_ok s i (AwaitDevice a) \<longleftrightarrow> currentDevicePromise s \<noteq> None \<and> i \<notin> fst ` set (sent s)"
| "call_ok s i AwaitNull \<longleftrightarrow> unavailable s \<and> i \<notin> fst ` set (sent s)"
| "call_ok s i (AwaitNotify p) \<longleftrightarrow> (i, p) \<in> set (sent s)"
| "call_ok s i (Done ok) \<longleftrightarrow> (ok \<longrightarrow> i \<in> fst ` set (sent s))"

definition lz_inv :: "LzModule \<Rightarrow> bool" where
  "lz_inv s \<longleftrightarrow>
    gateway_reads s = (if currentDevicePromise s = None then 0 else 1)
    \<and> (unavailable s \<longrightarrow> currentDevicePromise s = Some (Fulfilled None))
    \<and> (\<forall>i < length (calls s). call_ok s i (calls s ! i))
    \<and> (\<forall>(i, p) \<in> set (sent s). i < length (calls s) \<and> p_title p \<noteq> [])
    \<and> (sent s \<noteq> [] \<longrightarrow> device_ready s)
    \<and> distinct (map fst (sent s))"

lemma payload_title [simp]: "p_title (payload a href) \<noteq> []"
  by (simp add: payload_def js_or_def split: option.splits)

lemma lz_inv_init [simp]: "lz_inv lz_init"
  by (simp add: lz_inv_def lz_init_def)

lemma lz_inv_simps:
  assumes "lz_inv s"
  shows "i < length (calls s) \<Longrightarrow> call_ok s i (calls s ! i)"
    and "unavailable s \<Longrightarrow> currentDevicePromise s = Some (Fulfilled None)"
    and "(i, p) \<in> set (sent s) \<Longrightarrow> i < length (calls s)"
    and "i \<in> fst ` set (sent s) \<Longrightarrow> i < length (calls s)"
  using assms by (auto simp: lz_inv_def)

lemma call_ok_cong:
  "currentDevicePromise s' \<noteq> None \<longleftrightarrow> currentDevicePromise s \<noteq> None \<Longrightarrow>
   unavailable s' = unavailable s \<Longrightarrow> sent s' = sent s \<Longrightarrow> call_ok s' i c = call_ok s i c"
  by (cases c) auto

lemma notify_enter_inv [inv_keep]:
  assumes "lz_inv s"
  shows "lz_inv (notify_enter a s)"
proof -
  have no: "length (calls s) \<notin> fst ` set (sent s)"
    using lz_inv_simps(4) [OF assms] by blast
  let ?s = "notify_enter a s"
  have same: "sent ?s = sent s" "unavailable ?s = unavailable s"
    "currentDevicePromise s \<noteq> None \<Longrightarrow> currentDevicePromise ?s = currentDevicePromise s"
    by (auto simp: lz_defs split: option.splits)
  have old: "call_ok ?s i (calls s ! i)" if "i < length (calls s)" for i
    using lz_inv_simps(1) [OF assms that] same by (cases "calls s ! i") auto
  define c where "c = (if unavailable s then AwaitNull else AwaitDevice a)"
  have c: "calls ?s = calls s @ [c]" "call_ok ?s (length (calls s)) c"
    using no by (auto simp: c_def lz_defs split: option.splits)
  have "\<forall>i < length (calls ?s). call_ok ?s i (calls ?s ! i)"
    using old c by (auto simp: nth_append less_Suc_eq)
  moreover have "device_ready s \<Longrightarrow> device_ready ?s"
    using same(3) by (auto simp: device_ready_def split: option.splits)
  moreover have "gateway_reads ?s = 1" "unavailable ?s \<Longrightarrow> currentDevicePromise ?s = Some (Fulfilled None)"
    "currentDevicePromise ?s \<noteq> None"
    using assms by (auto simp: lz_inv_def lz_defs split: option.splits)
  ultimately show ?thesis
    using assms same c(1) by (auto simp: lz_inv_def)
qed

lemma gateway_settle_inv [inv_keep]:
  assumes "lz_inv s"
  shows "lz_inv (gateway_settle r s)"
proof (cases "currentDevicePromise s = Some Pending")
  case True
  then have ns: "sent s = []" "\<not> unavailable s"
    using assms by (auto simp: lz_inv_def device_ready_def)
  have "call_ok (gateway_settle r s) i (calls s ! i)" if "i < length (calls s)" for i
    using lz_inv_simps(1) [OF assms that] True ns
    by (cases "calls s ! i"; cases r) (auto simp: gateway_settle_def)
  moreover have "calls (gateway_settle r s) = calls s" "sent (gateway_settle r s) = []"
    using ns by (auto simp: gateway_settle_def split: settlement.splits)
  ultimately show ?thesis
    using assms True by (auto simp: lz_inv_def gateway_settle_def split: settlement.splits)
qed (use assms in \<open>simp add: gateway_settle_def\<close>)

lemma lz_inv_set_done:
  assumes "lz_inv s" and "i < length (calls s)" and "ok \<Longrightarrow> i \<in> fst ` set (sent s)"
  shows "lz_inv (s\<lparr>calls := (calls s)[i := Done ok]\<rparr>)"
proof -
  have "call_ok (s\<lparr>calls := cs\<rparr>) j c = call_ok s j c" for cs j c
    by (rule call_ok_cong) auto
  then show ?thesis
    using assms by (auto simp: lz_inv_def nth_list_update device_ready_def)
qed

lemma notify_resume_inv [inv_keep]:
  assumes inv: "lz_inv s"
  shows "lz_inv (notify_resume i href s)"
proof (cases "\<exists>a d. i < length (calls s) \<and> calls s ! i = AwaitDevice a
    \<and> currentDevicePromise s = Some (Fulfilled d) \<and> can_notify d")
  case False
  then show ?thesis
    using inv lz_inv_set_done [OF inv, of i False]
    by (auto simp: notify_resume_def split: phase.splits option.splits promise.splits)
next
  case True
  then obtain a d where i: "i < length (calls s)" "calls s ! i = AwaitDevice a"
    and d: "currentDevicePromise s = Some (Fulfilled d)" "can_notify d" by blast
  let ?p = "payload a href"
  let ?s' = "s\<lparr>calls := (calls s)[i := AwaitNotify ?p], sent := sent s @ [(i, ?p)]\<rparr>"
  have s': "notify_resume i href s = ?s'" using i d by (simp add: notify_resume_def)
  have new: "i \<notin> fst ` set (sent s)" using lz_inv_simps(1) [OF inv i(1)] i(2) by simp
  have "call_ok ?s' j (calls ?s' ! j)" if "j < length (calls s)" for j
    using lz_inv_simps(1) [OF inv that] that
    by (cases "j = i"; cases "calls s ! j") (auto simp: nth_list_update)
  then show ?thesis
    using inv i d new unfolding s' by (auto simp: lz_inv_def device_ready_def)
qed

lemma notify_settle_inv [inv_keep]:
  assumes inv: "lz_inv s"
  shows "lz_inv (notify_settle i ok s)"
proof (cases "\<exists>p. i < length (calls s) \<and> calls s ! i = AwaitNotify p")
  case True
  then obtain p where i: "i < length (calls s)" "calls s ! i = AwaitNotify p" by blast
  then have "i \<in> fst ` set (sent s)"
    using lz_inv_simps(1) [OF inv i(1)] by force
  then show ?thesis
    using lz_inv_set_done [OF inv i(1)] i by (simp add: notify_settle_def)
next
  case False
  then have "notify_settle i ok s = s"
    by (auto simp: notify_settle_def split: phase.splits)
  then show ?thesis using inv by simp
qed

lemma lz_step_inv: "lz_inv s \<Longrightarrow> lz_inv (lz_step s e)"
  by (cases e) (auto intro: inv_keep)

interpretation lz: step_system lz_step lz_inv
  by unfold_locales (rule lz_step_inv)

section \<open>Settling every promise\<close>

text \<open>
  \<open>run_calls href oks\<close> resumes every call and settles the \<open>Notify\<close> promise of each;
  \<open>outcome\<close> is what the call's own phase then promises.
\<close>

fun call_settled :: "LzModule \<Rightarrow> bool \<Rightarrow> phase \<Rightarrow> bool" where
  "call_settled s ok (AwaitDevice a) = (device_ready s \<and> ok)"
| "call_settled s ok AwaitNull = False"
| "call_settled s ok (AwaitNotify p) = ok"
| "call_settled s ok (Done r) = r"

definition finish_call :: "string \<Rightarrow> (nat \<Rightarrow> bool) \<Rightarrow> LzModule \<Rightarrow> nat \<Rightarrow> LzModule" where
  "finish_call href oks s i = notify_settle i (oks i) (notify_resume i href s)"

lemma finish_call_calls:
  assumes "currentDevicePromise s = Some (Fulfilled d)" and "i < length (calls s)"
  shows "calls (finish_call href oks s i) = (calls s)[i := Done (call_settled s (oks i) (calls s ! i))]
    \<and> currentDevicePromise (finish_call href oks s i) = currentDevicePromise s"
  using assms
  by (cases "calls s ! i")
    (auto simp: finish_call_def lz_defs device_ready_def, metis list_update_id)

lemma call_settled_cong:
  "currentDevicePromise s' = currentDevicePromise s \<Longrightarrow> call_settled s' ok c = call_settled s ok c"
  by (cases c) (auto simp: device_ready_def)

lemma finish_calls:
  assumes "currentDevicePromise s = Some (Fulfilled d)" and "n \<le> length (calls s)"
  shows "let s' = foldl (finish_call href oks) s [0..<n] in
      length (calls s') = length (calls s)
    \<and> currentDevicePromise s' = currentDevicePromise s
    \<and> (\<forall>i < n. calls s' ! i = Done (call_settled s (oks i) (calls s ! i)))
    \<and> (\<forall>i. n \<le> i \<longrightarrow> calls s' ! i = calls s ! i)"
  using assms(2)
proof (induction n)
  case 0
  show ?case by simp
next
  case (Suc n)
  let ?t = "foldl (finish_call href oks) s [0..<n]"
  have IH: "length (calls ?t) = length (calls s)" "currentDevicePromise ?t = currentDevicePromise s"
    "\<forall>i < n. calls ?t ! i = Done (call_settled s (oks i) (calls s ! i))"
    "\<forall>i. n \<le> i \<longrightarrow> calls ?t ! i = calls s ! i"
    using Suc by (auto simp: Let_def)
  have "n < length (calls ?t)" using IH(1) Suc.prems by simp
  from this finish_call_calls [of ?t d, OF _ this] IH assms(1) show ?case
    by (auto simp: Let_def nth_list_update less_Suc_eq call_settled_cong [OF IH(2)])
qed

text \<open>The schedule written as events of the module.\<close>

definition finish_events :: "string \<Rightarrow> (nat \<Rightarrow> bool) \<Rightarrow> nat \<Rightarrow> lz_event list" where
  "finish_events href oks n = concat (map (\<lambda>i. [Resume i href, Notified i (oks i)]) [0..<n])"

lemma foldl_finish_events:
  "foldl lz_step s (finish_events href oks n) = foldl (finish_call href oks) s [0..<n]"
  by (induction n) (simp_all add: finish_events_def finish_call_def)

section \<open>Properties\<close>

text \<open>C9. Whatever the interleaving of calls and settlements: the gateway is asked for the
  device at most once in the life of the page, every call of \<open>notify\<close> sends at most one
  notification, only to a device that has \<open>Notify\<close> and never with an empty title, and a
  call that resolved to \<open>true\<close> has sent one.\<close>

theorem lz_reachable:
  "let s = foldl lz_step lz_init es in
     gateway_reads s \<le> 1
   \<and> distinct (map fst (sent s))
   \<and> (sent s = [] \<or> device_ready s)
   \<and> filter (\<lambda>(i, p). p_title p = []) (sent s) = []
   \<and> filter (\<lambda>i. calls s ! i = Done True \<and> i \<notin> fst ` set (sent s)) [0..<length (calls s)] = []"
proof -
  let ?s = "foldl lz_step lz_init es"
  have inv: "lz_inv ?s" by (rule lz.run_keeps) simp
  have "i \<in> fst ` set (sent ?s)" if "i < length (calls ?s)" "calls ?s ! i = Done True" for i
    using lz_inv_simps(1) [OF inv that(1)] that(2) by simp
  with inv show ?thesis
    by (auto simp: lz_inv_def Let_def filter_empty_conv split: if_splits)
qed

text \<open>C10. Once the gateway's promise has settled, no call of \<open>notify\<close> stays suspended: when
  the suspended calls are resumed and their \<open>Notify\<close> promises settle, each has resolved to
  \<open>true\<close> or \<open>false\<close>, and one that was waiting for the device resolves to \<open>true\<close> exactly
  when the device has \<open>Notify\<close> and \<open>Notify\<close> succeeded; after a rejection all of them
  resolve to \<open>false\<close>, as does every later call, without a further request.\<close>

theorem notify_completes:
  assumes "currentDevicePromise s = Some Pending"
  shows "let s' = foldl lz_step (gateway_settle r s) (finish_events href oks (length (calls s))) in
    length (calls s') = length (calls s)
    \<and> (\<forall>i < length (calls s). \<exists>b. calls s' ! i = Done b)
    \<and> (\<forall>i < length (calls s). \<forall>a. calls s ! i = AwaitDevice a \<longrightarrow>
         calls s' ! i = Done ((case r of Resolve d \<Rightarrow> can_notify d | Reject \<Rightarrow> False) \<and> oks i))
    \<and> (r = Reject \<longrightarrow> gateway_reads (notify_enter a (gateway_settle r s)) = gateway_reads s
         \<and> last (calls (notify_resume (length (calls s)) href
                     (notify_enter a (gateway_settle r s)))) = Done False)"
proof -
  let ?t = "gateway_settle r s"
  obtain d where d: "currentDevicePromise ?t = Some (Fulfilled d)"
    using assms(1) by (cases r) (auto simp: gateway_settle_def)
  have ready: "device_ready ?t = (case r of Resolve d \<Rightarrow> can_notify d | Reject \<Rightarrow> False)"
    using assms(1) by (cases r) (auto simp: gateway_settle_def device_ready_def can_notify_def)
  have same: "calls ?t = calls s"
    by (auto simp: gateway_settle_def split: settlement.splits)
  have "r = Reject \<longrightarrow> gateway_reads (notify_enter a ?t) = gateway_reads s
      \<and> last (calls (notify_resume (length (calls s)) href (notify_enter a ?t))) = Done False"
    using assms(1) by (auto simp: lz_defs nth_append list_update_append)
  with finish_calls [OF d, of "length (calls s)" href oks] show ?thesis
    by (auto simp: foldl_finish_events Let_def same ready)
qed

theorem notify_completes_witness:
  "calls (foldl lz_step
     (gateway_settle (Resolve (Some \<lparr>notification = Some True\<rparr>))
       (notify_enter \<lparr>title = None, body = None, deeplinkUrl = None\<rparr> lz_init))
     (finish_events ''/'' (\<lambda>_. True) 1)) ! 0 = Done True"
  using notify_completes [of "notify_enter \<lparr>title = None, body = None, deeplinkUrl = None\<rparr> lz_init"
      "Resolve (Some \<lparr>notification = Some True\<rparr>)" "''/''" "\<lambda>_. True"]
  by (simp add: notify_enter_def getCurrentDevice_def lz_init_def can_notify_def Let_def)

end
