(* ===== verification/Screenshot.thy ===== *)
theory Screenshot
  imports Prelude
begin

text \<open>
  \<open>scripts/screenshot.js\<close>: a Playwright script that waits for the web interface to answer on
  \<open>/health\<close> and then captures seven pages. The browser, the file system and the server are
  the environment: which of their calls throw and what they answer is a record the
  definitions take, and what the script does to them is a trace of actions. The wait loop
  may run forever, so it is a partial function whose value \<open>None\<close> is not returning.
\<close>

section \<open>Environment and actions\<close>

text \<open>
  The answer to one \<open>page.goto(`${baseUrl}/health`)\<close>: it throws, it gives \<open>null\<close> (on which
  \<open>response.status()\<close> throws), or a response with a status.
\<close>

datatype probe = Threw | NoResponse | Status nat

definition throws :: "probe \<Rightarrow> bool" where
  "throws p = (p = Threw \<or> p = NoResponse)"

text \<open>How far the three awaited calls of one capture get.\<close>

datatype capture = GotoThrows | WaitThrows | ShotThrows | Captured

record ShotEnv =
  launch_ok :: bool
  context_ok :: bool
  page_ok :: bool
  dir_exists :: bool
  mkdir_ok :: bool
  health :: "nat \<Rightarrow> probe"
  load :: "string \<Rightarrow> capture"
  close_ok :: bool

datatype action =
    Launch | NewContext nat nat | NewPage | Mkdir string | Goto string | Sleep nat
  | Log string | LogError string | Shot string | CloseBrowser | Exit int

datatype ending = Finished | Rejected | Exited int

record Page =
  pg_name :: string
  pg_path :: string

definition baseUrl :: string where
  "baseUrl = ''http://localhost:4200''"

definition pages :: "Page list" where
  "pages =
    [\<lparr>pg_name = ''dashboard'', pg_path = ''/''\<rparr>,
     \<lparr>pg_name = ''search'', pg_path = ''/search''\<rparr>,
     \<lparr>pg_name = ''discover'', pg_path = ''/discover''\<rparr>,
     \<lparr>pg_name = ''watches'', pg_path = ''/watches''\<rparr>,
     \<lparr>pg_name = ''blacklist'', pg_path = ''/blacklist''\<rparr>,
     \<lparr>pg_name = ''settings'', pg_path = ''/settings''\<rparr>,
     \<lparr>pg_name = ''trawl'', pg_path = ''/trawl''\<rparr>]"

section \<open>The wait loop\<close>

text \<open>
  \<open>while (retries > 0)\<close>: \<open>i\<close> numbers the probes. Only the \<open>catch\<close> block sleeps and
  decrements; a response with another status goes round again at once.
\<close>

partial_function (option) wait_server ::
  "(nat \<Rightarrow> probe) \<Rightarrow> nat \<Rightarrow> int \<Rightarrow> action list \<Rightarrow> (int \<times> action list) option" where
  "wait_server pr i retries tr =
    (if retries > 0 then
       (case pr i of
          Status c \<Rightarrow>
            if c = 200 then Some (retries, tr @ [Goto (baseUrl @ ''/health''), Log ''Server is ready''])
            else wait_server pr (Suc i) retries (tr @ [Goto (baseUrl @ ''/health'')])
        | _ \<Rightarrow> wait_server pr (Suc i) (retries - 1)
                 (tr @ [Goto (baseUrl @ ''/health''), Log ''Waiting for server...'', Sleep 1000]))
     else Some (retries, tr))"

section \<open>Capturing\<close>

definition capture_page :: "ShotEnv \<Rightarrow> string \<Rightarrow> Page \<Rightarrow> action list" where
  "capture_page env dir p =
    (let start = [Log (''Capturing '' @ pg_name p @ ''...''), Goto (baseUrl @ pg_path p)];
         failed = [LogError (''Failed to capture '' @ pg_name p @ '':'')]
     in case load env (pg_name p) of
       GotoThrows \<Rightarrow> start @ failed
     | WaitThrows \<Rightarrow> start @ failed
     | ShotThrows \<Rightarrow> start @ [Sleep 2000] @ failed
     | Captured \<Rightarrow> start @ [Sleep 2000, Shot (dir @ ''/'' @ pg_name p @ ''.png'')])"

text \<open>
  The whole script; \<open>dir\<close> is \<open>path.join(__dirname, "..", "screenshots")\<close>. An exception
  outside the \<open>try\<close> blocks rejects the promise of the main function.
\<close>

definition screenshot_main :: "ShotEnv \<Rightarrow> string \<Rightarrow> (ending \<times> action list) option" where
  "screenshot_main env dir =
    (if \<not> launch_ok env then Some (Rejected, [Launch])
     else if \<not> context_ok env then Some (Rejected, [Launch, NewContext 1280 720])
     else if \<not> page_ok env then Some (Rejected, [Launch, NewContext 1280 720, NewPage])
     else
       let tr = [Launch, NewContext 1280 720, NewPage] @ (if dir_exists env then [] else [Mkdir dir]) in
       if \<not> dir_exists env \<and> \<not> mkdir_ok env then Some (Rejected, tr)
       else (case wait_server (health env) 0 30 tr of
         None \<Rightarrow> None
       | Some (retries, tr1) \<Rightarrow>
           if retries = 0 then Some (Exited 1, tr1 @ [LogError ''Server timed out'', Exit 1])
           else
             let tr2 = tr1 @ concat (map (capture_page env dir) pages) @ [CloseBrowser]
             in Some (if close_ok env then Finished else Rejected, tr2)))"

definition shots :: "action list \<Rightarrow> string list" where
  "shots tr = concat (map (\<lambda>a. case a of Shot f \<Rightarrow> [f] | _ \<Rightarrow> []) tr)"

lemma shots_append [simp]: "shots (xs @ ys) = shots xs @ shots ys"
  by (simp add: shots_def)

lemma shots_simps [simp]:
  "shots [] = []" "shots (Shot f # tr) = f # shots tr"
  "(\<And>f. a \<noteq> Shot f) \<Longrightarrow> shots (a # tr) = shots tr"
  by (auto simp: shots_def split: action.splits)

section \<open>How the wait ends\<close>

definition failures :: "(nat \<Rightarrow> probe) \<Rightarrow> nat \<Rightarrow> nat \<Rightarrow> nat" where
  "failures pr i n = length (filter (throws \<circ> pr) [i..<i + n])"

lemma failures_0 [simp]: "failures pr i 0 = 0"
  by (simp add: failures_def)

lemma failures_Suc: "failures pr i (Suc n) = (if throws (pr i) then 1 else 0) + failures pr (Suc i) n"
  by (simp add: failures_def upt_conv_Cons del: upt_Suc)

text \<open>What one probe that does not end the loop does.\<close>

definition probe_actions :: "probe \<Rightarrow> action list" where
  "probe_actions p = Goto (baseUrl @ ''/health'') #
     (if throws p then [Log ''Waiting for server...'', Sleep 1000] else [])"

lemma shots_probe_actions [simp]: "shots (concat (map (probe_actions \<circ> pr) is)) = []"
  by (induction "is") (auto simp: probe_actions_def)

lemma wait_step:
  assumes "0 < retries" and "pr i \<noteq> Status 200"
  shows "wait_server pr i retries tr
    = wait_server pr (Suc i) (retries - (if throws (pr i) then 1 else 0)) (tr @ probe_actions (pr i))"
  using assms
  by (subst wait_server.simps) (auto simp: throws_def probe_actions_def split: probe.splits)

lemma wait_steps:
  assumes "\<forall>k < n. int (failures pr i k) < retries" and "\<forall>k < n. pr (i + k) \<noteq> Status 200"
  shows "wait_server pr i retries tr
    = wait_server pr (i + n) (retries - int (failures pr i n))
        (tr @ concat (map (probe_actions \<circ> pr) [i..<i + n]))"
  using assms
proof (induction n arbitrary: i retries tr)
  case 0
  show ?case by simp
next
  case (Suc n)
  let ?r = "retries - (if throws (pr i) then 1 else 0)"
  have pos: "0 < retries" using Suc.prems(1) by force
  have "\<forall>k<n. int (failures pr (Suc i) k) < ?r"
  proof (intro allI impI)
    fix k assume "k < n"
    then show "int (failures pr (Suc i) k) < ?r"
      using Suc.prems(1) [rule_format, of "Suc k"] by (auto simp: failures_Suc)
  qed
  moreover have "\<forall>k<n. pr (Suc i + k) \<noteq> Status 200"
    using Suc.prems(2) by (metis Suc_less_eq add_Suc_shift)
  moreover have "pr i \<noteq> Status 200" using Suc.prems(2) by force
  moreover have "[i..<i + Suc n] = i # [Suc i..<Suc i + n]"
    by (simp add: upt_conv_Cons del: upt_Suc)
  ultimately show ?case
    using Suc.IH [of "Suc i" ?r "tr @ probe_actions (pr i)"] wait_step [OF pos, of pr i tr]
    by (simp add: failures_Suc algebra_simps del: upt_Suc)
qed

lemma wait_diverges:
  assumes "\<forall>k. pr (i + k) \<noteq> Status 200" and "\<forall>n. int (failures pr i n) < retries"
  shows "wait_server pr i retries tr = None"
proof -
  have "\<not> ((\<forall>k. pr (i + k) \<noteq> Status 200) \<and> (\<forall>n. int (failures pr i n) < retries))"
    if "wait_server pr i retries tr = Some y" for y
    using that
  proof (induction rule: wait_server.raw_induct [rotated, consumes 1, case_names step])
    case (step rec pr i retries tr y)
    show ?case
    proof
      assume A: "(\<forall>k. pr (i + k) \<noteq> Status 200) \<and> (\<forall>n. int (failures pr i n) < retries)"
      have pos: "0 < retries" using A [THEN conjunct2, rule_format, of 0] by simp
      have n200: "\<forall>k. pr (Suc i + k) \<noteq> Status 200" using A by (metis add_Suc_shift)
      have f: "\<forall>n. int (failures pr (Suc i) n) < retries - (if throws (pr i) then 1 else 0)"
      proof
        fix n show "int (failures pr (Suc i) n) < retries - (if throws (pr i) then 1 else 0)"
          using A [THEN conjunct2, rule_format, of "Suc n"] by (auto simp: failures_Suc)
      qed
      have "pr i \<noteq> Status 200" using A by (metis add_0_right)
      then obtain tr' where
        "rec pr (Suc i) (retries - (if throws (pr i) then 1 else 0)) tr' = Some y"
        using step(2) pos by (auto simp: throws_def split: probe.splits if_splits)
      from step(1) [OF this] n200 f show False by blast
    qed
  qed
  then show ?thesis using assms by (metis not_None_eq)
qed

text \<open>
  The three ways the wait can go, for the 30 retries of the script: an answer 200 comes
  while fewer than 30 probes have failed; 30 probes fail first; neither ever happens.
\<close>

definition ready_at :: "(nat \<Rightarrow> probe) \<Rightarrow> nat \<Rightarrow> bool" where
  "ready_at pr n \<longleftrightarrow> pr n = Status 200 \<and> (\<forall>k < n. pr k \<noteq> Status 200) \<and> failures pr 0 n < 30"

definition timeout_at :: "(nat \<Rightarrow> probe) \<Rightarrow> nat \<Rightarrow> bool" where
  "timeout_at pr n \<longleftrightarrow> failures pr 0 n = 30 \<and> (\<forall>k < n. failures pr 0 k < 30 \<and> pr k \<noteq> Status 200)"

lemma failures_mono: "m \<le> n \<Longrightarrow> failures pr i m \<le> failures pr i n"
  by (induction n) (auto simp: failures_def le_Suc_eq)

lemma wait_now:
  "0 < retries \<Longrightarrow> pr i = Status 200 \<Longrightarrow> wait_server pr i retries tr
    = Some (retries, tr @ [Goto (baseUrl @ ''/health''), Log ''Server is ready''])"
  by (subst wait_server.simps) simp

lemma wait_exhausted: "wait_server pr i 0 tr = Some (0, tr)"
  by (subst wait_server.simps) simp

lemma wait_ready:
  assumes "ready_at pr n"
  shows "wait_server pr 0 30 tr = Some (30 - int (failures pr 0 n),
     tr @ concat (map (probe_actions \<circ> pr) [0..<n]) @ [Goto (baseUrl @ ''/health''), Log ''Server is ready''])"
proof -
  have "failures pr 0 k < 30" if "k \<le> n" for k
    using failures_mono [OF that, of pr 0] assms by (simp add: ready_at_def)
  then show ?thesis
    using wait_steps [of n pr 0 30 tr] assms wait_now [of "30 - int (failures pr 0 n)" pr n]
    by (force simp: ready_at_def)
qed

lemma wait_timeout:
  assumes "timeout_at pr n"
  shows "wait_server pr 0 30 tr = Some (0, tr @ concat (map (probe_actions \<circ> pr) [0..<n]))"
  using wait_steps [of n pr 0 30 tr] assms
  by (force simp: timeout_at_def wait_exhausted)

lemma failures_Suc_right: "failures pr i (Suc n) = failures pr i n + (if throws (pr (i + n)) then 1 else 0)"
  by (simp add: failures_def)

lemma timeout_exists:
  assumes "30 \<le> failures pr 0 n" and "\<forall>k < n. pr k \<noteq> Status 200"
  shows "\<exists>m \<le> n. timeout_at pr m"
proof -
  define m where "m = (LEAST m. 30 \<le> failures pr 0 m)"
  have m: "30 \<le> failures pr 0 m" "m \<le> n" "\<And>k. k < m \<Longrightarrow> failures pr 0 k < 30"
    using assms(1) by (auto simp: m_def intro: LeastI Least_le dest: not_less_Least)
  obtain m' where m': "m = Suc m'" using m(1) by (cases m) auto
  have "failures pr 0 m = 30"
    using m(1) m(3) [of m'] by (auto simp: m' failures_Suc_right split: if_splits)
  with m assms(2) show ?thesis by (auto simp: timeout_at_def)
qed

lemma wait_none_iff:
  "wait_server pr 0 30 tr = None \<longleftrightarrow> (\<nexists>n. ready_at pr n) \<and> (\<nexists>n. timeout_at pr n)"
proof
  assume "wait_server pr 0 30 tr = None"
  then show "(\<nexists>n. ready_at pr n) \<and> (\<nexists>n. timeout_at pr n)"
    using wait_ready wait_timeout by (metis option.distinct(1))
next
  assume A: "(\<nexists>n. ready_at pr n) \<and> (\<nexists>n. timeout_at pr n)"
  have f: "failures pr 0 n < 30" if "\<forall>k < n. pr k \<noteq> Status 200" for n
    using timeout_exists [of pr n] that A by (meson not_le)
  have "pr n \<noteq> Status 200" for n
  proof (induction n rule: less_induct)
    case (less n)
    with f A show ?case by (auto simp: ready_at_def)
  qed
  with f show "wait_server pr 0 30 tr = None"
    by (intro wait_diverges) (auto simp: of_nat_less_iff [of _ 30, simplified])
qed

lemma shots_capture_page:
  "shots (capture_page env dir p) =
    (if load env (pg_name p) = Captured then [dir @ ''/'' @ pg_name p @ ''.png''] else [])"
  by (cases "load env (pg_name p)") (auto simp: capture_page_def Let_def)

lemma shots_capture_pages:
  "shots (concat (map (capture_page env dir) ps)) =
    map (\<lambda>p. dir @ ''/'' @ pg_name p @ ''.png'') (filter (\<lambda>p. load env (pg_name p) = Captured) ps)"
  by (induction ps) (auto simp: shots_capture_page)

definition env_ok :: "ShotEnv \<Rightarrow> bool" where
  "env_ok env \<longleftrightarrow> launch_ok env \<and> context_ok env \<and> page_ok env \<and> (dir_exists env \<or> mkdir_ok env)"

definition prepared :: "ShotEnv \<Rightarrow> string \<Rightarrow> action list" where
  "prepared env dir =
    [Launch, NewContext 1280 720, NewPage] @ (if dir_exists env then [] else [Mkdir dir])"

lemma screenshot_main_ok:
  assumes "env_ok env"
  shows "screenshot_main env dir =
    (case wait_server (health env) 0 30 (prepared env dir) of
       None \<Rightarrow> None
     | Some (retries, tr1) \<Rightarrow>
         if retries = 0 then Some (Exited 1, tr1 @ [LogError ''Server timed out'', Exit 1])
         else Some (if close_ok env then Finished else Rejected,
                tr1 @ concat (map (capture_page env dir) pages) @ [CloseBrowser]))"
  using assms unfolding screenshot_main_def prepared_def env_ok_def Let_def by argo

lemma shots_prepared [simp]: "shots (prepared env dir) = []"
  by (simp add: prepared_def)

section \<open>Properties\<close>

text \<open>C11. When the server answers 200 before thirty probes have failed, the script runs to
  its end, whatever goes wrong with single pages: the files written are exactly those of
  the pages whose capture succeeded, in the order of the list, every page is announced,
  and the browser is closed last.\<close>

theorem screenshot_captures:
  assumes "env_ok env" and "ready_at (health env) n"
  shows "\<exists>tr. screenshot_main env dir = Some (if close_ok env then Finished else Rejected, tr)
    \<and> shots tr = map (\<lambda>p. dir @ ''/'' @ pg_name p @ ''.png'')
                   (filter (\<lambda>p. load env (pg_name p) = Captured) pages)
    \<and> (\<forall>p \<in> set pages. Log (''Capturing '' @ pg_name p @ ''...'') \<in> set tr)
    \<and> last tr = CloseBrowser"
proof -
  have "failures (health env) 0 n < 30" using assms(2) by (simp add: ready_at_def)
  moreover have "Log (''Capturing '' @ pg_name p @ ''...'') \<in> set (capture_page env dir p)" for p
    by (auto simp: capture_page_def Let_def split: capture.splits)
  ultimately show ?thesis
    using assms(1)
    by (auto simp: screenshot_main_ok wait_ready [OF assms(2)] shots_capture_pages)
qed

definition sample_env :: ShotEnv where
  "sample_env = \<lparr>launch_ok = True, context_ok = True, page_ok = True, dir_exists = False,
     mkdir_ok = True, health = (\<lambda>n. if n < 2 then Threw else Status 200),
     load = (\<lambda>s. if s = ''trawl'' then GotoThrows else Captured), close_ok = True\<rparr>"

theorem screenshot_captures_witness:
  "\<exists>tr. screenshot_main sample_env ''out'' = Some (Finished, tr) \<and> last tr = CloseBrowser"
proof -
  have "env_ok sample_env" "ready_at (health sample_env) 2"
    by (auto simp: env_ok_def sample_env_def ready_at_def failures_def throws_def numeral_2_eq_2)
  from screenshot_captures [OF this, of "''out''"] show ?thesis
    by (auto simp: sample_env_def)
qed

text \<open>C12. The thirty retries bound only the probes that throw: the script ends by itself
  (ready or with exit code 1 and no file written) if and only if a probe answers 200 or
  thirty probes throw. A server that keeps answering another status, as a starting one
  does, keeps it in the loop forever.\<close>

theorem screenshot_wait_outcomes:
  assumes "env_ok env"
  shows "(screenshot_main env dir = None \<longleftrightarrow>
        (\<nexists>n. ready_at (health env) n) \<and> (\<nexists>n. timeout_at (health env) n))
    \<and> (\<forall>n. timeout_at (health env) n \<longrightarrow>
        (\<exists>tr. screenshot_main env dir = Some (Exited 1, tr) \<and> shots tr = []))
    \<and> ((\<forall>n. health env n = Status 503) \<longrightarrow> screenshot_main env dir = None)"
proof -
  have none: "screenshot_main env dir = None \<longleftrightarrow>
      (\<nexists>n. ready_at (health env) n) \<and> (\<nexists>n. timeout_at (health env) n)"
    unfolding wait_none_iff [of _ "prepared env dir", symmetric]
    using assms by (simp add: screenshot_main_ok split: option.splits prod.splits)
  have "\<exists>tr. screenshot_main env dir = Some (Exited 1, tr) \<and> shots tr = []"
    if "timeout_at (health env) n" for n
    using assms by (simp add: screenshot_main_ok wait_timeout [OF that])
  moreover have "screenshot_main env dir = None" if "\<forall>n. health env n = Status 503"
    unfolding none using that by (auto simp: ready_at_def timeout_at_def failures_def throws_def)
  ultimately show ?thesis using none by blast
qed

theorem screenshot_wait_outcomes_witness:
  "screenshot_main (sample_env\<lparr>health := (\<lambda>_. Status 503)\<rparr>) ''out'' = None"
proof -
  have "env_ok (sample_env\<lparr>health := (\<lambda>_. Status 503)\<rparr>)"
    by (simp add: env_ok_def sample_env_def)
  from screenshot_wait_outcomes [OF this, of "''out''"] show ?thesis by simp
qed

end
