(* ===== verification/Netip.thy ===== *)
theory Netip
  imports Prelude
begin

text \<open>
  The part of Go's package \<open>net/netip\<close> the program uses: addresses as Go holds them (a
  128-bit number with a family mark and, for IPv6, a zone), their byte slices, and
  address-port pairs. Every component that stores or compares peers and DHT nodes
  imports it.
\<close>

section \<open>Addresses\<close>

datatype Addr = NoAddr | IP4 "32 word" | IP6 "128 word" string

datatype AddrPort = AddrPort (AP_Addr: Addr) (AP_Port: uint16)

definition Addr_IsValid :: "Addr \<Rightarrow> bool" where
  "Addr_IsValid a = (a \<noteq> NoAddr)"

fun Is4 :: "Addr \<Rightarrow> bool" where
  "Is4 (IP4 _) = True"
| "Is4 _ = False"

fun Is6 :: "Addr \<Rightarrow> bool" where
  "Is6 (IP6 _ _) = True"
| "Is6 _ = False"

text \<open>\<open>::ffff:a.b.c.d\<close>: the upper 96 bits of the address are \<open>0xffff\<close>.\<close>

fun Is4In6 :: "Addr \<Rightarrow> bool" where
  "Is4In6 (IP6 w _) = (drop_bit 32 w = 65535)"
| "Is4In6 _ = False"

definition Unmap :: "Addr \<Rightarrow> Addr" where
  "Unmap a = (case a of IP6 w z \<Rightarrow> if Is4In6 a then IP4 (ucast w) else a | _ \<Rightarrow> a)"

text \<open>\<open>AsSlice\<close> is nil for the zero address and drops an IPv6 zone.\<close>

fun AsSlice :: "Addr \<Rightarrow> bytes" where
  "AsSlice NoAddr = []"
| "AsSlice (IP4 w) = word_be 4 w"
| "AsSlice (IP6 w _) = word_be 16 w"

definition AddrFromSlice :: "bytes \<Rightarrow> Addr option" where
  "AddrFromSlice b =
     (if length b = 4 then Some (IP4 (be_word b))
      else if length b = 16 then Some (IP6 (be_word b) '''')
      else None)"

text \<open>An address-port pair is valid when its address is; the port may be 0.\<close>

definition AddrPort_IsValid :: "AddrPort \<Rightarrow> bool" where
  "AddrPort_IsValid ap = Addr_IsValid (AP_Addr ap)"

fun WithoutZone :: "Addr \<Rightarrow> Addr" where
  "WithoutZone (IP6 w _) = IP6 w ''''"
| "WithoutZone a = a"

section \<open>Facts\<close>

lemma Is4_iff: "Is4 a \<longleftrightarrow> (\<exists>w. a = IP4 w)"
  by (cases a) auto

lemma Is4_Unmap_IP4 [simp]: "Unmap (IP4 w) = IP4 w"
  by (simp add: Unmap_def)

lemma Unmap_NoAddr [simp]: "Unmap NoAddr = NoAddr"
  by (simp add: Unmap_def)

lemma Unmap_not_4in6: "\<not> Is4In6 a \<Longrightarrow> Unmap a = a"
  by (cases a) (simp_all add: Unmap_def)

lemma not_Is4In6_Unmap [simp]: "\<not> Is4In6 (Unmap a)"
  by (cases a) (simp_all add: Unmap_def)

lemma Unmap_idem [simp]: "Unmap (Unmap a) = Unmap a"
  by (simp add: Unmap_not_4in6)

lemma Addr_IsValid_simps [simp]:
  "\<not> Addr_IsValid NoAddr" "Addr_IsValid (IP4 w)" "Addr_IsValid (IP6 v z)"
  by (simp_all add: Addr_IsValid_def)

lemma Addr_IsValid_Unmap [simp]: "Addr_IsValid (Unmap a) = Addr_IsValid a"
  by (cases a) (simp_all add: Unmap_def)

lemma valid_cases:
  assumes "Addr_IsValid a"
  obtains (V4) w where "a = IP4 w" | (V6) w z where "a = IP6 w z"
  using assms by (cases a) auto

lemma length_AsSlice: "Addr_IsValid a \<Longrightarrow> length (AsSlice a) = (if Is4 a then 4 else 16)"
  by (cases a) auto

lemma length_AsSlice_4 [simp]: "Is4 a \<Longrightarrow> length (AsSlice a) = 4"
  by (cases a) auto

lemma length_AsSlice_6 [simp]: "Is6 a \<Longrightarrow> length (AsSlice a) = 16"
  by (cases a) auto

lemma AddrFromSlice_IP4 [simp]: "AddrFromSlice (word_be 4 w) = Some (IP4 w)"
  by (simp add: AddrFromSlice_def be_word_word_be)

lemma AddrFromSlice_IP6 [simp]: "AddrFromSlice (word_be 16 w) = Some (IP6 w '''')"
  by (simp add: AddrFromSlice_def be_word_word_be)

lemma AddrFromSlice_AsSlice: "Addr_IsValid a \<Longrightarrow> AddrFromSlice (AsSlice a) = Some (WithoutZone a)"
  by (cases a) auto

lemma AddrFromSlice_Some:
  assumes "AddrFromSlice b = Some a"
  shows "AsSlice a = b" and "Addr_IsValid a"
  using assms by (auto simp: AddrFromSlice_def word_be_be_word split: if_splits)

lemma AddrFromSlice_4: "length b = 4 \<Longrightarrow> \<exists>w. AddrFromSlice b = Some (IP4 w)"
  by (simp add: AddrFromSlice_def)

lemma AddrFromSlice_16: "length b = 16 \<Longrightarrow> \<exists>w. AddrFromSlice b = Some (IP6 w '''')"
  by (simp add: AddrFromSlice_def)

lemma AddrPort_IsValid_simp [simp]: "AddrPort_IsValid (AddrPort a p) = Addr_IsValid a"
  by (simp add: AddrPort_IsValid_def)

end
