(* ===== verification/Routing_Table.thy ===== *)
theory Routing_Table
  imports Netip
begin

text \<open>
  The Kademlia routing table of one DHT network, \<open>dhtc-client/routing_table.go\<close>: 160
  buckets of at most eight nodes, indexed by the position of the highest bit in which a
  node's identifier differs from the local one. The group holds the table's record, the
  operations \<open>Add\<close>, \<open>Len\<close>, \<open>Snapshot\<close>, \<open>Closest\<close>, \<open>ContainsAddr\<close> and \<open>Prune\<close>, the
  invariant they keep, the meaning of the two XOR loops as the XOR metric, and the
  refinement of the table to a finite map from identifiers to addresses.
\<close>

unbundle bit_operations_syntax

section \<open>The XOR loops\<close>

definition kBucketSize :: nat where
  "kBucketSize = 8"

text \<open>\<open>bits.Len8\<close>: the number of bits needed to write the byte.\<close>

fun bit_len :: "nat \<Rightarrow> nat" where
  "bit_len n = (if n = 0 then 0 else Suc (bit_len (n div 2)))"

declare bit_len.simps [simp del]

definition Len8 :: "byte \<Rightarrow> nat" where
  "Len8 x = bit_len (unat x)"

fun xorBucketIndex :: "bytes \<Rightarrow> bytes \<Rightarrow> int" where
  "xorBucketIndex (l # local) (r # remote) =
     (let x = l XOR r
      in if x \<noteq> 0 then int (length local) * 8 + int (Len8 x) - 1
         else xorBucketIndex local remote)"
| "xorBucketIndex _ _ = -1"

fun xorLess :: "bytes \<Rightarrow> bytes \<Rightarrow> bytes \<Rightarrow> bool" where
  "xorLess (a # as) (b # bs) (t # target) =
     (let da = a XOR t; db = b XOR t
      in if da \<noteq> db then da < db else xorLess as bs target)"
| "xorLess _ _ _ = False"

section \<open>The table\<close>

record routingNode =
  rn_ID :: bytes
  rn_Addr :: AddrPort
  rn_LastSeen :: instant

record RoutingTable =
  localID :: bytes
  buckets :: "routingNode list list"
  maxNodes :: int
  rt_size :: int

definition NewRoutingTable :: "bytes \<Rightarrow> uint64 \<Rightarrow> RoutingTable" where
  "NewRoutingTable lid mx =
     (let table = \<lparr>localID = go_copy (replicate 20 0) lid, buckets = replicate 160 [],
                   maxNodes = sint mx, rt_size = 0\<rparr>
      in if maxNodes table < int kBucketSize then table\<lparr>maxNodes := int kBucketSize\<rparr> else table)"

text \<open>The scan of a bucket for a node that is already there.\<close>

fun bucket_find :: "bytes \<Rightarrow> routingNode list \<Rightarrow> nat option" where
  "bucket_find nodeID [] = None"
| "bucket_find nodeID (n # ns) =
     (if rn_ID n = nodeID then Some 0 else map_option Suc (bucket_find nodeID ns))"

text \<open>
  The update of a known node at position \<open>i\<close>: its fields are written, the \<open>i\<close> nodes
  before it move back by one place and the node is written to the front.
\<close>

definition bucket_refresh :: "routingNode list \<Rightarrow> nat \<Rightarrow> bytes \<Rightarrow> AddrPort \<Rightarrow> instant \<Rightarrow> routingNode list" where
  "bucket_refresh bucket i nodeID addr seen =
     (let b1 = bucket[i := (bucket ! i)\<lparr>rn_Addr := addr, rn_LastSeen := seen\<rparr>];
          b2 = take 1 b1 @ go_copy (take i (drop 1 b1)) (take i b1) @ drop (Suc i) b1
      in b2[0 := \<lparr>rn_ID = nodeID, rn_Addr = addr, rn_LastSeen = seen\<rparr>])"

definition RoutingTable_Add :: "RoutingTable \<Rightarrow> bytes \<Rightarrow> AddrPort \<Rightarrow> instant \<Rightarrow> bool \<times> RoutingTable" where
  "RoutingTable_Add t node_id addr seen =
     (if length node_id \<noteq> 20 \<or> \<not> AddrPort_IsValid addr \<or> AP_Port addr = 0 then (False, t)
      else
        let nodeID = go_copy (replicate 20 0) node_id;
            bucketIndex = xorBucketIndex (localID t) nodeID
        in if bucketIndex < 0 then (False, t)
           else
             let bi = nat bucketIndex; bucket = buckets t ! bi
             in case bucket_find nodeID bucket of
                  Some i \<Rightarrow>
                    (False, t\<lparr>buckets := (buckets t)[bi := bucket_refresh bucket i nodeID addr seen]\<rparr>)
                | None \<Rightarrow>
                    let node = \<lparr>rn_ID = nodeID, rn_Addr = addr, rn_LastSeen = seen\<rparr>
                    in if kBucketSize \<le> length bucket then
                         (True, t\<lparr>buckets := (buckets t)[bi := node # take (kBucketSize - 1) bucket]\<rparr>)
                       else if maxNodes t \<le> rt_size t then (False, t)
                       else (True, t\<lparr>rt_size := rt_size t + 1,
                                     buckets := (buckets t)[bi := node # bucket]\<rparr>))"

definition RoutingTable_Len :: "RoutingTable \<Rightarrow> int" where
  "RoutingTable_Len t = rt_size t"

definition RoutingTable_Snapshot :: "RoutingTable \<Rightarrow> routingNode list" where
  "RoutingTable_Snapshot t = foldl (\<lambda>nodes bucket. nodes @ bucket) [] (buckets t)"

text \<open>\<open>limit\<close> is the literal 8 at every call, so its type has no negative values.\<close>

definition RoutingTable_Closest :: "RoutingTable \<Rightarrow> bytes \<Rightarrow> nat \<Rightarrow> routingNode list" where
  "RoutingTable_Closest t target limit =
     (let targetID = go_copy (replicate 20 0) target;
          nodes = sort_slice (\<lambda>x y. xorLess (rn_ID x) (rn_ID y) targetID) (RoutingTable_Snapshot t)
      in if limit < length nodes then take limit nodes else nodes)"

definition RoutingTable_ContainsAddr :: "RoutingTable \<Rightarrow> AddrPort \<Rightarrow> bool" where
  "RoutingTable_ContainsAddr t addr =
     list_ex (\<lambda>bucket. list_ex (\<lambda>node. rn_Addr node = addr) bucket) (buckets t)"

text \<open>\<open>Prune\<close> filters every bucket in place and counts the removed nodes down.\<close>

fun prune_bucket :: "instant \<Rightarrow> routingNode list \<Rightarrow> int \<Rightarrow> routingNode list \<times> int" where
  "prune_bucket before [] n = ([], n)"
| "prune_bucket before (node # bucket) n =
     (if before < rn_LastSeen node
      then (let (kept, n') = prune_bucket before bucket n in (node # kept, n'))
      else prune_bucket before bucket (n - 1))"

fun prune_buckets :: "instant \<Rightarrow> routingNode list list \<Rightarrow> int \<Rightarrow> routingNode list list \<times> int" where
  "prune_buckets before [] n = ([], n)"
| "prune_buckets before (bucket # bs) n =
     (let (kept, n1) = prune_bucket before bucket n;
          (rest, n2) = prune_buckets before bs n1
      in (kept # rest, n2))"

definition RoutingTable_Prune :: "RoutingTable \<Rightarrow> instant \<Rightarrow> RoutingTable" where
  "RoutingTable_Prune t before =
     (let (bs, n) = prune_buckets before (buckets t) (rt_size t)
      in t\<lparr>buckets := bs, rt_size := n\<rparr>)"

section \<open>The loops compute the XOR metric\<close>

text \<open>The XOR distance of two identifiers as a number.\<close>

definition xor_distance :: "bytes \<Rightarrow> bytes \<Rightarrow> nat" where
  "xor_distance a b = be_nat (map2 (\<lambda>x y. x XOR y) a b)"

lemma xor_distance_Nil [simp]: "xor_distance [] bs = 0"
  by (simp add: xor_distance_def)

lemma xor_distance_Cons [simp]:
  "length as = length bs \<Longrightarrow>
    xor_distance (a # as) (b # bs) = unat (a XOR b) * 256 ^ length bs + xor_distance as bs"
  by (simp add: xor_distance_def be_nat_Cons)

lemma xor_distance_less: "length as = length bs \<Longrightarrow> xor_distance as bs < 256 ^ length bs"
  using be_nat_less [of "map2 (\<lambda>x y. x XOR y) as bs"] by (simp add: xor_distance_def)

lemma xor_eq_0 [simp]: "(x :: 'a::len word) XOR y = 0 \<longleftrightarrow> x = y"
  by (metis xor.assoc xor.right_neutral xor_self_eq)

lemma xor_cancel [simp]: "(x :: 'a::len word) XOR z = y XOR z \<longleftrightarrow> x = y"
  by (metis xor.assoc xor.right_neutral xor_self_eq)

lemma base_256_less:
  fixes p q P :: nat
  assumes "x < P" and "y < P" and "p < q"
  shows "p * P + x < q * P + y"
proof -
  have "p * P + x < (p + 1) * P" using assms(1) by simp
  also have "\<dots> \<le> q * P" using assms(3) by (intro mult_right_mono) auto
  finally show ?thesis by simp
qed

lemma xorLess_distance:
  "length a = length t \<Longrightarrow> length b = length t \<Longrightarrow>
    xorLess a b t \<longleftrightarrow> xor_distance a t < xor_distance b t"
proof (induction a b t rule: xorLess.induct)
  case (1 a as b bs t ts)
  then have len: "length as = length ts" "length bs = length ts" by auto
  let ?x = "xor_distance as ts" and ?y = "xor_distance bs ts" and ?P = "256 ^ length ts :: nat"
  have x: "?x < ?P" and y: "?y < ?P" using len xor_distance_less by auto
  consider (eq) "a = b" | (lt) "a XOR t < b XOR t" | (gt) "b XOR t < a XOR t"
    using less_linear by fastforce
  then show ?case
  proof cases
    case eq
    then show ?thesis using 1 len by simp
  next
    case lt
    then have "unat (a XOR t) < unat (b XOR t)" by (simp add: word_less_nat_alt)
    from base_256_less [OF x y this] lt len show ?thesis by (auto simp: Let_def)
  next
    case gt
    then have "unat (b XOR t) < unat (a XOR t)" by (simp add: word_less_nat_alt)
    from base_256_less [OF y x this] gt len show ?thesis by (auto simp: Let_def)
  qed
qed auto

lemma xor_distance_inject:
  "length a = length t \<Longrightarrow> length b = length t \<Longrightarrow> xor_distance a t = xor_distance b t \<longleftrightarrow> a = b"
proof (induction a b t rule: xorLess.induct)
  case (1 a as b bs t ts)
  then have len: "length as = length ts" "length bs = length ts" by auto
  let ?x = "xor_distance as ts" and ?y = "xor_distance bs ts" and ?P = "256 ^ length ts :: nat"
  have x: "?x < ?P" and y: "?y < ?P" using len xor_distance_less by auto
  show ?case
  proof (cases "a = b")
    case True
    then show ?thesis using 1 len by simp
  next
    case False
    then have "unat (a XOR t) < unat (b XOR t) \<or> unat (b XOR t) < unat (a XOR t)"
      by (metis xor_cancel linorder_neqE_nat unsigned_word_eqI)
    then show ?thesis
      using base_256_less [OF x y] base_256_less [OF y x] len False by fastforce
  qed
qed auto

lemma bit_len_bounds: "n \<noteq> 0 \<Longrightarrow> 0 < bit_len n \<and> 2 ^ (bit_len n - 1) \<le> n \<and> n < 2 ^ bit_len n"
proof (induction n rule: bit_len.induct)
  case (1 n)
  show ?case
  proof (cases "n div 2 = 0")
    case True
    with 1 have "n = 1" by auto
    then show ?thesis by (simp add: bit_len.simps)
  next
    case False
    with 1 have IH: "0 < bit_len (n div 2)" "2 ^ (bit_len (n div 2) - 1) \<le> n div 2"
      "n div 2 < 2 ^ bit_len (n div 2)" by auto
    let ?k = "bit_len (n div 2)"
    have k: "(2::nat) ^ ?k = 2 * 2 ^ (?k - 1)" using IH(1) by (simp flip: power_Suc)
    have "2 ^ ?k \<le> n" using IH(2) k by auto
    moreover have "n < 2 ^ Suc ?k" using IH(3) by auto
    ultimately show ?thesis using 1 by (simp add: bit_len.simps [of n])
  qed
qed

text \<open>
  The bucket index is the position of the highest set bit of the distance, and \<open>-1\<close> for
  the local identifier itself.
\<close>

lemma xorBucketIndex_bounds:
  assumes "length local = length remote" and "local \<noteq> remote"
  shows "0 \<le> xorBucketIndex local remote
    \<and> xorBucketIndex local remote < 8 * int (length local)
    \<and> 2 ^ nat (xorBucketIndex local remote) \<le> xor_distance local remote
    \<and> xor_distance local remote < 2 ^ Suc (nat (xorBucketIndex local remote))"
  using assms
proof (induction local remote rule: xorBucketIndex.induct)
  case (1 l ls r rs)
  then have len: "length ls = length rs" by simp
  show ?case
  proof (cases "l = r")
    case True
    with 1 show ?thesis by (auto simp: Let_def)
  next
    case False
    let ?x = "l XOR r" and ?P = "256 ^ length rs :: nat" and ?k = "Len8 (l XOR r)"
    have x0: "unat ?x \<noteq> 0" using False by (simp add: unat_eq_zero)
    have k: "0 < ?k" "2 ^ (?k - 1) \<le> unat ?x" "unat ?x < 2 ^ ?k"
      using bit_len_bounds [OF x0] by (auto simp: Len8_def)
    have P: "?P = 2 ^ (8 * length rs)" by (simp add: power_mult)
    have "(2::nat) ^ (?k - 1) < 2 ^ 8" using order_le_less_trans [OF k(2) unat_byte_less] by simp
    then have k8: "?k - 1 < 8" by (rule power_less_imp_less_exp [rotated]) simp
    have idx: "xorBucketIndex (l # ls) (r # rs) = int (8 * length rs + (?k - 1))"
      using False len k(1) by (simp add: Let_def)
    have dist: "xor_distance (l # ls) (r # rs) = unat ?x * ?P + xor_distance ls rs"
      using len by simp
    have lo: "2 ^ (8 * length rs + (?k - 1)) \<le> unat ?x * ?P"
      using k(2) by (simp add: power_add P mult.commute)
    have "unat ?x * ?P + xor_distance ls rs < (unat ?x + 1) * ?P"
      using xor_distance_less [OF len] by simp
    also have "\<dots> \<le> 2 ^ ?k * ?P" using k(3) by (intro mult_right_mono) auto
    also have "\<dots> = 2 ^ (8 * length rs + ?k)" by (simp add: power_add P)
    also have "\<dots> = 2 ^ Suc (8 * length rs + (?k - 1))" using k(1) by simp
    finally have hi: "xor_distance (l # ls) (r # rs) < 2 ^ Suc (8 * length rs + (?k - 1))"
      by (simp add: dist)
    show ?thesis
      using idx lo hi dist k8 len by (simp only: nat_int) auto
  qed
qed auto

lemma xorBucketIndex_self [simp]: "xorBucketIndex a a = -1"
  by (induction a) auto

lemma xorBucketIndex_neg:
  "length local = length remote \<Longrightarrow> xorBucketIndex local remote < 0 \<longleftrightarrow> local = remote"
  using xorBucketIndex_bounds [of local remote] by fastforce

section \<open>The invariant\<close>

definition bucket_wf :: "bytes \<Rightarrow> nat \<Rightarrow> routingNode list \<Rightarrow> bool" where
  "bucket_wf lid i bucket \<longleftrightarrow>
     length bucket \<le> kBucketSize \<and> distinct (map rn_ID bucket) \<and>
     (\<forall>n \<in> set bucket. length (rn_ID n) = 20 \<and> xorBucketIndex lid (rn_ID n) = int i
        \<and> AddrPort_IsValid (rn_Addr n) \<and> AP_Port (rn_Addr n) \<noteq> 0)"

definition rt_wf :: "RoutingTable \<Rightarrow> bool" where
  "rt_wf t \<longleftrightarrow>
     length (localID t) = 20 \<and> length (buckets t) = 160 \<and> int kBucketSize \<le> maxNodes t \<and>
     rt_size t = int (length (concat (buckets t))) \<and> rt_size t \<le> maxNodes t \<and>
     (\<forall>i < 160. bucket_wf (localID t) i (buckets t ! i))"

lemma rt_wfD:
  assumes "rt_wf t"
  shows "length (localID t) = 20" "length (buckets t) = 160" "int kBucketSize \<le> maxNodes t"
    "rt_size t = int (length (concat (buckets t)))" "rt_size t \<le> maxNodes t"
    "i < 160 \<Longrightarrow> bucket_wf (localID t) i (buckets t ! i)"
  using assms by (auto simp: rt_wf_def)

lemma bucket_wf_Nil [simp]: "bucket_wf lid i []"
  by (simp add: bucket_wf_def)

lemma Snapshot_concat: "RoutingTable_Snapshot t = concat (buckets t)"
proof -
  have "foldl (\<lambda>nodes bucket. nodes @ bucket) acc bs = acc @ concat bs"
    for acc :: "routingNode list" and bs
    by (induction bs arbitrary: acc) auto
  then show ?thesis by (simp add: RoutingTable_Snapshot_def)
qed

lemma bucket_find_Some:
  "bucket_find nid ns = Some i \<Longrightarrow> i < length ns \<and> rn_ID (ns ! i) = nid \<and> nid \<in> rn_ID ` set ns"
  by (induction ns arbitrary: i) (auto split: if_splits)

lemma bucket_find_None: "bucket_find nid ns = None \<longleftrightarrow> nid \<notin> rn_ID ` set ns"
  by (induction ns) auto

lemma bucket_refresh_eq:
  assumes "i < length bucket"
  shows "bucket_refresh bucket i nid addr seen =
    \<lparr>rn_ID = nid, rn_Addr = addr, rn_LastSeen = seen\<rparr> # take i bucket @ drop (Suc i) bucket"
proof -
  let ?b = "bucket[i := (bucket ! i)\<lparr>rn_Addr := addr, rn_LastSeen := seen\<rparr>]"
  obtain b bs where b: "?b = b # bs" using assms by (cases ?b) auto
  have "length bs = length bucket - 1" using b by (metis length_list_update length_Cons diff_Suc_1)
  then have "go_copy (take i bs) (take i ?b) = take i ?b"
    using assms by (intro go_copy_full) auto
  moreover have "take i ?b = take i bucket" "drop (Suc i) ?b = drop (Suc i) bucket"
    by auto
  ultimately show ?thesis
    by (simp add: bucket_refresh_def Let_def b del: take_update_cancel)
qed

text \<open>Replacing one bucket changes the node count by the difference of the two lengths.\<close>

lemma length_concat_update:
  assumes "i < length bs"
  shows "int (length (concat (bs[i := b]))) =
    int (length (concat bs)) - int (length (bs ! i)) + int (length b)"
proof -
  have "concat bs = concat (take i bs) @ (bs ! i) @ concat (drop (Suc i) bs)"
    using id_take_nth_drop [OF assms] by (metis concat.simps(2) concat_append)
  moreover have "concat (bs[i := b]) = concat (take i bs) @ b @ concat (drop (Suc i) bs)"
    using assms by (simp add: upd_conv_take_nth_drop)
  ultimately show ?thesis by simp
qed

lemma set_concat_nth: "set (concat bs) = (\<Union>j < length bs. set (bs ! j))"
  unfolding set_concat by (auto simp: in_set_conv_nth [of _ bs] dest: nth_mem)

lemma set_concat_update:
  assumes "i < length bs"
  shows "set (concat (bs[i := b])) = set b \<union> (\<Union>j \<in> {..<length bs} - {i}. set (bs ! j))"
  unfolding set_concat_nth using assms by (auto simp: nth_list_update split: if_splits)

lemma rt_wf_update:
  assumes "rt_wf t" and "i < 160" and "bucket_wf (localID t) i b"
    and "n = rt_size t - int (length (buckets t ! i)) + int (length b)" and "n \<le> maxNodes t"
  shows "rt_wf (t\<lparr>rt_size := n, buckets := (buckets t)[i := b]\<rparr>)"
proof -
  note wf = rt_wfD [OF assms(1)]
  have "n = int (length (concat ((buckets t)[i := b])))"
    using assms(2,4) wf by (simp add: length_concat_update)
  moreover have "bucket_wf (localID t) j ((buckets t)[i := b] ! j)" if "j < 160" for j
    using that assms(2,3) wf by (cases "j = i") auto
  ultimately show ?thesis
    using assms(5) wf by (simp add: rt_wf_def)
qed

lemma rt_wf_update_same:
  assumes "rt_wf t" and "i < 160" and "bucket_wf (localID t) i b"
    and "length b = length (buckets t ! i)"
  shows "rt_wf (t\<lparr>buckets := (buckets t)[i := b]\<rparr>)"
  using rt_wf_update [OF assms(1,2,3), of "rt_size t"] assms(4) rt_wfD(5) [OF assms(1)] by simp

text \<open>The bucket an acceptable identifier goes to.\<close>

lemma bucket_index_ok:
  assumes "rt_wf t" and "length nid = 20" and "\<not> xorBucketIndex (localID t) nid < 0"
  shows "nat (xorBucketIndex (localID t) nid) < 160"
    and "int (nat (xorBucketIndex (localID t) nid)) = xorBucketIndex (localID t) nid"
  using xorBucketIndex_bounds [of "localID t" nid] xorBucketIndex_neg [of "localID t" nid] assms
    rt_wfD(1) [OF assms(1)] by auto

lemma NewRoutingTable_wf [inv_keep]: "rt_wf (NewRoutingTable lid mx)"
  by (auto simp: NewRoutingTable_def rt_wf_def Let_def kBucketSize_def)

text \<open>
  The three ways \<open>Add\<close> changes the table, as facts about the bucket \<open>b\<close> of the identifier:
  the node is refreshed, it replaces the last node of a full bucket, or it is put in
  front. Every lemma about \<open>Add\<close> below goes through this case analysis.
\<close>

lemma Add_cases:
  assumes wf: "rt_wf t" and add: "RoutingTable_Add t nid addr seen = (r, t')"
  obtains (rejected) "\<not> r" "t' = t"
      "length nid \<noteq> 20 \<or> \<not> AddrPort_IsValid addr \<or> AP_Port addr = 0 \<or> nid = localID t
       \<or> (nid \<notin> rn_ID ` set (RoutingTable_Snapshot t) \<and> maxNodes t \<le> rt_size t
          \<and> length (buckets t ! nat (xorBucketIndex (localID t) nid)) < kBucketSize)"
  | (stored) i b where "i < 160" "int i = xorBucketIndex (localID t) nid" "length nid = 20"
      "AddrPort_IsValid addr" "AP_Port addr \<noteq> 0" "b = buckets t ! i" "nid \<noteq> localID t"
      "(\<not> r \<and> nid \<in> rn_ID ` set b
          \<and> (\<exists>j < length b. rn_ID (b ! j) = nid
              \<and> t' = t\<lparr>buckets := (buckets t)[i := \<lparr>rn_ID = nid, rn_Addr = addr, rn_LastSeen = seen\<rparr>
                         # take j b @ drop (Suc j) b]\<rparr>))
       \<or> (r \<and> nid \<notin> rn_ID ` set b \<and> length b = kBucketSize
          \<and> t' = t\<lparr>buckets := (buckets t)[i := \<lparr>rn_ID = nid, rn_Addr = addr, rn_LastSeen = seen\<rparr>
                         # butlast b]\<rparr>)
       \<or> (r \<and> nid \<notin> rn_ID ` set b \<and> length b < kBucketSize \<and> rt_size t < maxNodes t
          \<and> t' = t\<lparr>rt_size := rt_size t + 1,
                   buckets := (buckets t)[i := \<lparr>rn_ID = nid, rn_Addr = addr, rn_LastSeen = seen\<rparr> # b]\<rparr>)"
proof (cases "length nid \<noteq> 20 \<or> \<not> AddrPort_IsValid addr \<or> AP_Port addr = 0
    \<or> xorBucketIndex (localID t) nid < 0")
  case True
  then show ?thesis
    using add rejected xorBucketIndex_neg [of "localID t" nid] rt_wfD(1) [OF wf]
    by (auto simp: RoutingTable_Add_def Let_def split: if_splits)
next
  case False
  let ?i = "nat (xorBucketIndex (localID t) nid)"
  let ?b = "buckets t ! ?i"
  have len: "length nid = 20" and idx: "\<not> xorBucketIndex (localID t) nid < 0" using False by auto
  have copy: "go_copy (replicate 20 0) nid = nid" using len by simp
  note i = bucket_index_ok [OF wf len idx]
  have bwf: "bucket_wf (localID t) ?i ?b" using rt_wfD(6) [OF wf i(1)] .
  have nl: "nid \<noteq> localID t" using idx xorBucketIndex_neg [of "localID t" nid] len rt_wfD(1) [OF wf] by auto
  note goal = stored [of ?i ?b, OF i len _ _ refl nl]
  show ?thesis
  proof (cases "bucket_find nid ?b")
    case (Some j)
    note bucket_find_Some [OF Some]
    with add False len idx copy Some show ?thesis
      by (intro goal) (auto simp: RoutingTable_Add_def Let_def bucket_refresh_eq intro!: exI [of _ j])
  next
    case None
    then have fresh: "nid \<notin> rn_ID ` set ?b" by (simp add: bucket_find_None)
    have elsewhere: "nid \<notin> rn_ID ` set (RoutingTable_Snapshot t)"
    proof
      assume "nid \<in> rn_ID ` set (RoutingTable_Snapshot t)"
      then obtain j n where j: "j < 160" "n \<in> set (buckets t ! j)" "rn_ID n = nid"
        using rt_wfD(2) [OF wf] by (auto simp: Snapshot_concat in_set_conv_nth [of _ "buckets t"])
      then have "xorBucketIndex (localID t) nid = int j"
        using rt_wfD(6) [OF wf j(1)] by (auto simp: bucket_wf_def)
      with j fresh show False by auto
    qed
    consider (full) "kBucketSize \<le> length ?b" | (max) "length ?b < kBucketSize" "maxNodes t \<le> rt_size t"
      | (room) "length ?b < kBucketSize" "rt_size t < maxNodes t" by linarith
    then show ?thesis
    proof cases
      case full
      then have "length ?b = kBucketSize" using bwf by (simp add: bucket_wf_def)
      moreover from this have "take (kBucketSize - 1) ?b = butlast ?b" by (simp add: butlast_conv_take)
      ultimately show ?thesis using add False len idx copy None fresh
        by (intro goal) (auto simp: RoutingTable_Add_def Let_def)
    next
      case max
      then show ?thesis using add False len idx copy None elsewhere
        by (intro rejected) (auto simp: RoutingTable_Add_def Let_def)
    next
      case room
      then show ?thesis using add False len idx copy None fresh
        by (intro goal) (auto simp: RoutingTable_Add_def Let_def)
    qed
  qed
qed

section \<open>Add\<close>

lemma bucket_wf_move:
  assumes "bucket_wf lid i b" and "j < length b" and "rn_ID n = rn_ID (b ! j)"
    and "AddrPort_IsValid (rn_Addr n)" and "AP_Port (rn_Addr n) \<noteq> 0"
  shows "bucket_wf lid i (n # take j b @ drop (Suc j) b)"
proof -
  obtain xs y ys where b: "b = xs @ y # ys" "length xs = j"
    using id_take_nth_drop [OF assms(2)] assms(2) by (metis length_take min.absorb4)
  then show ?thesis
    using assms by (auto simp: bucket_wf_def)
qed

lemma Add_wf [inv_keep]:
  assumes "rt_wf t" and "RoutingTable_Add t nid addr seen = (r, t')"
  shows "rt_wf t'"
  using assms
proof (cases rule: Add_cases)
  case rejected
  with assms show ?thesis by simp
next
  case (stored i b)
  let ?n = "\<lparr>rn_ID = nid, rn_Addr = addr, rn_LastSeen = seen\<rparr>"
  have b: "bucket_wf (localID t) i b" using rt_wfD(6) [OF assms(1) stored(1)] stored(6) by simp
  from stored(8) show ?thesis
  proof (elim disjE exE conjE)
    fix j assume j: "j < length b" "rn_ID (b ! j) = nid"
      and t': "t' = t\<lparr>buckets := (buckets t)[i := ?n # take j b @ drop (Suc j) b]\<rparr>"
    have "bucket_wf (localID t) i (?n # take j b @ drop (Suc j) b)"
      using bucket_wf_move [OF b j(1), of ?n] j(2) stored(4,5) by simp
    then show ?thesis
      using rt_wf_update_same [OF assms(1) stored(1)] j(1) stored(6) t' by simp
  next
    assume fresh: "nid \<notin> rn_ID ` set b" and full: "length b = kBucketSize"
      and t': "t' = t\<lparr>buckets := (buckets t)[i := ?n # butlast b]\<rparr>"
    have "distinct (map rn_ID (butlast b))" "set (butlast b) \<subseteq> set b"
      using b by (auto simp: bucket_wf_def map_butlast distinct_butlast dest: in_set_butlastD)
    then have "bucket_wf (localID t) i (?n # butlast b)"
      using b stored(2-5) fresh full by (auto simp: bucket_wf_def kBucketSize_def)
    then show ?thesis
      using rt_wf_update_same [OF assms(1) stored(1)] full stored(6) t' by (simp add: kBucketSize_def)
  next
    assume fresh: "nid \<notin> rn_ID ` set b" and room: "length b < kBucketSize" "rt_size t < maxNodes t"
      and t': "t' = t\<lparr>rt_size := rt_size t + 1, buckets := (buckets t)[i := ?n # b]\<rparr>"
    have "bucket_wf (localID t) i (?n # b)"
      using b stored(2-5) fresh room by (auto simp: bucket_wf_def)
    then show ?thesis
      using rt_wf_update [OF assms(1) stored(1), of "?n # b" "rt_size t + 1"] room stored(6) t' by simp
  qed
qed

lemma Add_frame:
  assumes "rt_wf t" and "RoutingTable_Add t nid addr seen = (r, t')"
  shows "localID t' = localID t" "maxNodes t' = maxNodes t"
  using assms by (cases rule: Add_cases; auto)+

section \<open>Identifiers are unique\<close>

lemma snapshot_bucket:
  assumes "rt_wf t" and "n \<in> set (RoutingTable_Snapshot t)"
  obtains i where "i < 160" "n \<in> set (buckets t ! i)" "xorBucketIndex (localID t) (rn_ID n) = int i"
proof -
  obtain i where "i < 160" "n \<in> set (buckets t ! i)"
    using assms rt_wfD(2) [OF assms(1)] by (auto simp: Snapshot_concat set_concat_nth simp del: set_concat)
  moreover from this have "xorBucketIndex (localID t) (rn_ID n) = int i"
    using rt_wfD(6) [OF assms(1)] by (auto simp: bucket_wf_def)
  ultimately show ?thesis using that by blast
qed

lemma distinct_concat_disjoint:
  assumes "\<And>i. i < length bs \<Longrightarrow> distinct (map f (bs ! i))"
    and "\<And>i j x y. i < length bs \<Longrightarrow> j < length bs \<Longrightarrow> i \<noteq> j \<Longrightarrow> x \<in> set (bs ! i)
           \<Longrightarrow> y \<in> set (bs ! j) \<Longrightarrow> f x \<noteq> f y"
  shows "distinct (map f (concat bs))"
  using assms
proof (induction bs)
  case Nil
  then show ?case by simp
next
  case (Cons b bs)
  have "distinct (map f (concat bs))"
  proof (rule Cons.IH)
    fix i assume "i < length bs"
    then show "distinct (map f (bs ! i))" using Cons.prems(1) [of "Suc i"] by simp
  next
    fix i j x y assume "i < length bs" "j < length bs" "i \<noteq> j" "x \<in> set (bs ! i)" "y \<in> set (bs ! j)"
    then show "f x \<noteq> f y" using Cons.prems(2) [of "Suc i" "Suc j" x y] by simp
  qed
  moreover have "distinct (map f b)" using Cons.prems(1) [of 0] by simp
  moreover have "f x \<noteq> f y" if "x \<in> set b" "y \<in> set (concat bs)" for x y
  proof -
    obtain j where "j < length bs" "y \<in> set (bs ! j)"
      using \<open>y \<in> set (concat bs)\<close> unfolding set_concat_nth by blast
    then show ?thesis using Cons.prems(2) [of 0 "Suc j" x y] \<open>x \<in> set b\<close> by simp
  qed
  ultimately show ?case by (auto simp: distinct_map)
qed

lemma distinct_snapshot:
  assumes "rt_wf t"
  shows "distinct (map rn_ID (RoutingTable_Snapshot t))"
  unfolding Snapshot_concat
proof (rule distinct_concat_disjoint)
  fix i assume "i < length (buckets t)"
  then show "distinct (map rn_ID (buckets t ! i))"
    using rt_wfD(2,6) [OF assms] by (simp add: bucket_wf_def)
next
  fix i j x y
  assume "i < length (buckets t)" "j < length (buckets t)" "i \<noteq> j"
    and "x \<in> set (buckets t ! i)" "y \<in> set (buckets t ! j)"
  then show "rn_ID x \<noteq> rn_ID y"
    using rt_wfD(2,6) [OF assms] unfolding bucket_wf_def by (metis of_nat_eq_iff)
qed

lemma snapshot_node:
  assumes "rt_wf t" and "n \<in> set (RoutingTable_Snapshot t)"
  shows "length (rn_ID n) = 20" "rn_ID n \<noteq> localID t"
    "AddrPort_IsValid (rn_Addr n)" "AP_Port (rn_Addr n) \<noteq> 0"
proof -
  obtain i where i: "i < 160" "n \<in> set (buckets t ! i)" "xorBucketIndex (localID t) (rn_ID n) = int i"
    using snapshot_bucket [OF assms] .
  then show "length (rn_ID n) = 20" "AddrPort_IsValid (rn_Addr n)" "AP_Port (rn_Addr n) \<noteq> 0"
    using rt_wfD(6) [OF assms(1) i(1)] by (auto simp: bucket_wf_def)
  show "rn_ID n \<noteq> localID t" using i(3) by (metis xorBucketIndex_self of_nat_less_0_iff neg_less_0_iff_less zero_less_one)
qed

section \<open>Refinement to a finite map\<close>

text \<open>
  What a client of the table sees: for each known identifier its address and the instant
  it was last seen.
\<close>

definition rt_abs :: "RoutingTable \<Rightarrow> bytes \<rightharpoonup> (AddrPort \<times> instant)" where
  "rt_abs t = map_of (map (\<lambda>n. (rn_ID n, rn_Addr n, rn_LastSeen n)) (RoutingTable_Snapshot t))"

lemma rt_abs_Some:
  assumes "rt_wf t"
  shows "rt_abs t k = Some (a, s) \<longleftrightarrow>
    \<lparr>rn_ID = k, rn_Addr = a, rn_LastSeen = s\<rparr> \<in> set (RoutingTable_Snapshot t)"
proof -
  have "distinct (map fst (map (\<lambda>n. (rn_ID n, rn_Addr n, rn_LastSeen n)) (RoutingTable_Snapshot t)))"
    using distinct_snapshot [OF assms] by (simp add: comp_def)
  then have "rt_abs t k = Some (a, s) \<longleftrightarrow>
      (\<exists>n \<in> set (RoutingTable_Snapshot t). rn_ID n = k \<and> rn_Addr n = a \<and> rn_LastSeen n = s)"
    unfolding rt_abs_def by (subst map_of_eq_Some_iff) auto
  also have "\<dots> \<longleftrightarrow> \<lparr>rn_ID = k, rn_Addr = a, rn_LastSeen = s\<rparr> \<in> set (RoutingTable_Snapshot t)"
    by (metis (full_types) routingNode.select_convs routingNode.surjective old.unit.exhaust)
  finally show ?thesis .
qed

lemma dom_rt_abs: "dom (rt_abs t) = rn_ID ` set (RoutingTable_Snapshot t)"
  by (simp add: rt_abs_def dom_map_of_conv_image_fst image_image)

lemma card_dom_rt_abs:
  assumes "rt_wf t"
  shows "int (card (dom (rt_abs t))) = RoutingTable_Len t"
proof -
  have "card (dom (rt_abs t)) = length (RoutingTable_Snapshot t)"
    using distinct_card [OF distinct_snapshot [OF assms]] by (simp add: dom_rt_abs)
  then show ?thesis
    using rt_wfD(4) [OF assms] by (simp add: RoutingTable_Len_def Snapshot_concat)
qed

lemma map_eqI: "(\<And>k v. m k = Some v \<longleftrightarrow> m' k = Some v) \<Longrightarrow> m = m'"
  by (rule ext) (metis not_Some_eq)

text \<open>The nodes outside one bucket.\<close>

definition rest :: "RoutingTable \<Rightarrow> nat \<Rightarrow> routingNode set" where
  "rest t i = (\<Union>j \<in> {..<160} - {i}. set (buckets t ! j))"

lemma snapshot_split:
  assumes "rt_wf t" and "i < 160"
  shows "set (RoutingTable_Snapshot t) = set (buckets t ! i) \<union> rest t i"
    and "buckets t' = (buckets t)[i := b] \<Longrightarrow> set (RoutingTable_Snapshot t') = set b \<union> rest t i"
    and "n \<in> rest t i \<Longrightarrow> xorBucketIndex (localID t) (rn_ID n) \<noteq> int i"
proof -
  note len = rt_wfD(2) [OF assms(1)]
  show "set (RoutingTable_Snapshot t) = set (buckets t ! i) \<union> rest t i"
    unfolding Snapshot_concat set_concat_nth rest_def using assms(2) len by auto
  show "set (RoutingTable_Snapshot t') = set b \<union> rest t i" if "buckets t' = (buckets t)[i := b]"
    unfolding Snapshot_concat rest_def that using assms(2) len
    by (simp only: set_concat_update)
  show "xorBucketIndex (localID t) (rn_ID n) \<noteq> int i" if "n \<in> rest t i"
    using that rt_wfD(6) [OF assms(1)] by (fastforce simp: rest_def bucket_wf_def)
qed

lemma set_move_front:
  assumes "distinct (map rn_ID b)" and "j < length b"
  shows "set (take j b) \<union> set (drop (Suc j) b) = {n \<in> set b. rn_ID n \<noteq> rn_ID (b ! j)}"
proof -
  obtain xs y ys where b: "b = xs @ y # ys" "length xs = j"
    using id_take_nth_drop [OF assms(2)] assms(2) by (metis length_take min.absorb4)
  then show ?thesis
    using assms(1) by auto (metis image_eqI)+
qed

text \<open>
  What the three updates of \<open>Add\<close> do to the stored nodes: a known identifier is
  overwritten; a new one is added, at the price of the last node of a full bucket.
\<close>

lemma nodes_refresh:
  assumes "rt_wf t" and "i < 160" and "j < length (buckets t ! i)" and "rn_ID (buckets t ! i ! j) = nid"
    and "buckets t' = (buckets t)[i := n # take j (buckets t ! i) @ drop (Suc j) (buckets t ! i)]"
    and "int i = xorBucketIndex (localID t) nid"
  shows "set (RoutingTable_Snapshot t') = insert n {m \<in> set (RoutingTable_Snapshot t). rn_ID m \<noteq> nid}"
proof -
  note split = snapshot_split [OF assms(1,2)]
  have "rn_ID m \<noteq> nid" if "m \<in> rest t i" for m using split(3) [OF that] assms(6) by auto
  moreover have "set (take j (buckets t ! i)) \<union> set (drop (Suc j) (buckets t ! i))
      = {m \<in> set (buckets t ! i). rn_ID m \<noteq> nid}"
    using set_move_front [OF _ assms(3)] rt_wfD(6) [OF assms(1,2)] assms(4)
    by (simp add: bucket_wf_def)
  ultimately show ?thesis
    using split(2) [OF assms(5)] split(1) by auto
qed

lemma nodes_evict:
  assumes "rt_wf t" and "i < 160" and "length (buckets t ! i) = kBucketSize"
    and "buckets t' = (buckets t)[i := n # butlast (buckets t ! i)]"
  shows "set (RoutingTable_Snapshot t') = insert n (set (RoutingTable_Snapshot t) - {last (buckets t ! i)})"
    and "last (buckets t ! i) \<in> set (RoutingTable_Snapshot t)"
proof -
  let ?b = "buckets t ! i"
  note split = snapshot_split [OF assms(1,2)]
  have wf: "bucket_wf (localID t) i ?b" using rt_wfD(6) [OF assms(1,2)] .
  have ne: "?b \<noteq> []" using assms(3) by (auto simp: kBucketSize_def)
  have "distinct (butlast ?b @ [last ?b])"
    using wf ne by (simp add: bucket_wf_def distinct_map)
  then have "set (butlast ?b) = set (butlast ?b @ [last ?b]) - {last ?b}" by auto
  then have "set (butlast ?b) = set ?b - {last ?b}" using ne by simp
  moreover have "last ?b \<notin> rest t i"
    using split(3) wf last_in_set [OF ne] by (auto simp: bucket_wf_def)
  ultimately show "set (RoutingTable_Snapshot t') = insert n (set (RoutingTable_Snapshot t) - {last ?b})"
    using split(2) [OF assms(4)] split(1) by auto
  show "last ?b \<in> set (RoutingTable_Snapshot t)" using split(1) ne by simp
qed

lemma nodes_insert:
  assumes "rt_wf t" and "i < 160" and "buckets t' = (buckets t)[i := n # (buckets t ! i)]"
  shows "set (RoutingTable_Snapshot t') = insert n (set (RoutingTable_Snapshot t))"
  using snapshot_split(1) [OF assms(1,2)] snapshot_split(2) [OF assms] by auto

text \<open>
  The specification of \<open>Add\<close> on the map: a known identifier is updated, a new one is
  stored, and the identifier \<open>victim\<close> names (the last node of a full bucket) makes room.
\<close>

definition add_spec ::
  "bytes \<Rightarrow> bytes option \<Rightarrow> bool \<Rightarrow> (bytes \<rightharpoonup> AddrPort \<times> instant) \<Rightarrow> bytes \<Rightarrow> AddrPort \<Rightarrow> instant
    \<Rightarrow> bool \<times> (bytes \<rightharpoonup> AddrPort \<times> instant)" where
  "add_spec lid victim at_max m k a s =
     (if length k \<noteq> 20 \<or> \<not> AddrPort_IsValid a \<or> AP_Port a = 0 \<or> k = lid then (False, m)
      else if k \<in> dom m then (False, m(k \<mapsto> (a, s)))
      else case victim of
             Some v \<Rightarrow> (True, m(v := None, k \<mapsto> (a, s)))
           | None \<Rightarrow> if at_max then (False, m) else (True, m(k \<mapsto> (a, s))))"

definition rt_victim :: "RoutingTable \<Rightarrow> bytes \<Rightarrow> bytes option" where
  "rt_victim t k =
     (let b = buckets t ! nat (xorBucketIndex (localID t) k)
      in if length b = kBucketSize then Some (rn_ID (last b)) else None)"

lemma rt_abs_insert:
  assumes "rt_wf t" and "rt_wf t'"
    and "set (RoutingTable_Snapshot t') = insert \<lparr>rn_ID = k, rn_Addr = a, rn_LastSeen = s\<rparr>
           {m \<in> set (RoutingTable_Snapshot t). rn_ID m \<noteq> k \<and> rn_ID m \<notin> V}"
  shows "rt_abs t' = (\<lambda>q. if q = k then Some (a, s) else if q \<in> V then None else rt_abs t q)"
proof (rule map_eqI)
  fix q and v :: "AddrPort \<times> instant"
  obtain a' s' where v: "v = (a', s')" by (cases v)
  show "rt_abs t' q = Some v \<longleftrightarrow>
      (if q = k then Some (a, s) else if q \<in> V then None else rt_abs t q) = Some v"
    using assms by (cases "q = k"; cases "q \<in> V") (auto simp: v rt_abs_Some)
qed

lemma same_id:
  assumes "rt_wf t" and "m \<in> set (RoutingTable_Snapshot t)" and "n \<in> set (RoutingTable_Snapshot t)"
  shows "rn_ID m = rn_ID n \<longleftrightarrow> m = n"
  using distinct_snapshot [OF assms(1)] assms(2,3) by (auto simp: distinct_map inj_on_def)

lemma Add_refines_aux:
  assumes wf: "rt_wf t" and add: "RoutingTable_Add t k a s = (r, t')"
  shows "(r, rt_abs t') = add_spec (localID t) (rt_victim t k) (maxNodes t \<le> rt_size t) (rt_abs t) k a s"
  using assms
proof (cases rule: Add_cases)
  case rejected
  then show ?thesis
    by (auto simp: add_spec_def rt_victim_def Let_def dom_rt_abs)
next
  case (stored i b)
  let ?n = "\<lparr>rn_ID = k, rn_Addr = a, rn_LastSeen = s\<rparr>" and ?S = "set (RoutingTable_Snapshot t)"
  have i: "nat (xorBucketIndex (localID t) k) = i" using stored(2) by simp
  have wf': "rt_wf t'" using Add_wf [OF assms] .
  have sub: "set b \<subseteq> ?S" using snapshot_split(1) [OF wf stored(1)] stored(6) by auto
  have ids: "k \<in> rn_ID ` ?S \<longleftrightarrow> k \<in> rn_ID ` set b"
    using snapshot_split(1,3) [OF wf stored(1)] stored(2,6) by auto
  note ok = stored(3,4,5,7)
  from stored(8) show ?thesis
  proof (elim disjE exE conjE)
    fix j assume r: "\<not> r" "k \<in> rn_ID ` set b" and j: "j < length b" "rn_ID (b ! j) = k"
      and t': "t' = t\<lparr>buckets := (buckets t)[i := ?n # take j b @ drop (Suc j) b]\<rparr>"
    have "set (RoutingTable_Snapshot t') = insert ?n {m \<in> ?S. rn_ID m \<noteq> k \<and> rn_ID m \<notin> {}}"
      using nodes_refresh [OF wf stored(1), of j k t' ?n] j stored(2,6) t' by simp
    then have "rt_abs t' = (rt_abs t)(k \<mapsto> (a, s))"
      using rt_abs_insert [OF wf wf', of k a s "{}"] by (simp add: fun_eq_iff)
    then show ?thesis using r ok ids by (simp add: add_spec_def dom_rt_abs)
  next
    assume r: "r" "k \<notin> rn_ID ` set b" and full: "length b = kBucketSize"
      and t': "t' = t\<lparr>buckets := (buckets t)[i := ?n # butlast b]\<rparr>"
    let ?v = "rn_ID (last b)"
    note ev = nodes_evict [OF wf stored(1), of t' ?n]
    have "last b \<in> ?S" using ev(2) full t' stored(6) by simp
    then have "?S - {last b} = {m \<in> ?S. rn_ID m \<noteq> k \<and> rn_ID m \<notin> {?v}}"
      using same_id [OF wf] r ids by auto
    then have "rt_abs t' = (rt_abs t)(?v := None, k \<mapsto> (a, s))"
      using rt_abs_insert [OF wf wf', of k a s "{?v}"] ev(1) full t' stored(6)
      by (simp add: fun_eq_iff)
    then show ?thesis using r ok ids full i stored(6)
      by (simp add: add_spec_def dom_rt_abs rt_victim_def Let_def)
  next
    assume r: "r" "k \<notin> rn_ID ` set b" and room: "length b < kBucketSize" "rt_size t < maxNodes t"
      and t': "t' = t\<lparr>rt_size := rt_size t + 1, buckets := (buckets t)[i := ?n # b]\<rparr>"
    have "?S = {m \<in> ?S. rn_ID m \<noteq> k \<and> rn_ID m \<notin> {}}" using r ids by auto
    then have "rt_abs t' = (rt_abs t)(k \<mapsto> (a, s))"
      using rt_abs_insert [OF wf wf', of k a s "{}"] nodes_insert [OF wf stored(1), of t' ?n] t' stored(6)
      by (simp add: fun_eq_iff)
    then show ?thesis using r ok ids room i stored(6)
      by (simp add: add_spec_def dom_rt_abs rt_victim_def Let_def)
  qed
qed

section \<open>Prune\<close>

lemma prune_bucket_eq:
  "prune_bucket before b n =
    (filter (\<lambda>x. before < rn_LastSeen x) b,
     n - (int (length b) - int (length (filter (\<lambda>x. before < rn_LastSeen x) b))))"
  by (induction b arbitrary: n) auto

lemma prune_buckets_eq:
  "prune_buckets before bs n =
    (map (filter (\<lambda>x. before < rn_LastSeen x)) bs,
     n - (int (length (concat bs)) - int (length (filter (\<lambda>x. before < rn_LastSeen x) (concat bs)))))"
  by (induction bs arbitrary: n) (auto simp: prune_bucket_eq)

lemma concat_map_filter: "concat (map (filter P) bs) = filter P (concat bs)"
  by (induction bs) auto

lemma Prune_eq:
  assumes "rt_wf t"
  shows "RoutingTable_Prune t before =
    t\<lparr>buckets := map (filter (\<lambda>x. before < rn_LastSeen x)) (buckets t),
      rt_size := int (length (filter (\<lambda>x. before < rn_LastSeen x) (RoutingTable_Snapshot t)))\<rparr>"
  using rt_wfD(4) [OF assms] by (simp add: RoutingTable_Prune_def prune_buckets_eq Snapshot_concat)

lemma bucket_wf_filter: "bucket_wf lid i b \<Longrightarrow> bucket_wf lid i (filter P b)"
  unfolding bucket_wf_def
  by (auto intro: distinct_map_filter order_trans [OF length_filter_le])

lemma Prune_wf [inv_keep]:
  assumes "rt_wf t"
  shows "rt_wf (RoutingTable_Prune t before)"
proof -
  note wf = rt_wfD [OF assms]
  have "int (length (filter (\<lambda>x. before < rn_LastSeen x) (concat (buckets t)))) \<le> maxNodes t"
    using wf(4,5) length_filter_le [of "\<lambda>x. before < rn_LastSeen x" "concat (buckets t)"] by linarith
  moreover have "bucket_wf (localID t) i (map (filter (\<lambda>x. before < rn_LastSeen x)) (buckets t) ! i)"
    if "i < 160" for i
    using that wf(2) wf(6) [OF that] by (simp add: bucket_wf_filter)
  ultimately show ?thesis
    using wf by (simp add: Prune_eq [OF assms] rt_wf_def Snapshot_concat concat_map_filter)
qed

lemma Prune_nodes:
  assumes "rt_wf t"
  shows "RoutingTable_Snapshot (RoutingTable_Prune t before) =
    filter (\<lambda>x. before < rn_LastSeen x) (RoutingTable_Snapshot t)"
  by (simp add: Prune_eq [OF assms] Snapshot_concat concat_map_filter)

section \<open>Every sequence of operations\<close>

datatype rt_event = EvAdd bytes AddrPort instant | EvPrune instant

fun rt_step :: "RoutingTable \<Rightarrow> rt_event \<Rightarrow> RoutingTable" where
  "rt_step t (EvAdd nid addr seen) = snd (RoutingTable_Add t nid addr seen)"
| "rt_step t (EvPrune before) = RoutingTable_Prune t before"

interpretation table: step_system rt_step rt_wf
proof
  fix t e assume "rt_wf t"
  then show "rt_wf (rt_step t e)"
    by (cases e) (auto intro: Add_wf [OF _ prod.collapse [symmetric]] Prune_wf)
qed

section \<open>Closest\<close>

interpretation xor_order: strict_order_on "\<lambda>x y. xorLess x y target" "{x. length x = length target}"
  for target
proof
  fix x y z :: bytes
  assume "x \<in> {x. length x = length target}"
  then show "\<not> xorLess x x target" by (simp add: xorLess_distance)
next
  fix x y z :: bytes
  assume "x \<in> {x. length x = length target}" "y \<in> {x. length x = length target}"
    "z \<in> {x. length x = length target}" "xorLess x y target" "xorLess y z target"
  then show "xorLess x z target" by (simp add: xorLess_distance)
next
  fix x y :: bytes
  assume "x \<in> {x. length x = length target}" "y \<in> {x. length x = length target}" "x \<noteq> y"
  then show "xorLess x y target \<or> xorLess y x target"
    by (simp add: xorLess_distance) (metis xor_distance_inject linorder_neqE_nat)
qed

lemma Closest_eq_take:
  "RoutingTable_Closest t target limit =
    take limit (sort_slice (\<lambda>x y. xorLess (rn_ID x) (rn_ID y) (go_copy (replicate 20 0) target))
      (RoutingTable_Snapshot t))"
  by (simp add: RoutingTable_Closest_def Let_def)

lemma snapshot_ids:
  assumes "rt_wf t"
  shows "rn_ID ` set (RoutingTable_Snapshot t) \<subseteq> {x. length x = length (go_copy (replicate 20 0) target)}"
  using snapshot_node(1) [OF assms] by auto

lemma length_Closest:
  "rt_wf t \<Longrightarrow> length (RoutingTable_Closest t target limit) = min limit (nat (RoutingTable_Len t))"
  by (simp add: Closest_eq_take RoutingTable_Len_def rt_wfD(4) Snapshot_concat)

lemma set_Closest: "set (RoutingTable_Closest t target limit) \<subseteq> set (RoutingTable_Snapshot t)"
  unfolding Closest_eq_take by (metis set_take_subset set_sort_slice)

section \<open>The interface the indexing service relies on\<close>

text \<open>
  What a client may assume of a node table: adding keeps the table well-formed and brings
  in no address but the one added, pruning brings in none, and \<open>closest\<close> answers with at
  most the given number of stored nodes. A property of addresses that every added address
  has is then a property of every stored and every answered one.
\<close>

locale node_table =
  fixes add :: "'t \<Rightarrow> bytes \<Rightarrow> AddrPort \<Rightarrow> instant \<Rightarrow> bool \<times> 't"
    and prune :: "'t \<Rightarrow> instant \<Rightarrow> 't"
    and nodes :: "'t \<Rightarrow> routingNode list"
    and closest :: "'t \<Rightarrow> bytes \<Rightarrow> nat \<Rightarrow> routingNode list"
    and wf :: "'t \<Rightarrow> bool"
  assumes add_wf: "wf t \<Longrightarrow> wf (snd (add t nid a seen))"
    and prune_wf: "wf t \<Longrightarrow> wf (prune t before)"
    and add_nodes: "wf t \<Longrightarrow> n \<in> set (nodes (snd (add t nid a seen)))
      \<Longrightarrow> n \<in> set (nodes t) \<or> (rn_ID n = nid \<and> rn_Addr n = a \<and> rn_LastSeen n = seen)"
    and prune_nodes: "wf t \<Longrightarrow> set (nodes (prune t before)) \<subseteq> set (nodes t)"
    and closest_nodes: "wf t \<Longrightarrow> set (closest t target k) \<subseteq> set (nodes t)"
    and closest_limit: "wf t \<Longrightarrow> length (closest t target k) \<le> k"
begin

definition all_addrs :: "(AddrPort \<Rightarrow> bool) \<Rightarrow> 't \<Rightarrow> bool" where
  "all_addrs P t \<longleftrightarrow> (\<forall>n \<in> set (nodes t). P (rn_Addr n))"

lemma all_addrs_add:
  "wf t \<Longrightarrow> all_addrs P t \<Longrightarrow> P a \<Longrightarrow> all_addrs P (snd (add t nid a seen))"
  using add_nodes unfolding all_addrs_def by blast

lemma all_addrs_prune: "wf t \<Longrightarrow> all_addrs P t \<Longrightarrow> all_addrs P (prune t before)"
  using prune_nodes unfolding all_addrs_def by blast

lemma all_addrs_closest: "wf t \<Longrightarrow> all_addrs P t \<Longrightarrow> n \<in> set (closest t target k) \<Longrightarrow> P (rn_Addr n)"
  using closest_nodes unfolding all_addrs_def by blast

end

lemma Add_nodes:
  assumes "rt_wf t" and "RoutingTable_Add t nid addr seen = (r, t')"
    and "n \<in> set (RoutingTable_Snapshot t')"
  shows "n \<in> set (RoutingTable_Snapshot t) \<or> n = \<lparr>rn_ID = nid, rn_Addr = addr, rn_LastSeen = seen\<rparr>"
  using assms(1,2)
proof (cases rule: Add_cases)
  case rejected
  then show ?thesis using assms(3) by simp
next
  case (stored i b)
  then show ?thesis
    using assms(3) nodes_refresh [OF assms(1) stored(1), of _ nid t'] nodes_evict [OF assms(1) stored(1), of t']
      nodes_insert [OF assms(1) stored(1), of t']
    by auto
qed

interpretation rt: node_table RoutingTable_Add RoutingTable_Prune RoutingTable_Snapshot
  RoutingTable_Closest rt_wf
proof
  fix t nid a seen n
  assume wf: "rt_wf t"
  show "rt_wf (snd (RoutingTable_Add t nid a seen))"
    using Add_wf [OF wf prod.collapse [symmetric]] by blast
  assume "n \<in> set (RoutingTable_Snapshot (snd (RoutingTable_Add t nid a seen)))"
  then show "n \<in> set (RoutingTable_Snapshot t) \<or> (rn_ID n = nid \<and> rn_Addr n = a \<and> rn_LastSeen n = seen)"
    using Add_nodes [OF wf prod.collapse [symmetric]] by fastforce
qed (auto simp: Prune_nodes length_Closest intro: Prune_wf dest: subsetD [OF set_Closest])

section \<open>Recency\<close>

text \<open>
  Buckets are kept in the order of their last \<open>Add\<close>, most recent first; when the
  instants handed to \<open>Add\<close> never go back this is the order of \<open>LastSeen\<close>.
\<close>

definition rt_recent :: "instant \<Rightarrow> RoutingTable \<Rightarrow> bool" where
  "rt_recent now t \<longleftrightarrow>
     (\<forall>b \<in> set (buckets t). sorted_wrt (\<lambda>x y. rn_LastSeen y \<le> rn_LastSeen x) b
        \<and> (\<forall>n \<in> set b. rn_LastSeen n \<le> now))"

lemma rt_recent_update:
  assumes "rt_recent now t" and "now \<le> seen" and "rn_LastSeen n = seen"
    and "sorted_wrt (\<lambda>x y. rn_LastSeen y \<le> rn_LastSeen x) b" and "\<forall>n \<in> set b. rn_LastSeen n \<le> now"
    and "buckets t' = (buckets t)[i := n # b]"
  shows "rt_recent seen t'"
  unfolding rt_recent_def
proof
  fix c assume "c \<in> set (buckets t')"
  then consider "c = n # b" | "c \<in> set (buckets t)"
    using assms(6) by (metis insertE set_update_subset_insert subsetD)
  then show "sorted_wrt (\<lambda>x y. rn_LastSeen y \<le> rn_LastSeen x) c \<and> (\<forall>n \<in> set c. rn_LastSeen n \<le> seen)"
    using assms(1-5) by cases (fastforce simp: rt_recent_def)+
qed

lemma Add_recent:
  assumes "rt_wf t" and "RoutingTable_Add t nid addr seen = (r, t')"
    and "rt_recent now t" and "now \<le> seen"
  shows "rt_recent seen t'"
  using assms(1,2)
proof (cases rule: Add_cases)
  case rejected
  with assms(3,4) show ?thesis by (fastforce simp: rt_recent_def)
next
  case (stored i b)
  let ?n = "\<lparr>rn_ID = nid, rn_Addr = addr, rn_LastSeen = seen\<rparr>"
  let ?R = "\<lambda>x y. rn_LastSeen y \<le> rn_LastSeen x"
  have "b \<in> set (buckets t)" using stored(1,6) rt_wfD(2) [OF assms(1)] by simp
  with assms(3) have b: "sorted_wrt ?R b" "\<forall>n \<in> set b. rn_LastSeen n \<le> now"
    by (auto simp: rt_recent_def)
  note upd = rt_recent_update [OF assms(3,4), of ?n]
  from stored(8) show ?thesis
  proof (elim disjE exE conjE)
    fix j assume j: "j < length b"
      and t': "t' = t\<lparr>buckets := (buckets t)[i := ?n # take j b @ drop (Suc j) b]\<rparr>"
    have "sorted_wrt ?R (take j b @ b ! j # drop (Suc j) b)"
      using b(1) id_take_nth_drop [OF j] by simp
    then have "sorted_wrt ?R (take j b @ drop (Suc j) b)" by (auto simp: sorted_wrt_append)
    then show ?thesis
      using b(2) t' by (intro upd) (auto dest: in_set_takeD in_set_dropD)
  next
    assume t': "t' = t\<lparr>buckets := (buckets t)[i := ?n # butlast b]\<rparr>"
    have "sorted_wrt ?R (butlast b)" using b(1) by (simp add: butlast_conv_take sorted_wrt_take)
    then show ?thesis
      using b(2) t' by (intro upd) (auto dest: in_set_butlastD)
  next
    assume t': "t' = t\<lparr>rt_size := rt_size t + 1, buckets := (buckets t)[i := ?n # b]\<rparr>"
    then show ?thesis using b by (intro upd) auto
  qed
qed

section \<open>Properties\<close>

text \<open>C7. Every table the program can reach is well-formed: starting from
  \<open>NewRoutingTable\<close>, after any sequence of \<open>Add\<close> and \<open>Prune\<close> calls each of the 160 buckets
  holds at most eight nodes with distinct 20-byte identifiers that belong to that bucket
  and usable addresses, and \<open>size\<close> is the number of stored nodes and within \<open>maxNodes\<close>.\<close>

theorem table_reachable_wf: "rt_wf (foldl rt_step (NewRoutingTable lid mx) es)"
  by (rule table.run_keeps) (rule NewRoutingTable_wf)

text \<open>C8. \<open>Add\<close> refines a map update: its result and the table it leaves are those of the
  specification \<open>add_spec\<close> on the map from identifiers to (address, last seen): unusable
  arguments and the local identifier change nothing, a known identifier is updated, a new
  one replaces the last node of its full bucket or is added while the table has room.\<close>

theorem Add_refines:
  assumes "rt_wf t"
  shows "apsnd rt_abs (RoutingTable_Add t k a s) =
    add_spec (localID t) (rt_victim t k) (maxNodes t \<le> rt_size t) (rt_abs t) k a s"
  using Add_refines_aux [OF assms, of k a s] by (cases "RoutingTable_Add t k a s") simp

theorem Add_refines_witness:
  "apsnd rt_abs (RoutingTable_Add (NewRoutingTable [1] 8) (replicate 20 7) (AddrPort (IP4 1) 6881) 5) =
    (True, [replicate 20 7 \<mapsto> (AddrPort (IP4 1) 6881, 5)])"
proof -
  let ?t = "NewRoutingTable [1] 8"
  have snap: "RoutingTable_Snapshot ?t = []"
    by (simp add: NewRoutingTable_def RoutingTable_Snapshot_def Let_def foldl_conv_fold numeral_eq_Suc)
  have "rt_abs ?t = Map.empty" by (simp add: rt_abs_def snap)
  moreover have "rt_victim ?t (replicate 20 7) = None"
    by code_simp
  moreover have "\<not> maxNodes ?t \<le> rt_size ?t" by code_simp
  moreover have "localID ?t \<noteq> replicate 20 7" by code_simp
  ultimately show ?thesis
    using Add_refines [OF NewRoutingTable_wf, of "[1]" 8 "replicate 20 7" "AddrPort (IP4 1) 6881" 5]
    by (auto simp: add_spec_def)
qed

text \<open>C28. \<open>Closest\<close> returns the nearest nodes: at most \<open>limit\<close> stored nodes and all of
  them when there are fewer, in strictly increasing XOR distance to the target, and every
  stored node that is left out is farther away than every node returned.\<close>

theorem Closest_nearest:
  assumes "rt_wf t"
  shows "let tgt = go_copy (replicate 20 0) target; c = RoutingTable_Closest t target limit
    in length c = min limit (nat (RoutingTable_Len t))
       \<and> set c \<subseteq> set (RoutingTable_Snapshot t)
       \<and> sorted_wrt (\<lambda>x y. xor_distance (rn_ID x) tgt < xor_distance (rn_ID y) tgt) c
       \<and> (\<forall>x \<in> set c. \<forall>y \<in> set (RoutingTable_Snapshot t) - set c.
            xor_distance (rn_ID x) tgt < xor_distance (rn_ID y) tgt)"
proof -
  let ?tgt = "go_copy (replicate 20 0) target" and ?c = "RoutingTable_Closest t target limit"
  note ids = snapshot_ids [OF assms, of target] distinct_snapshot [OF assms]
  have dist: "xorLess (rn_ID x) (rn_ID y) ?tgt \<longleftrightarrow> xor_distance (rn_ID x) ?tgt < xor_distance (rn_ID y) ?tgt"
    if "x \<in> set (RoutingTable_Snapshot t)" "y \<in> set (RoutingTable_Snapshot t)" for x y
    using that snapshot_node(1) [OF assms] by (simp add: xorLess_distance)
  have "sorted_wrt (\<lambda>x y. xorLess (rn_ID x) (rn_ID y) ?tgt) ?c"
    unfolding Closest_eq_take by (intro sorted_wrt_take xor_order.sorted_sort_key ids)
  then have "sorted_wrt (\<lambda>x y. xor_distance (rn_ID x) ?tgt < xor_distance (rn_ID y) ?tgt) ?c"
    by (rule sorted_wrt_mono_rel [rotated]) (use dist set_Closest in blast)
  moreover have "xor_distance (rn_ID x) ?tgt < xor_distance (rn_ID y) ?tgt"
    if "x \<in> set ?c" "y \<in> set (RoutingTable_Snapshot t) - set ?c" for x y
  proof -
    have "xorLess (rn_ID x) (rn_ID y) ?tgt"
      using xor_order.take_sort_key_least [OF ids] that unfolding Closest_eq_take by blast
    then show ?thesis using dist that set_Closest by blast
  qed
  ultimately show ?thesis
    using length_Closest [OF assms] set_Closest by (simp add: Let_def)
qed

text \<open>A table with two nodes, for the witnesses.\<close>

definition sample_table :: RoutingTable where
  "sample_table =
     foldl rt_step (NewRoutingTable (replicate 20 0) 8)
       [EvAdd (replicate 19 0 @ [9]) (AddrPort (IP4 1) 6881) 5,
        EvAdd (replicate 19 0 @ [12]) (AddrPort (IP4 2) 6881) 6]"

lemma sample_table_wf: "rt_wf sample_table"
  unfolding sample_table_def by (rule table.run_keeps) (rule NewRoutingTable_wf)

theorem Closest_nearest_witness:
  "map rn_ID (RoutingTable_Closest sample_table (replicate 19 0 @ [13]) 1) = [replicate 19 0 @ [12]]
   \<and> length (RoutingTable_Closest sample_table (replicate 19 0 @ [13]) 1)
       = min 1 (nat (RoutingTable_Len sample_table))"
proof
  show "map rn_ID (RoutingTable_Closest sample_table (replicate 19 0 @ [13]) 1) = [replicate 19 0 @ [12]]"
    by code_simp
  show "length (RoutingTable_Closest sample_table (replicate 19 0 @ [13]) 1)
       = min 1 (nat (RoutingTable_Len sample_table))"
    using Closest_nearest [OF sample_table_wf, of "replicate 19 0 @ [13]" 1] by (simp add: Let_def)
qed

text \<open>The result of \<open>Closest\<close> does not depend on how \<open>sort.Slice\<close> sorts: any
  rearrangement of the snapshot that is ordered by \<open>xorLess\<close> has the same first
  \<open>limit\<close> nodes.\<close>

theorem Closest_any_sort:
  assumes "rt_wf t" and "mset ys = mset (RoutingTable_Snapshot t)"
    and "sorted_wrt (\<lambda>x y. xorLess (rn_ID x) (rn_ID y) (go_copy (replicate 20 0) target)) ys"
  shows "RoutingTable_Closest t target limit = take limit ys"
  using xor_order.sort_key_unique [OF snapshot_ids [OF assms(1)] distinct_snapshot [OF assms(1)] assms(3,2)]
  by (simp add: Closest_eq_take)

theorem Closest_any_sort_witness:
  "RoutingTable_Closest sample_table (replicate 20 0) 1 = take 1 (rev (RoutingTable_Snapshot sample_table))"
proof (rule Closest_any_sort [OF sample_table_wf])
  show "mset (rev (RoutingTable_Snapshot sample_table)) = mset (RoutingTable_Snapshot sample_table)" by simp
  show "sorted_wrt (\<lambda>x y. xorLess (rn_ID x) (rn_ID y) (go_copy (replicate 20 0) (replicate 20 0)))
      (rev (RoutingTable_Snapshot sample_table))"
    by code_simp
qed

text \<open>\<open>xorBucketIndex\<close> is the position of the highest bit in which two identifiers
  differ: for equal identifiers it is \<open>-1\<close>, otherwise the index \<open>k\<close> with
  \<open>2^k \<le> distance < 2^(k+1)\<close>, and for 20-byte identifiers it lies within the 160 buckets.\<close>

theorem xorBucketIndex_log2:
  assumes "length l = 20" and "length r = 20"
  shows "(xorBucketIndex l r = -1 \<longleftrightarrow> l = r)
    \<and> (l \<noteq> r \<longrightarrow> 0 \<le> xorBucketIndex l r \<and> xorBucketIndex l r < 160
        \<and> 2 ^ nat (xorBucketIndex l r) \<le> xor_distance l r
        \<and> xor_distance l r < 2 ^ Suc (nat (xorBucketIndex l r)))"
proof (cases "l = r")
  case True
  then show ?thesis by simp
next
  case False
  have "length l = length r" using assms by simp
  from xorBucketIndex_bounds [OF this False] False assms show ?thesis by auto
qed

theorem xorBucketIndex_log2_witness:
  "xorBucketIndex (replicate 20 0) (replicate 19 0 @ [12]) = 3
   \<and> xor_distance (replicate 20 0) (replicate 19 0 @ [12]) < 2 ^ Suc 3"
proof -
  have idx: "xorBucketIndex (replicate 20 0) (replicate 19 0 @ [12]) = 3" by code_simp
  have "replicate 20 (0 :: byte) \<noteq> replicate 19 0 @ [12]" by code_simp
  with xorBucketIndex_log2 [of "replicate 20 0" "replicate 19 0 @ [12]"] idx show ?thesis by simp
qed

text \<open>\<open>Prune\<close> removes exactly the nodes not seen after the cutoff and keeps the
  count: the pruned table knows an identifier if and only if the table did with a later
  instant, and its \<open>Len\<close> is the number of those.\<close>

theorem Prune_exact:
  assumes "rt_wf t"
  shows "(rt_abs (RoutingTable_Prune t before) k = Some (a, s) \<longleftrightarrow> rt_abs t k = Some (a, s) \<and> before < s)
    \<and> RoutingTable_Len (RoutingTable_Prune t before)
        = int (length (filter (\<lambda>n. before < rn_LastSeen n) (RoutingTable_Snapshot t)))"
proof
  show "rt_abs (RoutingTable_Prune t before) k = Some (a, s) \<longleftrightarrow> rt_abs t k = Some (a, s) \<and> before < s"
    using rt_abs_Some [OF assms] rt_abs_Some [OF Prune_wf [OF assms]] by (auto simp: Prune_nodes [OF assms])
  show "RoutingTable_Len (RoutingTable_Prune t before)
      = int (length (filter (\<lambda>n. before < rn_LastSeen n) (RoutingTable_Snapshot t)))"
    by (simp add: RoutingTable_Len_def Prune_eq [OF assms])
qed

theorem Prune_exact_witness:
  "RoutingTable_Len (RoutingTable_Prune sample_table 5) = 1
   \<and> rt_abs (RoutingTable_Prune sample_table 5) (replicate 19 0 @ [9]) \<noteq> Some (AddrPort (IP4 1) 6881, 5)"
proof -
  have "length (filter (\<lambda>n. 5 < rn_LastSeen n) (RoutingTable_Snapshot sample_table)) = 1" by code_simp
  then show ?thesis
    using Prune_exact [OF sample_table_wf, of 5 "replicate 19 0 @ [9]" "AddrPort (IP4 1) 6881" 5] by simp
qed

text \<open>The table forgets the least recently seen node of a bucket: when the instants
  handed to \<open>Add\<close> never go back, a new node for a full bucket evicts one whose last
  sighting is not after any other's in that bucket, and the recency order is kept.\<close>

theorem Add_evicts_least_recent:
  assumes "rt_wf t" and "rt_recent now t" and "now \<le> seen"
    and "rt_victim t k = Some v" and "fst (RoutingTable_Add t k a seen)"
  shows "rt_recent seen (snd (RoutingTable_Add t k a seen))
    \<and> rt_abs (snd (RoutingTable_Add t k a seen)) v = None
    \<and> (\<exists>n \<in> set (buckets t ! nat (xorBucketIndex (localID t) k)). rn_ID n = v
        \<and> (\<forall>m \<in> set (buckets t ! nat (xorBucketIndex (localID t) k)). rn_LastSeen n \<le> rn_LastSeen m))"
proof -
  let ?i = "nat (xorBucketIndex (localID t) k)"
  let ?b = "buckets t ! ?i"
  obtain t' where add: "RoutingTable_Add t k a seen = (True, t')"
    using assms(5) by (cases "RoutingTable_Add t k a seen") auto
  have full: "length ?b = kBucketSize" and v: "v = rn_ID (last ?b)"
    using assms(4) by (auto simp: rt_victim_def Let_def split: if_splits)
  have spec: "(True, rt_abs t') = add_spec (localID t) (rt_victim t k) (maxNodes t \<le> rt_size t) (rt_abs t) k a seen"
    using Add_refines_aux [OF assms(1) add] .
  then have new: "k \<notin> dom (rt_abs t)" and upd: "rt_abs t' = (rt_abs t)(v := None, k \<mapsto> (a, seen))"
    by (auto simp: add_spec_def assms(4) split: if_splits)
  have i: "?i < 160"
    using add bucket_index_ok(1) [OF assms(1)] by (auto simp: RoutingTable_Add_def Let_def split: if_splits)
  have ne: "?b \<noteq> []" using full by (auto simp: kBucketSize_def)
  have "last ?b \<in> set (RoutingTable_Snapshot t)"
    using snapshot_split(1) [OF assms(1) i] ne by simp
  then have "v \<noteq> k" using new v by (metis dom_rt_abs imageI)
  have "?b \<in> set (buckets t)" using i rt_wfD(2) [OF assms(1)] by simp
  then have "sorted_wrt (\<lambda>x y. rn_LastSeen y \<le> rn_LastSeen x) (butlast ?b @ [last ?b])"
    using assms(2) ne by (simp add: rt_recent_def)
  then have "\<forall>m \<in> set (butlast ?b @ [last ?b]). rn_LastSeen (last ?b) \<le> rn_LastSeen m"
    unfolding sorted_wrt_append by auto
  then have "\<forall>m \<in> set ?b. rn_LastSeen (last ?b) \<le> rn_LastSeen m" using ne by simp
  then show ?thesis
    using Add_recent [OF assms(1) add assms(2,3)] add upd \<open>v \<noteq> k\<close> v last_in_set [OF ne] by auto
qed

text \<open>Eight nodes of one bucket, seen at the instants 1 to 8.\<close>

definition full_table :: RoutingTable where
  "full_table =
     foldl rt_step (NewRoutingTable (replicate 20 0) 8)
       (map (\<lambda>i. EvAdd (replicate 19 0 @ [of_nat (128 + i)]) (AddrPort (IP4 1) 6881) (int i)) [1..<9])"

theorem Add_evicts_least_recent_witness:
  "rt_abs (snd (RoutingTable_Add full_table (replicate 19 0 @ [200]) (AddrPort (IP4 2) 1) 9))
     (replicate 19 0 @ [129]) = None"
proof -
  have "rt_wf full_table"
    unfolding full_table_def by (rule table.run_keeps) (rule NewRoutingTable_wf)
  moreover have "rt_recent 8 full_table" unfolding rt_recent_def by code_simp
  moreover have "rt_victim full_table (replicate 19 0 @ [200]) = Some (replicate 19 0 @ [129])" by code_simp
  moreover have "fst (RoutingTable_Add full_table (replicate 19 0 @ [200]) (AddrPort (IP4 2) 1) 9)" by code_simp
  ultimately show ?thesis
    using Add_evicts_least_recent [of full_table 8 9 "replicate 19 0 @ [200]" "replicate 19 0 @ [129]"
      "AddrPort (IP4 2) 1"] by simp
qed

end
