(* ===== verification/Codec.thy ===== *)
theory Codec
  imports Netip
begin

text \<open>
  The KRPC messages and their compact encodings, \<open>dhtc-client/codec.go\<close>: the message
  records, the 6- and 18-byte encodings of a peer and the 26- and 38-byte encodings of a
  node, the decoders of concatenated encodings, and KRPC errors. The bencode package is not
  part of the repository: the functions that call it take the package's functions
  (\<open>bencode.Marshal\<close>, \<open>bencode.Unmarshal\<close> at the types used) as arguments.
\<close>

section \<open>Messages\<close>

record CompactPeer =
  cp_Addr :: AddrPort

record CompactNodeInfo =
  cni_ID :: bytes
  cni_Addr :: AddrPort

type_synonym CompactPeers = "CompactPeer list"
type_synonym CompactNodeInfos = "CompactNodeInfo list"

record QueryArguments =
  qa_ID :: bytes
  qa_InfoHash :: bytes
  qa_Target :: bytes
  qa_Token :: bytes
  qa_Port :: int
  qa_ImpliedPort :: int
  qa_Seed :: int
  qa_NoSeed :: int
  qa_Scrape :: int
  qa_Want :: "string list"

text \<open>The Bloom filters of BEP 33 are values of another package; no operation reads them.\<close>

typedecl BloomFilter

record ResponseValues =
  rv_ID :: bytes
  rv_Nodes :: CompactNodeInfos
  rv_Nodes6 :: CompactNodeInfos
  rv_Token :: bytes
  rv_Values :: CompactPeers
  rv_Interval :: int
  rv_Num :: int
  rv_Samples :: bytes
  rv_Samples2 :: "bytes list"
  rv_BFsd :: "BloomFilter option"
  rv_BFpe :: "BloomFilter option"

record KError =
  ke_Code :: int
  ke_Message :: bytes

record Message =
  m_Q :: string
  m_A :: QueryArguments
  m_T :: bytes
  m_Y :: string
  m_R :: ResponseValues
  m_E :: KError

datatype codec_error =
    BadCompactPeer bytes
  | InvalidCompactPeerAddress
  | CompactPeerLength nat
  | InvalidCompactNodeLength nat
  | InvalidCompactNodeAddress
  | CompactNodeLength nat nat
  | CompactNodeNeither
  | InvalidErrorType
  | InvalidErrorLength nat
  | InvalidErrorCode
  | InvalidErrorMessage
  | BencodeError

section \<open>Peers\<close>

definition CompactPeer_MarshalBinary :: "CompactPeer \<Rightarrow> bytes" where
  "CompactPeer_MarshalBinary cp =
     (if \<not> AddrPort_IsValid (cp_Addr cp) then []
      else let ip = AsSlice (AP_Addr (cp_Addr cp));
               ret = go_copy (replicate (length ip + 2) 0) ip
           in take (length ip) ret @ word_be 2 (AP_Port (cp_Addr cp)))"

definition CompactPeer_UnmarshalBinary :: "bytes \<Rightarrow> codec_error + CompactPeer" where
  "CompactPeer_UnmarshalBinary b =
     (if length b = 18 \<or> length b = 6 then
        (case AddrFromSlice (if length b = 18 then take 16 b else take 4 b) of
           None \<Rightarrow> Inl InvalidCompactPeerAddress
         | Some ip \<Rightarrow> Inr \<lparr>cp_Addr = AddrPort (Unmap ip) (be_word (drop (length b - 2) b))\<rparr>)
      else Inl (BadCompactPeer b))"

definition UnmarshalCompactPeers :: "bytes \<Rightarrow> codec_error + CompactPeers" where
  "UnmarshalCompactPeers b =
     (if length b = 0 then Inr []
      else if length b mod 6 = 0 then
        traverse CompactPeer_UnmarshalBinary (chunks 6 (length b div 6) b)
      else if length b mod 18 = 0 then
        traverse CompactPeer_UnmarshalBinary (chunks 18 (length b div 18) b)
      else Inl (CompactPeerLength (length b)))"

text \<open>
  \<open>unm_list\<close> and \<open>unm_bytes\<close> are \<open>bencode.Unmarshal\<close> into \<open>[][]byte\<close> and \<open>[]byte\<close>;
  \<open>mar_list\<close> and \<open>mar_bytes\<close> the corresponding \<open>bencode.Marshal\<close>.
\<close>

definition CompactPeers_UnmarshalBencode ::
  "(bytes \<Rightarrow> bytes list option) \<Rightarrow> (bytes \<Rightarrow> bytes option) \<Rightarrow> bytes \<Rightarrow> codec_error + CompactPeers" where
  "CompactPeers_UnmarshalBencode unm_list unm_bytes b =
     (case unm_list b of
        Some list \<Rightarrow> traverse CompactPeer_UnmarshalBinary list
      | None \<Rightarrow>
          (case unm_bytes b of
             None \<Rightarrow> Inl BencodeError
           | Some bb \<Rightarrow> UnmarshalCompactPeers bb))"

definition CompactPeers_MarshalBencode :: "(bytes list \<Rightarrow> bytes) \<Rightarrow> CompactPeers \<Rightarrow> bytes" where
  "CompactPeers_MarshalBencode mar_list cps = mar_list (map CompactPeer_MarshalBinary cps)"

section \<open>Nodes\<close>

definition CompactNodeInfo_MarshalBinary :: "CompactNodeInfo \<Rightarrow> bytes" where
  "CompactNodeInfo_MarshalBinary cni =
     (let ret = go_copy (replicate 20 0) (cni_ID cni)
      in if \<not> AddrPort_IsValid (cni_Addr cni) then []
         else ret @ AsSlice (AP_Addr (cni_Addr cni)) @ word_be 2 (AP_Port (cni_Addr cni)))"

text \<open>The receiver's identifier slice is reused when it already has 20 bytes.\<close>

definition CompactNodeInfo_UnmarshalBinary :: "CompactNodeInfo \<Rightarrow> bytes \<Rightarrow> codec_error + CompactNodeInfo" where
  "CompactNodeInfo_UnmarshalBinary cni b =
     (if length b \<noteq> 26 \<and> length b \<noteq> 38 then Inl (InvalidCompactNodeLength (length b))
      else let nid = go_copy (if length (cni_ID cni) \<noteq> 20 then replicate 20 0 else cni_ID cni) (take 20 b);
               rest = drop 20 b;
               ipLen = (if length rest = 6 then 4 else 16)
           in case AddrFromSlice (take ipLen rest) of
                None \<Rightarrow> Inl InvalidCompactNodeAddress
              | Some ip \<Rightarrow> Inr \<lparr>cni_ID = nid, cni_Addr = AddrPort (Unmap ip) (be_word (drop ipLen rest))\<rparr>)"

text \<open>A freshly made slice element: nil identifier, zero address.\<close>

definition zero_node :: CompactNodeInfo where
  "zero_node = \<lparr>cni_ID = [], cni_Addr = AddrPort NoAddr 0\<rparr>"

definition UnmarshalCompactNodeInfos :: "bytes \<Rightarrow> codec_error + CompactNodeInfos" where
  "UnmarshalCompactNodeInfos b =
     (if length b = 0 then Inr []
      else if length b mod 26 = 0 then
        traverse (CompactNodeInfo_UnmarshalBinary zero_node) (chunks 26 (length b div 26) b)
      else if length b mod 38 = 0 then
        traverse (CompactNodeInfo_UnmarshalBinary zero_node) (chunks 38 (length b div 38) b)
      else Inl CompactNodeNeither)"

definition unmarshalCompactNodeInfosBencode ::
  "(bytes \<Rightarrow> bytes option) \<Rightarrow> bytes \<Rightarrow> nat \<Rightarrow> codec_error + CompactNodeInfos" where
  "unmarshalCompactNodeInfosBencode unm_bytes b nodeSize =
     (case unm_bytes b of
        None \<Rightarrow> Inl BencodeError
      | Some raw \<Rightarrow>
          if length raw mod nodeSize \<noteq> 0 then Inl (CompactNodeLength (length raw) nodeSize)
          else traverse (CompactNodeInfo_UnmarshalBinary zero_node)
                 (chunks nodeSize (length raw div nodeSize) raw))"

definition CompactNodeInfos_UnmarshalBencode ::
  "(bytes \<Rightarrow> bytes option) \<Rightarrow> bytes \<Rightarrow> codec_error + CompactNodeInfos" where
  "CompactNodeInfos_UnmarshalBencode unm_bytes b =
     (case unm_bytes b of None \<Rightarrow> Inl BencodeError | Some bb \<Rightarrow> UnmarshalCompactNodeInfos bb)"

definition CompactNodeInfos4_UnmarshalBencode ::
  "(bytes \<Rightarrow> bytes option) \<Rightarrow> bytes \<Rightarrow> codec_error + CompactNodeInfos" where
  "CompactNodeInfos4_UnmarshalBencode unm_bytes b = unmarshalCompactNodeInfosBencode unm_bytes b 26"

definition CompactNodeInfos6_UnmarshalBencode ::
  "(bytes \<Rightarrow> bytes option) \<Rightarrow> bytes \<Rightarrow> codec_error + CompactNodeInfos" where
  "CompactNodeInfos6_UnmarshalBencode unm_bytes b = unmarshalCompactNodeInfosBencode unm_bytes b 38"

text \<open>An empty list is written as the literal \<open>0:\<close>.\<close>

definition CompactNodeInfos_MarshalBencode :: "(bytes \<Rightarrow> bytes) \<Rightarrow> CompactNodeInfos \<Rightarrow> bytes" where
  "CompactNodeInfos_MarshalBencode mar_bytes cnis =
     (if length cnis = 0 then [48, 58]
      else mar_bytes (foldl (\<lambda>ret cni. ret @ CompactNodeInfo_MarshalBinary cni) [] cnis))"

definition CompactNodeInfos4_MarshalBencode :: "(bytes \<Rightarrow> bytes) \<Rightarrow> CompactNodeInfos \<Rightarrow> bytes" where
  "CompactNodeInfos4_MarshalBencode mar_bytes cnis = CompactNodeInfos_MarshalBencode mar_bytes cnis"

definition CompactNodeInfos6_MarshalBencode :: "(bytes \<Rightarrow> bytes) \<Rightarrow> CompactNodeInfos \<Rightarrow> bytes" where
  "CompactNodeInfos6_MarshalBencode mar_bytes cnis = CompactNodeInfos_MarshalBencode mar_bytes cnis"

section \<open>Errors\<close>

text \<open>
  What \<open>bencode.Unmarshal\<close> stores in a variable of type \<open>any\<close>: an \<open>int64\<close>, a string, a
  byte slice, a list, or a value of another type (a dictionary, a big integer).
\<close>

datatype bvalue = BInt int | BString bytes | BBytes bytes | BList "bvalue list" | BOther

definition KError_MarshalBencode :: "(bvalue \<Rightarrow> bytes) \<Rightarrow> KError \<Rightarrow> bytes" where
  "KError_MarshalBencode mar_any e = mar_any (BList [BInt (ke_Code e), BBytes (ke_Message e)])"

definition KError_UnmarshalBencode :: "(bytes \<Rightarrow> bvalue option) \<Rightarrow> bytes \<Rightarrow> codec_error + KError" where
  "KError_UnmarshalBencode unm_any b =
     (case unm_any b of
        None \<Rightarrow> Inl BencodeError
      | Some i \<Rightarrow>
          (case i of
             BList l \<Rightarrow>
               if length l < 2 then Inl (InvalidErrorLength (length l))
               else (case l ! 0 of
                       BInt code \<Rightarrow>
                         (case l ! 1 of
                            BBytes v \<Rightarrow> Inr \<lparr>ke_Code = code, ke_Message = v\<rparr>
                          | BString v \<Rightarrow> Inr \<lparr>ke_Code = code, ke_Message = v\<rparr>
                          | _ \<Rightarrow> Inl InvalidErrorMessage)
                     | _ \<Rightarrow> Inl InvalidErrorCode)
           | _ \<Rightarrow> Inl InvalidErrorType))"

section \<open>One record there and back\<close>

lemma Marshal_peer_eq:
  "AddrPort_IsValid (cp_Addr cp) \<Longrightarrow>
    CompactPeer_MarshalBinary cp = AsSlice (AP_Addr (cp_Addr cp)) @ word_be 2 (AP_Port (cp_Addr cp))"
  by (simp add: CompactPeer_MarshalBinary_def go_copy_def Let_def)

lemma port_roundtrip [simp]: "be_word (word_be 2 (p :: uint16)) = p"
  by (simp add: be_word_word_be)

definition unmap_peer :: "CompactPeer \<Rightarrow> CompactPeer" where
  "unmap_peer cp = \<lparr>cp_Addr = AddrPort (Unmap (WithoutZone (AP_Addr (cp_Addr cp)))) (AP_Port (cp_Addr cp))\<rparr>"

definition unmap_node :: "CompactNodeInfo \<Rightarrow> CompactNodeInfo" where
  "unmap_node n = n\<lparr>cni_Addr := AddrPort (Unmap (WithoutZone (AP_Addr (cni_Addr n)))) (AP_Port (cni_Addr n))\<rparr>"

lemma unmap_peer_4: "Is4 (AP_Addr (cp_Addr cp)) \<Longrightarrow> unmap_peer cp = cp"
  by (cases cp; cases "cp_Addr cp") (auto simp: unmap_peer_def Is4_iff)

lemma unmap_node_4: "Is4 (AP_Addr (cni_Addr n)) \<Longrightarrow> unmap_node n = n"
  by (cases n; cases "cni_Addr n") (auto simp: unmap_node_def Is4_iff)

lemma Unmarshal_Marshal_peer:
  assumes "AddrPort_IsValid (cp_Addr cp)"
  shows "CompactPeer_UnmarshalBinary (CompactPeer_MarshalBinary cp) = Inr (unmap_peer cp)"
proof -
  obtain a p where cp: "cp_Addr cp = AddrPort a p" by (cases "cp_Addr cp")
  with assms have "Addr_IsValid a" by simp
  then show ?thesis
    by (cases rule: valid_cases)
      (simp_all add: cp Marshal_peer_eq CompactPeer_UnmarshalBinary_def unmap_peer_def)
qed

lemma Unmarshal_Marshal_node:
  assumes "AddrPort_IsValid (cni_Addr n)" and "length (cni_ID n) = 20"
  shows "CompactNodeInfo_UnmarshalBinary c (CompactNodeInfo_MarshalBinary n) = Inr (unmap_node n)"
proof -
  obtain a p where n: "cni_Addr n = AddrPort a p" by (cases "cni_Addr n")
  with assms have "Addr_IsValid a" by simp
  then show ?thesis using assms(2)
    by (cases rule: valid_cases)
      (simp_all add: n CompactNodeInfo_MarshalBinary_def CompactNodeInfo_UnmarshalBinary_def
        unmap_node_def Let_def)
qed

lemma AddrPort_valid_4 [simp]: "Is4 (AP_Addr ap) \<Longrightarrow> AddrPort_IsValid ap"
  and AddrPort_valid_6 [simp]: "Is6 (AP_Addr ap) \<Longrightarrow> AddrPort_IsValid ap"
  by (cases "AP_Addr ap"; simp add: AddrPort_IsValid_def)+

interpretation peer4: record_codec CompactPeer_MarshalBinary CompactPeer_UnmarshalBinary unmap_peer
  "\<lambda>cp. Is4 (AP_Addr (cp_Addr cp))" 6
  by unfold_locales (simp_all add: Unmarshal_Marshal_peer, simp add: Marshal_peer_eq)

interpretation peer6: record_codec CompactPeer_MarshalBinary CompactPeer_UnmarshalBinary unmap_peer
  "\<lambda>cp. Is6 (AP_Addr (cp_Addr cp))" 18
  by unfold_locales (simp_all add: Unmarshal_Marshal_peer, simp add: Marshal_peer_eq)

interpretation node4: record_codec CompactNodeInfo_MarshalBinary "CompactNodeInfo_UnmarshalBinary c" unmap_node
  "\<lambda>n. length (cni_ID n) = 20 \<and> Is4 (AP_Addr (cni_Addr n))" 26 for c
  by unfold_locales (simp_all add: Unmarshal_Marshal_node, simp add: CompactNodeInfo_MarshalBinary_def)

interpretation node6: record_codec CompactNodeInfo_MarshalBinary "CompactNodeInfo_UnmarshalBinary c" unmap_node
  "\<lambda>n. length (cni_ID n) = 20 \<and> Is6 (AP_Addr (cni_Addr n))" 38 for c
  by unfold_locales (simp_all add: Unmarshal_Marshal_node, simp add: CompactNodeInfo_MarshalBinary_def)

section \<open>Decoding lists\<close>

lemma unmarshal_chunk6: "length c = 6 \<Longrightarrow>
    \<exists>q. CompactPeer_UnmarshalBinary c = Inr q \<and> Is4 (AP_Addr (cp_Addr q))"
  using AddrFromSlice_4 [of "take 4 c"] by (auto simp: CompactPeer_UnmarshalBinary_def)

lemma traverse_all:
  assumes "\<And>x. x \<in> set xs \<Longrightarrow> \<exists>y. f x = Inr y \<and> P y"
  shows "\<exists>ys. traverse f xs = Inr ys \<and> length ys = length xs \<and> (\<forall>y \<in> set ys. P y)"
  using assms
proof (induction xs)
  case Nil
  then show ?case by simp
next
  case (Cons x xs)
  then obtain y where y: "f x = Inr y" "P y" by auto
  from Cons obtain ys where ys: "traverse f xs = Inr ys" "length ys = length xs" "\<forall>y \<in> set ys. P y"
    by auto
  with y show ?case by auto
qed

text \<open>A packed peer string is read as 6-byte records whenever its length allows it.\<close>

lemma UnmarshalCompactPeers_6:
  assumes "length b mod 6 = 0"
  shows "\<exists>qs. UnmarshalCompactPeers b = Inr qs \<and> length qs = length b div 6
    \<and> (\<forall>q \<in> set qs. Is4 (AP_Addr (cp_Addr q)))"
proof -
  have len: "length b = length b div 6 * 6" using assms by auto
  have "\<exists>qs. traverse CompactPeer_UnmarshalBinary (chunks 6 (length b div 6) b) = Inr qs
      \<and> length qs = length (chunks 6 (length b div 6) b) \<and> (\<forall>q \<in> set qs. Is4 (AP_Addr (cp_Addr q)))"
    by (rule traverse_all) (use unmarshal_chunk6 length_in_chunks [OF len] in blast)
  then show ?thesis using assms by (auto simp: UnmarshalCompactPeers_def)
qed

lemma nodes_concat: "foldl (\<lambda>ret cni. ret @ CompactNodeInfo_MarshalBinary cni) acc ns
    = acc @ concat (map CompactNodeInfo_MarshalBinary ns)"
  by (induction ns arbitrary: acc) auto

lemma nodes_bencode_roundtrip:
  assumes "\<And>x. unm_bytes (mar_bytes x) = Some x" and "unm_bytes [48, 58] = Some []" and "0 < w"
    and "length (concat (map CompactNodeInfo_MarshalBinary ns)) = length ns * w"
    and "traverse (CompactNodeInfo_UnmarshalBinary zero_node)
           (chunks w (length ns) (concat (map CompactNodeInfo_MarshalBinary ns))) = Inr (map unmap_node ns)"
  shows "unmarshalCompactNodeInfosBencode unm_bytes (CompactNodeInfos_MarshalBencode mar_bytes ns) w
    = Inr (map unmap_node ns)"
  using assms
  by (cases "ns = []")
    (auto simp: unmarshalCompactNodeInfosBencode_def CompactNodeInfos_MarshalBencode_def nodes_concat)

section \<open>Bencoded strings\<close>

text \<open>
  A concrete pair of functions with the behaviour the package documents for byte strings
  (decimal length, colon, bytes) and lists of them, with which the hypotheses of the
  properties below are shown to hold together.
\<close>

fun dec_digits :: "nat \<Rightarrow> bytes" where
  "dec_digits n = (if n < 10 then [of_nat (48 + n)] else dec_digits (n div 10) @ [of_nat (48 + n mod 10)])"

declare dec_digits.simps [simp del]

fun read_len :: "nat \<Rightarrow> bytes \<Rightarrow> (nat \<times> bytes) option" where
  "read_len acc [] = None"
| "read_len acc (c # cs) =
     (if c = 58 then Some (acc, cs)
      else if 48 \<le> unat c \<and> unat c < 58 then read_len (acc * 10 + (unat c - 48)) cs
      else None)"

definition put_bstr :: "bytes \<Rightarrow> bytes" where
  "put_bstr x = dec_digits (length x) @ 58 # x"

definition get_bstr :: "bytes \<Rightarrow> (bytes \<times> bytes) option" where
  "get_bstr b = (case read_len 0 b of None \<Rightarrow> None
     | Some (n, r) \<Rightarrow> if n \<le> length r then Some (take n r, drop n r) else None)"

definition unput_bstr :: "bytes \<Rightarrow> bytes option" where
  "unput_bstr b = (case get_bstr b of Some (x, r) \<Rightarrow> (if r = [] then Some x else None) | _ \<Rightarrow> None)"

fun get_items :: "nat \<Rightarrow> bytes \<Rightarrow> bytes list option" where
  "get_items 0 b = None"
| "get_items (Suc fuel) b =
     (if b = [101] then Some []
      else case get_bstr b of None \<Rightarrow> None
           | Some (x, r) \<Rightarrow> map_option ((#) x) (get_items fuel r))"

definition put_blist :: "bytes list \<Rightarrow> bytes" where
  "put_blist xs = 108 # concat (map put_bstr xs) @ [101]"

definition unput_blist :: "bytes \<Rightarrow> bytes list option" where
  "unput_blist b = (case b of c # r \<Rightarrow> (if c = 108 then get_items (length b) r else None) | _ \<Rightarrow> None)"

lemma digit_word: "d < 10 \<Longrightarrow> unat (of_nat (48 + d) :: byte) = 48 + d \<and> (of_nat (48 + d) :: byte) \<noteq> 58"
proof -
  assume d: "d < 10"
  then have u: "unat (of_nat (48 + d) :: byte) = 48 + d" by (simp add: unat_of_nat del: of_nat_add)
  moreover have "(of_nat (48 + d) :: byte) \<noteq> 58"
  proof
    assume "(of_nat (48 + d) :: byte) = 58"
    then have "unat (of_nat (48 + d) :: byte) = 58" by (simp del: of_nat_add)
    with u d show False by simp
  qed
  ultimately show ?thesis by simp
qed

lemma read_len_digits:
  "\<exists>k. \<forall>acc rest. read_len acc (dec_digits n @ rest) = read_len (acc * 10 ^ k + n) rest"
proof (induction n rule: dec_digits.induct)
  case (1 n)
  show ?case
  proof (cases "n < 10")
    case True
    then have "\<forall>acc rest. read_len acc (dec_digits n @ rest) = read_len (acc * 10 ^ 1 + n) rest"
      using digit_word [OF True] by (simp add: dec_digits.simps [of n] del: of_nat_add)
    then show ?thesis by blast
  next
    case False
    then obtain k where k: "\<And>acc rest. read_len acc (dec_digits (n div 10) @ rest)
        = read_len (acc * 10 ^ k + n div 10) rest"
      using "1.IH" by blast
    have d: "n mod 10 < 10" by simp
    have "read_len acc (dec_digits n @ rest) = read_len ((acc * 10 ^ k + n div 10) * 10 + n mod 10) rest"
      for acc rest
      using False digit_word [OF d] k by (simp add: dec_digits.simps [of n] del: of_nat_add)
    moreover have "(acc * 10 ^ k + n div 10) * 10 + n mod 10 = acc * 10 ^ Suc k + n" for acc
      by (simp add: algebra_simps)
    ultimately show ?thesis by metis
  qed
qed

lemma get_put_bstr: "get_bstr (put_bstr x @ rest) = Some (x, rest)"
proof -
  obtain k where "\<And>acc r. read_len acc (dec_digits (length x) @ r) = read_len (acc * 10 ^ k + length x) r"
    using read_len_digits by blast
  then show ?thesis by (simp add: get_bstr_def put_bstr_def)
qed

lemma unput_put_bstr [simp]: "unput_bstr (put_bstr x) = Some x"
  using get_put_bstr [of x "[]"] by (simp add: unput_bstr_def)

lemma unput_empty [simp]: "unput_bstr [48, 58] = Some []"
  by code_simp

lemma get_items_put:
  "length xs < fuel \<Longrightarrow> get_items fuel (concat (map put_bstr xs) @ [101]) = Some xs"
proof (induction xs arbitrary: fuel)
  case Nil
  then show ?case by (cases fuel) auto
next
  case (Cons x xs)
  obtain f where f: "fuel = Suc f" using Cons.prems by (cases fuel) auto
  have "put_bstr x @ concat (map put_bstr xs) @ [101] \<noteq> [101]"
    by (auto simp: put_bstr_def append_eq_Cons_conv)
  then show ?case
    using Cons f get_put_bstr [of x "concat (map put_bstr xs) @ [101]"] by simp
qed

lemma unput_put_blist [simp]: "unput_blist (put_blist xs) = Some xs"
proof -
  have "length xs \<le> length (concat (map put_bstr xs))"
    by (induction xs) (auto simp: put_bstr_def)
  then show ?thesis
    using get_items_put [of xs "length (put_blist xs)"]
    by (simp add: unput_blist_def put_blist_def del: get_items.simps)
qed

section \<open>Properties\<close>

text \<open>Compact peers survive the wire: decoding the encoding of a valid peer gives the
  same address (an IPv4-mapped IPv6 address as IPv4, an IPv6 zone dropped) and port, and
  encoding what was decoded gives the bytes back, unless they were an IPv4-mapped
  address.\<close>

theorem compact_peer_roundtrip:
  assumes "AddrPort_IsValid (cp_Addr cp)"
    and "CompactPeer_UnmarshalBinary b = Inr cp'"
    and "length b = 18 \<longrightarrow> \<not> Is4In6 (IP6 (be_word (take 16 b)) '''')"
  shows "CompactPeer_UnmarshalBinary (CompactPeer_MarshalBinary cp) = Inr (unmap_peer cp)
    \<and> CompactPeer_MarshalBinary cp' = b"
proof -
  have len: "length b = 18 \<or> length b = 6"
    using assms(2) by (auto simp: CompactPeer_UnmarshalBinary_def split: if_splits)
  have "CompactPeer_MarshalBinary cp' = b"
  proof (cases "length b = 18")
    case True
    then have "cp' = \<lparr>cp_Addr = AddrPort (IP6 (be_word (take 16 b)) '''') (be_word (drop 16 b))\<rparr>"
      using assms(2,3) by (auto simp: CompactPeer_UnmarshalBinary_def AddrFromSlice_def Unmap_not_4in6)
    then show ?thesis using True by (simp add: Marshal_peer_eq word_be_be_word)
  next
    case False
    then have 6: "length b = 6" using len by simp
    then have "cp' = \<lparr>cp_Addr = AddrPort (IP4 (be_word (take 4 b))) (be_word (drop 4 b))\<rparr>"
      using assms(2) by (auto simp: CompactPeer_UnmarshalBinary_def AddrFromSlice_def)
    then show ?thesis using 6 by (simp add: Marshal_peer_eq word_be_be_word)
  qed
  then show ?thesis using Unmarshal_Marshal_peer [OF assms(1)] by simp
qed

theorem compact_peer_roundtrip_witness:
  "CompactPeer_UnmarshalBinary (CompactPeer_MarshalBinary \<lparr>cp_Addr = AddrPort (IP4 16909060) 6881\<rparr>)
     = Inr \<lparr>cp_Addr = AddrPort (IP4 16909060) 6881\<rparr>
   \<and> CompactPeer_MarshalBinary \<lparr>cp_Addr = AddrPort (IP4 0) 0\<rparr> = [0, 0, 0, 0, 0, 0]"
proof -
  have "CompactPeer_UnmarshalBinary [0, 0, 0, 0, 0, 0] = Inr \<lparr>cp_Addr = AddrPort (IP4 0) 0\<rparr>"
    by (simp add: CompactPeer_UnmarshalBinary_def AddrFromSlice_def be_word_def be_nat_def)
  from compact_peer_roundtrip [OF _ this, of "\<lparr>cp_Addr = AddrPort (IP4 16909060) 6881\<rparr>"]
  show ?thesis by (simp add: unmap_peer_def)
qed



text \<open>The peer list of a response survives the wire: written as a list of byte
  strings and read back, every valid peer is recovered (IPv4-mapped addresses as IPv4).\<close>

theorem peer_list_roundtrip:
  assumes "\<And>xs. unm_list (mar_list xs) = Some xs"
    and "\<forall>cp \<in> set ps. AddrPort_IsValid (cp_Addr cp)"
  shows "CompactPeers_UnmarshalBencode unm_list unm_bytes (CompactPeers_MarshalBencode mar_list ps)
    = Inr (map unmap_peer ps)"
proof -
  have "traverse CompactPeer_UnmarshalBinary (map CompactPeer_MarshalBinary ps) = Inr (map unmap_peer ps)"
    using assms(2) by (induction ps) (auto simp: Unmarshal_Marshal_peer)
  then show ?thesis
    by (simp add: CompactPeers_UnmarshalBencode_def CompactPeers_MarshalBencode_def assms(1))
qed

theorem peer_list_roundtrip_witness:
  "CompactPeers_UnmarshalBencode unput_blist unput_bstr
     (CompactPeers_MarshalBencode put_blist [\<lparr>cp_Addr = AddrPort (IP4 1) 2\<rparr>, \<lparr>cp_Addr = AddrPort (IP6 5 '''') 7\<rparr>])
   = Inr [\<lparr>cp_Addr = AddrPort (IP4 1) 2\<rparr>, \<lparr>cp_Addr = AddrPort (IP6 5 '''') 7\<rparr>]"
  using peer_list_roundtrip [of unput_blist put_blist
      "[\<lparr>cp_Addr = AddrPort (IP4 1) 2\<rparr>, \<lparr>cp_Addr = AddrPort (IP6 5 '''') 7\<rparr>]" unput_bstr]
  by (simp add: unmap_peer_def Unmap_def)

text \<open>A packed string of IPv6 peers is misread: since 18 is a multiple of 6, the
  18-byte branch of \<open>UnmarshalCompactPeers\<close> is never taken, and the concatenated
  encodings of \<open>n\<close> IPv6 peers decode without an error to \<open>3 n\<close> IPv4 peers.\<close>

theorem packed_ipv6_peers_misread:
  assumes "\<forall>cp \<in> set ps. Is6 (AP_Addr (cp_Addr cp))"
  shows "\<exists>qs. UnmarshalCompactPeers (concat (map CompactPeer_MarshalBinary ps)) = Inr qs
    \<and> length qs = 3 * length ps \<and> (\<forall>q \<in> set qs. Is4 (AP_Addr (cp_Addr q)))"
proof -
  have len: "length (concat (map CompactPeer_MarshalBinary ps)) = length ps * 18"
    by (rule peer6.length_concat_encode) (rule assms)
  have "length ps * 18 mod 6 = 0" by presburger
  moreover have "length ps * 18 div 6 = 3 * length ps" by presburger
  ultimately show ?thesis
    using UnmarshalCompactPeers_6 [of "concat (map CompactPeer_MarshalBinary ps)"] unfolding len by simp
qed

theorem packed_ipv6_peers_misread_witness:
  "\<exists>qs. UnmarshalCompactPeers (CompactPeer_MarshalBinary \<lparr>cp_Addr = AddrPort (IP6 5 '''') 7\<rparr>) = Inr qs
    \<and> length qs = 3 \<and> (\<forall>q \<in> set qs. Is4 (AP_Addr (cp_Addr q)))"
  using packed_ipv6_peers_misread [of "[\<lparr>cp_Addr = AddrPort (IP6 5 '''') 7\<rparr>]"] by simp

end
