(* ===== verification/Sha1.thy ===== *)
theory Sha1
  imports Prelude
begin

text \<open>
  \<open>sha1.Sum\<close> of Go's \<open>crypto/sha1\<close>, which the token code of \<open>dhtc-client/protocol.go\<close> calls:
  the function of FIPS 180-4, computed over 32-bit words.
\<close>

definition sha1_pad :: "bytes \<Rightarrow> bytes" where
  "sha1_pad m =
    (let z = (119 - length m mod 64) mod 64
     in m @ [0x80] @ replicate z 0 @ nat_be 8 (8 * length m))"

lemma length_sha1_pad: "length (sha1_pad m) mod 64 = 0"
proof -
  define r where "r = length m mod 64"
  have r: "r < 64" by (simp add: r_def)
  have "(r + 9 + (119 - r) mod 64) mod 64 = 0"
  proof (cases "r \<le> 55")
    case True
    then have "119 - r = 55 - r + 64" by simp
    then have "(119 - r) mod 64 = (55 - r) mod 64" by (simp only: mod_add_self2)
    moreover have "(55 - r) mod 64 = 55 - r" by (rule mod_less) simp
    ultimately show ?thesis using True by simp
  next
    case False
    then have "(119 - r) mod 64 = 119 - r" using r by simp
    then show ?thesis using False r by simp
  qed
  moreover have "length (sha1_pad m) mod 64 = (r + 9 + (119 - r) mod 64) mod 64"
    using mod_add_left_eq [of "length m" 64 "9 + (119 - r) mod 64"]
    by (simp add: sha1_pad_def Let_def r_def ac_simps)
  ultimately show ?thesis by simp
qed

fun sha1_extend :: "nat \<Rightarrow> 32 word list \<Rightarrow> 32 word list" where
  "sha1_extend 0 ws = ws"
| "sha1_extend (Suc n) ws =
     (let l = length ws in
      sha1_extend n (ws @ [word_rotl 1
        ((ws ! (l - 3)) XOR (ws ! (l - 8)) XOR (ws ! (l - 14)) XOR (ws ! (l - 16)))]))"

definition sha1_schedule :: "bytes \<Rightarrow> 32 word list" where
  "sha1_schedule block = sha1_extend 64 (map be_word (chunks 4 16 block))"

type_synonym sha1_state = "32 word \<times> 32 word \<times> 32 word \<times> 32 word \<times> 32 word"

definition sha1_round :: "sha1_state \<Rightarrow> nat \<times> 32 word \<Rightarrow> sha1_state" where
  "sha1_round s tw = (case s of (a, b, c, d, e) \<Rightarrow> case tw of (t, w) \<Rightarrow>
    (let f = (if t < 20 then (b AND c) OR ((NOT b) AND d)
              else if t < 40 then b XOR c XOR d
              else if t < 60 then (b AND c) OR (b AND d) OR (c AND d)
              else b XOR c XOR d);
         k = (if t < 20 then 0x5A827999
              else if t < 40 then 0x6ED9EBA1
              else if t < 60 then 0x8F1BBCDC
              else 0xCA62C1D6)
     in (word_rotl 5 a + f + e + k + w, a, word_rotl 30 b, c, d)))"

definition sha1_block :: "sha1_state \<Rightarrow> bytes \<Rightarrow> sha1_state" where
  "sha1_block h block = (case h of (h0, h1, h2, h3, h4) \<Rightarrow>
    case foldl sha1_round h (zip [0..<80] (sha1_schedule block)) of (a, b, c, d, e) \<Rightarrow>
      (h0 + a, h1 + b, h2 + c, h3 + d, h4 + e))"

definition sha1_Sum :: "bytes \<Rightarrow> bytes" where
  "sha1_Sum m =
    (let p = sha1_pad m in
     case foldl sha1_block (0x67452301, 0xEFCDAB89, 0x98BADCFE, 0x10325476, 0xC3D2E1F0)
            (chunks 64 (length p div 64) p) of
       (a, b, c, d, e) \<Rightarrow> word_be 4 a @ word_be 4 b @ word_be 4 c @ word_be 4 d @ word_be 4 e)"

lemma length_sha1_Sum [simp]: "length (sha1_Sum m) = 20"
  by (simp add: sha1_Sum_def Let_def split: prod.splits)

end
