(* ===== verification/Protocol.thy ===== *)
theory Protocol
  imports Codec Sha1
begin

text \<open>
  The KRPC protocol layer, \<open>dhtc-client/protocol.go\<close>: how an incoming message is recognised,
  validated and handed to a handler, the messages the client builds, and the announce
  tokens with their rotating secrets. The registered handlers belong to the client of the
  protocol (the indexing service); \<open>onMessage\<close> here computes which handler is called, and
  the transport that carries an outgoing message answers whether it was queued.
\<close>

section \<open>Validation\<close>

definition validatePingQueryMessage :: "Message \<Rightarrow> bool" where
  "validatePingQueryMessage msg \<longleftrightarrow> length (qa_ID (m_A msg)) = 20"

definition validateFindNodeQueryMessage :: "Message \<Rightarrow> bool" where
  "validateFindNodeQueryMessage msg \<longleftrightarrow>
    length (qa_ID (m_A msg)) = 20 \<and> length (qa_Target (m_A msg)) = 20"

definition validateGetPeersQueryMessage :: "Message \<Rightarrow> bool" where
  "validateGetPeersQueryMessage msg \<longleftrightarrow>
    length (qa_ID (m_A msg)) = 20
    \<and> (length (qa_InfoHash (m_A msg)) = 20 \<or> length (qa_InfoHash (m_A msg)) = 32)"

definition validateAnnouncePeerQueryMessage :: "Message \<Rightarrow> bool" where
  "validateAnnouncePeerQueryMessage msg \<longleftrightarrow>
    length (qa_ID (m_A msg)) = 20
    \<and> (length (qa_InfoHash (m_A msg)) = 20 \<or> length (qa_InfoHash (m_A msg)) = 32)
    \<and> qa_Port (m_A msg) > 0
    \<and> length (qa_Token (m_A msg)) > 0"

definition validateSampleInfohashesQueryMessage :: "Message \<Rightarrow> bool" where
  "validateSampleInfohashesQueryMessage msg \<longleftrightarrow>
    length (qa_ID (m_A msg)) = 20 \<and> length (qa_Target (m_A msg)) = 20"

definition validatePingORannouncePeerResponseMessage :: "Message \<Rightarrow> bool" where
  "validatePingORannouncePeerResponseMessage msg \<longleftrightarrow> length (rv_ID (m_R msg)) = 20"

definition validateFindNodeResponseMessage :: "Message \<Rightarrow> bool" where
  "validateFindNodeResponseMessage msg =
    (if length (rv_ID (m_R msg)) \<noteq> 20 then False
     else length (rv_Nodes (m_R msg)) > 0 \<or> length (rv_Nodes6 (m_R msg)) > 0)"

definition validateGetPeersResponseMessage :: "Message \<Rightarrow> bool" where
  "validateGetPeersResponseMessage msg =
    (if length (rv_ID (m_R msg)) \<noteq> 20 \<or> length (rv_Token (m_R msg)) = 0 then False
     else length (rv_Values (m_R msg)) > 0 \<or> length (rv_Nodes (m_R msg)) > 0
          \<or> length (rv_Nodes6 (m_R msg)) > 0)"

definition validateSampleInfohashesResponseMessage :: "Message \<Rightarrow> bool" where
  "validateSampleInfohashesResponseMessage msg =
    (if length (rv_ID (m_R msg)) \<noteq> 20 \<or> rv_Interval (m_R msg) < 0 \<or> rv_Num (m_R msg) < 0 then False
     else if length (rv_Samples (m_R msg)) mod 20 \<noteq> 0 then False
     else list_all (\<lambda>sample. length sample = 32) (rv_Samples2 (m_R msg)))"

lemmas validate_defs = validatePingQueryMessage_def validateFindNodeQueryMessage_def
  validateGetPeersQueryMessage_def validateAnnouncePeerQueryMessage_def
  validateSampleInfohashesQueryMessage_def validatePingORannouncePeerResponseMessage_def
  validateFindNodeResponseMessage_def validateGetPeersResponseMessage_def
  validateSampleInfohashesResponseMessage_def

section \<open>Dispatch\<close>

text \<open>
  The handlers of \<open>ProtocolEventHandlers\<close>. A handler that was not registered is \<open>nil\<close> and
  its messages are dropped; \<open>regs\<close> says which are set.
\<close>

datatype handler =
    OnPingQuery | OnFindNodeQuery | OnGetPeersQuery | OnAnnouncePeerQuery
  | OnGetPeersResponse | OnFindNodeResponse | OnPingORAnnouncePeerResponse
  | OnSampleInfohashesQuery | OnSampleInfohashesResponse

definition call_if_set :: "(handler \<Rightarrow> bool) \<Rightarrow> handler \<Rightarrow> handler option" where
  "call_if_set regs h = (if regs h then Some h else None)"

definition onMessage :: "(handler \<Rightarrow> bool) \<Rightarrow> Message \<Rightarrow> handler option" where
  "onMessage regs msg =
    (if m_Y msg = ''q'' then
       (if m_Q msg = ''ping'' then
          (if \<not> validatePingQueryMessage msg then None else call_if_set regs OnPingQuery)
        else if m_Q msg = ''find_node'' then
          (if \<not> validateFindNodeQueryMessage msg then None else call_if_set regs OnFindNodeQuery)
        else if m_Q msg = ''get_peers'' then
          (if \<not> validateGetPeersQueryMessage msg then None else call_if_set regs OnGetPeersQuery)
        else if m_Q msg = ''announce_peer'' then
          (if \<not> validateAnnouncePeerQueryMessage msg then None else call_if_set regs OnAnnouncePeerQuery)
        else if m_Q msg = ''vote'' then None
        else if m_Q msg = ''sample_infohashes'' then
          (if \<not> validateSampleInfohashesQueryMessage msg then None
           else call_if_set regs OnSampleInfohashesQuery)
        else None)
     else if m_Y msg = ''r'' then
       (if length (rv_Samples (m_R msg)) \<noteq> 0 then
          (if \<not> validateSampleInfohashesResponseMessage msg then None
           else call_if_set regs OnSampleInfohashesResponse)
        else if length (rv_Token (m_R msg)) \<noteq> 0 then
          (if \<not> validateGetPeersResponseMessage msg then None
           else call_if_set regs OnGetPeersResponse)
        else if length (rv_Nodes (m_R msg)) \<noteq> 0 \<or> length (rv_Nodes6 (m_R msg)) \<noteq> 0 then
          (if \<not> validateFindNodeResponseMessage msg then None
           else call_if_set regs OnFindNodeResponse)
        else
          (if \<not> validatePingORannouncePeerResponseMessage msg then None
           else call_if_set regs OnPingORAnnouncePeerResponse))
     else None)"

section \<open>Messages the client builds\<close>

definition zero_args :: QueryArguments where
  "zero_args = \<lparr>qa_ID = [], qa_InfoHash = [], qa_Target = [], qa_Token = [], qa_Port = 0,
     qa_ImpliedPort = 0, qa_Seed = 0, qa_NoSeed = 0, qa_Scrape = 0, qa_Want = []\<rparr>"

definition zero_response :: ResponseValues where
  "zero_response = \<lparr>rv_ID = [], rv_Nodes = [], rv_Nodes6 = [], rv_Token = [], rv_Values = [],
     rv_Interval = 0, rv_Num = 0, rv_Samples = [], rv_Samples2 = [], rv_BFsd = None, rv_BFpe = None\<rparr>"

definition zero_message :: Message where
  "zero_message = \<lparr>m_Q = [], m_A = zero_args, m_T = [], m_Y = [], m_R = zero_response,
     m_E = \<lparr>ke_Code = 0, ke_Message = []\<rparr>\<rparr>"

text \<open>The transaction id \<open>[]byte("aa")\<close>.\<close>

definition aa :: bytes where
  "aa = [97, 97]"

definition NewFindNodeQuery :: "bytes \<Rightarrow> bytes \<Rightarrow> string list \<Rightarrow> Message" where
  "NewFindNodeQuery nid target want = zero_message\<lparr>m_Y := ''q'', m_T := aa, m_Q := ''find_node'',
     m_A := zero_args\<lparr>qa_ID := nid, qa_Target := target, qa_Want := want\<rparr>\<rparr>"

definition NewGetPeersQuery :: "bytes \<Rightarrow> bytes \<Rightarrow> string list \<Rightarrow> Message" where
  "NewGetPeersQuery nid infoHash want = zero_message\<lparr>m_Y := ''q'', m_T := aa, m_Q := ''get_peers'',
     m_A := zero_args\<lparr>qa_ID := nid, qa_InfoHash := infoHash, qa_Want := want\<rparr>\<rparr>"

definition NewSampleInfohashesQuery :: "bytes \<Rightarrow> bytes \<Rightarrow> bytes \<Rightarrow> string list \<Rightarrow> Message" where
  "NewSampleInfohashesQuery nid t target want =
    zero_message\<lparr>m_Y := ''q'', m_T := t, m_Q := ''sample_infohashes'',
      m_A := zero_args\<lparr>qa_ID := nid, qa_Target := target, qa_Want := want\<rparr>\<rparr>"

definition NewSampleInfohashesResponse ::
  "bytes \<Rightarrow> bytes \<Rightarrow> int \<Rightarrow> CompactNodeInfos \<Rightarrow> CompactNodeInfos \<Rightarrow> int \<Rightarrow> bytes \<Rightarrow> Message" where
  "NewSampleInfohashesResponse t nid interval nodes nodes6 num samples =
    zero_message\<lparr>m_Y := ''r'', m_T := t,
      m_R := zero_response\<lparr>rv_ID := nid, rv_Interval := interval, rv_Nodes := nodes,
               rv_Nodes6 := nodes6, rv_Num := num, rv_Samples := samples\<rparr>\<rparr>"

definition NewNodeResponse :: "bytes \<Rightarrow> bytes \<Rightarrow> CompactNodeInfos \<Rightarrow> CompactNodeInfos \<Rightarrow> Message" where
  "NewNodeResponse t nid nodes nodes6 = zero_message\<lparr>m_Y := ''r'', m_T := t,
     m_R := zero_response\<lparr>rv_ID := nid, rv_Nodes := nodes, rv_Nodes6 := nodes6\<rparr>\<rparr>"

definition NewGetPeersResponse ::
  "bytes \<Rightarrow> bytes \<Rightarrow> bytes \<Rightarrow> CompactNodeInfos \<Rightarrow> CompactNodeInfos \<Rightarrow> Message" where
  "NewGetPeersResponse t nid token nodes nodes6 = zero_message\<lparr>m_Y := ''r'', m_T := t,
     m_R := zero_response\<lparr>rv_ID := nid, rv_Token := token, rv_Nodes := nodes, rv_Nodes6 := nodes6\<rparr>\<rparr>"

definition NewBasicResponse :: "bytes \<Rightarrow> bytes \<Rightarrow> Message" where
  "NewBasicResponse t nid = zero_message\<lparr>m_Y := ''r'', m_T := t, m_R := zero_response\<lparr>rv_ID := nid\<rparr>\<rparr>"

lemmas message_defs = zero_args_def zero_response_def zero_message_def NewFindNodeQuery_def
  NewGetPeersQuery_def NewSampleInfohashesQuery_def NewSampleInfohashesResponse_def
  NewNodeResponse_def NewGetPeersResponse_def NewBasicResponse_def

section \<open>The protocol's state\<close>

record Protocol =
  previousTokenSecret :: bytes
  currentTokenSecret :: bytes
  started :: bool

text \<open>
  \<open>NewProtocol\<close>: \<open>secret\<close> are the bytes \<open>rand.Read\<close> puts into the current secret (its failure
  ends the process); both slices have 20 bytes.
\<close>

definition NewProtocol :: "bytes \<Rightarrow> Protocol" where
  "NewProtocol secret =
    (let cur = go_copy (replicate 20 0) secret
     in \<lparr>previousTokenSecret = go_copy (replicate 20 0) cur, currentTokenSecret = cur, started = False\<rparr>)"

text \<open>Starting twice is a programmer error that panics.\<close>

definition Protocol_Start :: "Protocol \<Rightarrow> Protocol option" where
  "Protocol_Start p = (if started p then None else Some (p\<lparr>started := True\<rparr>))"

definition Protocol_Terminate :: "Protocol \<Rightarrow> Protocol" where
  "Protocol_Terminate p = (if \<not> started p then p else p\<lparr>started := False\<rparr>)"

text \<open>\<open>write\<close> is the transport's \<open>WriteMessages\<close>: it tells whether the packet was queued.\<close>

definition SendMessage :: "(Message \<Rightarrow> AddrPort \<Rightarrow> bool) \<Rightarrow> Protocol \<Rightarrow> Message \<Rightarrow> AddrPort \<Rightarrow> bool" where
  "SendMessage write p msg addr = (if \<not> started p then False else write msg addr)"

definition CalculateToken :: "Protocol \<Rightarrow> Addr \<Rightarrow> bytes" where
  "CalculateToken p address = sha1_Sum (currentTokenSecret p @ AsSlice address)"

definition VerifyToken :: "Protocol \<Rightarrow> Addr \<Rightarrow> bytes \<Rightarrow> bool" where
  "VerifyToken p address token =
    (if sha1_Sum (currentTokenSecret p @ AsSlice address) = token then True
     else sha1_Sum (previousTokenSecret p @ AsSlice address) = token)"

text \<open>One tick of \<open>updateTokenSecret\<close>, with the fresh random bytes.\<close>

definition updateTokenSecret :: "bytes \<Rightarrow> Protocol \<Rightarrow> Protocol" where
  "updateTokenSecret fresh p =
    p\<lparr>previousTokenSecret := go_copy (previousTokenSecret p) (currentTokenSecret p),
      currentTokenSecret := go_copy (currentTokenSecret p) fresh\<rparr>"

definition token_wf :: "Protocol \<Rightarrow> bool" where
  "token_wf p \<longleftrightarrow> length (previousTokenSecret p) = 20 \<and> length (currentTokenSecret p) = 20"

lemma token_wf_New [simp]: "token_wf (NewProtocol secret)"
  by (simp add: token_wf_def NewProtocol_def Let_def)

lemma token_wf_update [inv_keep]: "token_wf p \<Longrightarrow> token_wf (updateTokenSecret fresh p)"
  by (simp add: token_wf_def updateTokenSecret_def)

interpretation tokens: step_system "\<lambda>p fresh. updateTokenSecret fresh p" token_wf
  by unfold_locales (rule token_wf_update)

section \<open>What a handler may rely on\<close>

text \<open>
  The contract between the protocol and its client: the shape of the message each handler
  is called with.
\<close>

fun handler_pre :: "handler \<Rightarrow> Message \<Rightarrow> bool" where
  "handler_pre OnPingQuery msg \<longleftrightarrow> m_Y msg = ''q'' \<and> length (qa_ID (m_A msg)) = 20"
| "handler_pre OnFindNodeQuery msg \<longleftrightarrow>
     m_Y msg = ''q'' \<and> length (qa_ID (m_A msg)) = 20 \<and> length (qa_Target (m_A msg)) = 20"
| "handler_pre OnGetPeersQuery msg \<longleftrightarrow>
     m_Y msg = ''q'' \<and> length (qa_ID (m_A msg)) = 20 \<and> length (qa_InfoHash (m_A msg)) \<in> {20, 32}"
| "handler_pre OnAnnouncePeerQuery msg \<longleftrightarrow>
     m_Y msg = ''q'' \<and> length (qa_ID (m_A msg)) = 20 \<and> length (qa_InfoHash (m_A msg)) \<in> {20, 32}
     \<and> qa_Port (m_A msg) > 0 \<and> qa_Token (m_A msg) \<noteq> []"
| "handler_pre OnSampleInfohashesQuery msg \<longleftrightarrow>
     m_Y msg = ''q'' \<and> length (qa_ID (m_A msg)) = 20 \<and> length (qa_Target (m_A msg)) = 20"
| "handler_pre OnPingORAnnouncePeerResponse msg \<longleftrightarrow>
     m_Y msg = ''r'' \<and> length (rv_ID (m_R msg)) = 20 \<and> rv_Samples (m_R msg) = []
     \<and> rv_Token (m_R msg) = [] \<and> rv_Nodes (m_R msg) = [] \<and> rv_Nodes6 (m_R msg) = []"
| "handler_pre OnFindNodeResponse msg \<longleftrightarrow>
     m_Y msg = ''r'' \<and> length (rv_ID (m_R msg)) = 20 \<and> rv_Samples (m_R msg) = []
     \<and> rv_Token (m_R msg) = [] \<and> (rv_Nodes (m_R msg) \<noteq> [] \<or> rv_Nodes6 (m_R msg) \<noteq> [])"
| "handler_pre OnGetPeersResponse msg \<longleftrightarrow>
     m_Y msg = ''r'' \<and> length (rv_ID (m_R msg)) = 20 \<and> rv_Samples (m_R msg) = []
     \<and> rv_Token (m_R msg) \<noteq> []
     \<and> (rv_Values (m_R msg) \<noteq> [] \<or> rv_Nodes (m_R msg) \<noteq> [] \<or> rv_Nodes6 (m_R msg) \<noteq> [])"
| "handler_pre OnSampleInfohashesResponse msg \<longleftrightarrow>
     m_Y msg = ''r'' \<and> length (rv_ID (m_R msg)) = 20 \<and> rv_Samples (m_R msg) \<noteq> []
     \<and> 20 dvd length (rv_Samples (m_R msg)) \<and> 0 \<le> rv_Interval (m_R msg) \<and> 0 \<le> rv_Num (m_R msg)
     \<and> (\<forall>s \<in> set (rv_Samples2 (m_R msg)). length s = 32)"

fun handler_method :: "handler \<Rightarrow> string option" where
  "handler_method OnPingQuery = Some ''ping''"
| "handler_method OnFindNodeQuery = Some ''find_node''"
| "handler_method OnGetPeersQuery = Some ''get_peers''"
| "handler_method OnAnnouncePeerQuery = Some ''announce_peer''"
| "handler_method OnSampleInfohashesQuery = Some ''sample_infohashes''"
| "handler_method _ = None"

lemma onMessage_query:
  assumes "m_Y msg = ''q''"
  shows "onMessage regs msg = Some h \<longleftrightarrow> regs h \<and> handler_method h = Some (m_Q msg) \<and> handler_pre h msg"
  using assms
  by (cases h) (auto simp: onMessage_def validate_defs call_if_set_def split: if_splits)

lemma onMessage_response:
  assumes "m_Y msg = ''r''"
  shows "onMessage regs msg = Some h \<longleftrightarrow> regs h \<and> handler_method h = None \<and> handler_pre h msg"
  using assms
  by (cases h) (auto simp: onMessage_def validate_defs call_if_set_def list_all_iff
      dvd_eq_mod_eq_0 split: if_splits)

lemma handler_pre_Y: "handler_pre h msg \<Longrightarrow> m_Y msg = (if handler_method h = None then ''r'' else ''q'')"
  by (cases h) auto

lemma onMessage_other: "m_Y msg \<noteq> ''q'' \<Longrightarrow> m_Y msg \<noteq> ''r'' \<Longrightarrow> onMessage regs msg = None"
  by (simp add: onMessage_def)

section \<open>Properties\<close>

text \<open>C20. Dispatch is exact: a handler is called if and only if it is registered, the
  message has the handler's method (a query) or none (a response), and the message meets
  the handler's contract; in particular never two of the response handlers for one
  message, and no handler for an error or an unknown type or method.\<close>

theorem onMessage_iff:
  "onMessage regs msg = Some h \<longleftrightarrow>
     regs h \<and> handler_pre h msg \<and> (m_Y msg = ''r'' \<or> handler_method h = Some (m_Q msg))"
proof -
  consider (q) "m_Y msg = ''q''" | (r) "m_Y msg = ''r''" | (other) "m_Y msg \<noteq> ''q''" "m_Y msg \<noteq> ''r''"
    by blast
  then show ?thesis
  proof cases
    case q
    then show ?thesis using onMessage_query [OF q, of regs h] by auto
  next
    case r
    then show ?thesis using onMessage_response [OF r, of regs h] handler_pre_Y [of h msg] by auto
  next
    case other
    then show ?thesis using onMessage_other [OF other, of regs] handler_pre_Y [of h msg] by auto
  qed
qed

text \<open>Two nodes running this client understand each other: every query one builds
  reaches the other's handler for it, a find_node or get_peers reply with nodes reaches
  the response handler, and a get_peers reply of a node that knows no node is dropped. A
  sample_infohashes reply is the exception: without samples (this client never has any) it
  is taken for a find_node reply, or for a ping reply when it has no nodes either.\<close>

theorem own_messages_dispatch:
  assumes "length nid = 20" and "length target = 20" and "length ih \<in> {20, 32}" and "token \<noteq> []"
  shows "onMessage (\<lambda>_. True) (NewFindNodeQuery nid target want) = Some OnFindNodeQuery
    \<and> onMessage (\<lambda>_. True) (NewGetPeersQuery nid ih want) = Some OnGetPeersQuery
    \<and> onMessage (\<lambda>_. True) (NewSampleInfohashesQuery nid t target want) = Some OnSampleInfohashesQuery
    \<and> onMessage (\<lambda>_. True) (NewNodeResponse t nid n4 n6) =
      Some (if n4 = [] \<and> n6 = [] then OnPingORAnnouncePeerResponse else OnFindNodeResponse)
    \<and> onMessage (\<lambda>_. True) (NewGetPeersResponse t nid token n4 n6) =
      (if n4 = [] \<and> n6 = [] then None else Some OnGetPeersResponse)
    \<and> onMessage (\<lambda>_. True) (NewBasicResponse t nid) = Some OnPingORAnnouncePeerResponse
    \<and> onMessage (\<lambda>_. True) (NewSampleInfohashesResponse t nid iv n4 n6 num []) =
      Some (if n4 = [] \<and> n6 = [] then OnPingORAnnouncePeerResponse else OnFindNodeResponse)"
  using assms by (auto simp: onMessage_def call_if_set_def validate_defs message_defs)

theorem own_messages_dispatch_witness:
  "onMessage (\<lambda>_. True) (NewGetPeersQuery (replicate 20 0) (replicate 32 1) [''n4'']) = Some OnGetPeersQuery"
  using own_messages_dispatch [of "replicate 20 0" "replicate 20 0" "replicate 32 1" "[0]" "[''n4'']"]
  by simp

text \<open>C30. A token lives through one rotation of the secrets and no longer: the token
  handed to an address verifies for that address now and after one rotation, and after two
  rotations what verifies depends only on the two fresh secrets, whatever the old ones
  were.\<close>

theorem token_lifetime:
  assumes "token_wf p" and "length f = 20" and "length g = 20"
  shows "VerifyToken p a (CalculateToken p a)
    \<and> VerifyToken (updateTokenSecret f p) a (CalculateToken p a)
    \<and> (VerifyToken (updateTokenSecret g (updateTokenSecret f p)) a tok \<longleftrightarrow>
           tok = sha1_Sum (f @ AsSlice a) \<or> tok = sha1_Sum (g @ AsSlice a))"
  using assms
  by (auto simp: VerifyToken_def CalculateToken_def updateTokenSecret_def token_wf_def)

theorem token_lifetime_witness:
  "VerifyToken (updateTokenSecret (replicate 20 7) (NewProtocol (replicate 20 1))) (IP4 5)
     (CalculateToken (NewProtocol (replicate 20 1)) (IP4 5))"
  using token_lifetime [of "NewProtocol (replicate 20 1)" "replicate 20 7" "replicate 20 7"]
  by simp

end
