(* ===== verification/Request_Table.thy ===== *)
theory Request_Table
  imports Prelude "HOL-Library.AList"
begin

text \<open>
  The table of outstanding \<open>get_peers\<close> requests of \<open>dhtc-client/indexingService.go\<close>: the
  fields of \<open>IndexingService\<close> behind \<open>requestsMu\<close>, their expiry, the choice of a free
  two-byte transaction id, and the reservation and release of a request. The record is
  extended by the service in the theory of the service. The Go map \<open>getPeersRequests\<close> is an
  association list: its order stands for the order in which a \<open>range\<close> loop happens to visit
  the map.
\<close>

section \<open>State\<close>

record getPeersEntry =
  infoHash :: bytes
  createdAt :: instant

definition maxPendingGetPeersRequests :: nat where
  "maxPendingGetPeersRequests = 8192"

definition getPeersRequestTimeout :: duration where
  "getPeersRequestTimeout = 15 * Second"

definition maxPendingRequestsPerInfoHash :: "8 word" where
  "maxPendingRequestsPerInfoHash = 2"

type_synonym requests = "(bytes \<times> getPeersEntry) list"

record RequestTable =
  counter :: uint16
  getPeersRequests :: requests
  pendingInfoHashes :: "bytes \<rightharpoonup> 8 word"
  nextRequestExpiry :: instant
  requestsRejected :: uint64
  requestsDeduped :: uint64
  requestsSendDropped :: uint64

text \<open>Reading a missing key of a Go map of \<open>uint8\<close> gives 0.\<close>

definition pending_of :: "'a RequestTable_scheme \<Rightarrow> bytes \<Rightarrow> 8 word" where
  "pending_of s h = (case pendingInfoHashes s h of None \<Rightarrow> 0 | Some n \<Rightarrow> n)"

definition uint16BE :: "uint16 \<Rightarrow> bytes" where
  "uint16BE v = [ucast (drop_bit 8 v), ucast v]"

section \<open>Operations\<close>

definition removeGetPeersRequestLocked ::
  "bytes \<Rightarrow> getPeersEntry \<Rightarrow> 'a RequestTable_scheme \<Rightarrow> 'a RequestTable_scheme" where
  "removeGetPeersRequestLocked t entry s =
    (let s1 = s\<lparr>getPeersRequests := AList.delete t (getPeersRequests s)\<rparr>;
         hashKey = infoHash entry;
         count = pending_of s1 hashKey
     in if count \<le> 1 then s1\<lparr>pendingInfoHashes := (pendingInfoHashes s1)(hashKey := None)\<rparr>
        else s1\<lparr>pendingInfoHashes := (pendingInfoHashes s1)(hashKey \<mapsto> count - 1)\<rparr>)"

text \<open>The loop of \<open>expireOldGetPeersRequestsLocked\<close> over the entries of the map.\<close>

fun expire_entries ::
  "instant \<Rightarrow> requests \<Rightarrow> instant \<Rightarrow> 'a RequestTable_scheme \<Rightarrow> instant \<times> 'a RequestTable_scheme" where
  "expire_entries cutoff [] nextExpiry s = (nextExpiry, s)"
| "expire_entries cutoff ((t, entry) # es) nextExpiry s =
     (if \<not> (createdAt entry > cutoff)
      then expire_entries cutoff es nextExpiry (removeGetPeersRequestLocked t entry s)
      else
        let expiresAt = createdAt entry + getPeersRequestTimeout in
        expire_entries cutoff es
          (if IsZero nextExpiry \<or> expiresAt < nextExpiry then expiresAt else nextExpiry) s)"

definition expireOldGetPeersRequestsLocked ::
  "instant \<Rightarrow> 'a RequestTable_scheme \<Rightarrow> 'a RequestTable_scheme" where
  "expireOldGetPeersRequestsLocked now s =
    (if \<not> IsZero (nextRequestExpiry s) \<and> now < nextRequestExpiry s then s
     else
       let cutoff = now - getPeersRequestTimeout;
           (nextExpiry, s') = expire_entries cutoff (getPeersRequests s) 0 s
       in s'\<lparr>nextRequestExpiry := nextExpiry\<rparr>)"

text \<open>
  The loop that looks for a free transaction id. It stops at an id that is not in the map,
  or whose entry has expired; on a map that holds all 65536 ids it would not return.
\<close>

partial_function (option) free_transaction ::
  "instant \<Rightarrow> requests \<Rightarrow> uint16 \<Rightarrow> (bytes \<times> uint16) option" where
  "free_transaction now reqs c =
    (case map_of reqs (uint16BE c) of
       None \<Rightarrow> Some (uint16BE c, c + 1)
     | Some entry \<Rightarrow>
         if now - createdAt entry \<ge> getPeersRequestTimeout then Some (uint16BE c, c + 1)
         else free_transaction now reqs (c + 1))"

text \<open>
  The part of \<open>requestPeers\<close> under the lock: it answers whether the request is a duplicate,
  is refused because the table is full, or is registered under a transaction id.
\<close>

datatype reservation = Duplicate | Full | Reserved bytes

definition reserve_request ::
  "instant \<Rightarrow> bytes \<Rightarrow> 'a RequestTable_scheme \<Rightarrow> (reservation \<times> 'a RequestTable_scheme) option" where
  "reserve_request now hashKey s0 =
    (let s = expireOldGetPeersRequestsLocked now s0 in
     if pending_of s hashKey \<ge> maxPendingRequestsPerInfoHash
     then Some (Duplicate, s\<lparr>requestsDeduped := requestsDeduped s + 1\<rparr>)
     else if length (getPeersRequests s) \<ge> maxPendingGetPeersRequests
     then Some (Full, s\<lparr>requestsRejected := requestsRejected s + 1\<rparr>)
     else case free_transaction now (getPeersRequests s) (counter s) of
       None \<Rightarrow> None
     | Some (t, c) \<Rightarrow>
         let s1 = s\<lparr>counter := c,
                    getPeersRequests := AList.update t \<lparr>infoHash = hashKey, createdAt = now\<rparr> (getPeersRequests s),
                    pendingInfoHashes := (pendingInfoHashes s)(hashKey \<mapsto> pending_of s hashKey + 1)\<rparr>;
             expiresAt = now + getPeersRequestTimeout
         in Some (Reserved t,
              if IsZero (nextRequestExpiry s1) \<or> expiresAt < nextRequestExpiry s1
              then s1\<lparr>nextRequestExpiry := expiresAt\<rparr> else s1))"

text \<open>The part of \<open>requestPeers\<close> after a failed send.\<close>

definition drop_request :: "bytes \<Rightarrow> 'a RequestTable_scheme \<Rightarrow> 'a RequestTable_scheme" where
  "drop_request t s =
    (let s1 = (case map_of (getPeersRequests s) t of
                 Some entry \<Rightarrow> removeGetPeersRequestLocked t entry s
               | None \<Rightarrow> s)
     in s1\<lparr>requestsSendDropped := requestsSendDropped s1 + 1\<rparr>)"

text \<open>The part of \<open>onGetPeersResponse\<close> under the lock: \<open>t\<close> is the reply's transaction id.\<close>

definition take_request ::
  "bytes \<Rightarrow> 'a RequestTable_scheme \<Rightarrow> getPeersEntry option \<times> 'a RequestTable_scheme" where
  "take_request t s =
    (case map_of (getPeersRequests s) t of
       Some entry \<Rightarrow> (Some entry, removeGetPeersRequestLocked t entry s)
     | None \<Rightarrow> (None, s))"

definition pendingGetPeersRequests :: "instant \<Rightarrow> 'a RequestTable_scheme \<Rightarrow> nat \<times> 'a RequestTable_scheme" where
  "pendingGetPeersRequests now s =
    (let s' = expireOldGetPeersRequestsLocked now s in (length (getPeersRequests s'), s'))"

section \<open>Transaction ids\<close>

lemma uint16BE_word_be: "uint16BE v = word_be 2 v"
proof -
  have "unat (ucast (drop_bit 8 v) :: byte) = unat (of_nat (unat v div 256 mod 256) :: byte)"
    by (simp add: unsigned_ucast_eq take_bit_eq_mod drop_bit_eq_div unat_div unat_of_nat)
  moreover have "unat (ucast v :: byte) = unat (of_nat (unat v mod 256) :: byte)"
    by (simp add: unsigned_ucast_eq take_bit_eq_mod unat_of_nat)
  ultimately show ?thesis
    unfolding uint16BE_def word_be_def by (simp add: numeral_2_eq_2 word_unat_eq_iff)
qed

lemma length_uint16BE [simp]: "length (uint16BE v) = 2"
  by (simp add: uint16BE_def)

lemma be_word_uint16BE: "be_word (uint16BE v) = v"
  unfolding uint16BE_word_be by (rule be_word_word_be) simp

lemma uint16BE_inject [simp]: "uint16BE v = uint16BE w \<longleftrightarrow> v = w"
  by (metis be_word_uint16BE)

section \<open>Invariant\<close>

text \<open>
  The counters of \<open>pendingInfoHashes\<close> are exactly the numbers of outstanding requests per
  hash, at most two; the table holds at most 8192 requests under distinct two-byte ids; and
  \<open>nextRequestExpiry\<close> is set when there is a request and not later than the expiry of any.
\<close>

definition hash_count :: "bytes \<Rightarrow> requests \<Rightarrow> nat" where
  "hash_count h reqs = length (filter (\<lambda>(t, e). infoHash e = h) reqs)"

definition rq_core :: "'a RequestTable_scheme \<Rightarrow> bool" where
  "rq_core s \<longleftrightarrow>
    distinct (map fst (getPeersRequests s))
    \<and> (\<forall>(t, e) \<in> set (getPeersRequests s). length t = 2 \<and> 0 < createdAt e)
    \<and> length (getPeersRequests s) \<le> maxPendingGetPeersRequests
    \<and> (\<forall>h. hash_count h (getPeersRequests s) \<le> 2
          \<and> pendingInfoHashes s h = (if hash_count h (getPeersRequests s) = 0 then None
                                     else Some (of_nat (hash_count h (getPeersRequests s)))))"

definition rq_inv :: "'a RequestTable_scheme \<Rightarrow> bool" where
  "rq_inv s \<longleftrightarrow> rq_core s
    \<and> (\<forall>(t, e) \<in> set (getPeersRequests s).
         nextRequestExpiry s \<noteq> 0 \<and> nextRequestExpiry s \<le> createdAt e + getPeersRequestTimeout)"

lemma timeout_pos [simp]: "0 < getPeersRequestTimeout"
  by (simp add: getPeersRequestTimeout_def duration_defs)

lemma hash_count_simps [simp]:
  "hash_count h [] = 0"
  "hash_count h ((t, e) # reqs) = (if infoHash e = h then 1 else 0) + hash_count h reqs"
  "hash_count h (xs @ ys) = hash_count h xs + hash_count h ys"
  by (auto simp: hash_count_def)

lemma delete_split:
  assumes "distinct (map fst reqs)" and "(t, e) \<in> set reqs"
  shows "\<exists>xs ys. reqs = xs @ (t, e) # ys \<and> AList.delete t reqs = xs @ ys"
proof -
  obtain xs ys where reqs: "reqs = xs @ (t, e) # ys" using split_list [OF assms(2)] by blast
  then have "t \<notin> fst ` set xs" "t \<notin> fst ` set ys" using assms(1) by auto
  moreover have "AList.delete t reqs = AList.delete t xs @ AList.delete t ys"
    by (simp add: reqs AList.delete_eq)
  ultimately show ?thesis using reqs by auto
qed

lemma pending_of_core:
  "rq_core s \<Longrightarrow> pending_of s h = of_nat (hash_count h (getPeersRequests s))"
  by (simp add: rq_core_def pending_of_def)

lemma count_le_2: "rq_core s \<Longrightarrow> hash_count h (getPeersRequests s) \<le> 2"
  by (simp add: rq_core_def)

lemma getPeersRequests_remove [simp]:
  "getPeersRequests (removeGetPeersRequestLocked t e s) = AList.delete t (getPeersRequests s)"
  by (simp add: removeGetPeersRequestLocked_def Let_def)

lemma remove_frame [simp]:
  "counter (removeGetPeersRequestLocked t e s) = counter s"
  "nextRequestExpiry (removeGetPeersRequestLocked t e s) = nextRequestExpiry s"
  "requestsRejected (removeGetPeersRequestLocked t e s) = requestsRejected s"
  "requestsDeduped (removeGetPeersRequestLocked t e s) = requestsDeduped s"
  "requestsSendDropped (removeGetPeersRequestLocked t e s) = requestsSendDropped s"
  "RequestTable.more (removeGetPeersRequestLocked t e s) = RequestTable.more s"
  by (simp_all add: removeGetPeersRequestLocked_def Let_def)

lemma small_counts: "(n :: nat) \<le> 2 \<Longrightarrow> n = 0 \<or> n = 1 \<or> n = 2"
  by auto

lemma remove_core [inv_keep]:
  assumes "rq_core s" and "(t, e) \<in> set (getPeersRequests s)"
  shows "rq_core (removeGetPeersRequestLocked t e s)"
proof -
  let ?s = "removeGetPeersRequestLocked t e s"
  obtain xs ys where sp: "getPeersRequests s = xs @ (t, e) # ys"
      "AList.delete t (getPeersRequests s) = xs @ ys"
    using delete_split [of "getPeersRequests s" t e] assms by (auto simp: rq_core_def)
  have cnt: "hash_count h (xs @ ys) = hash_count h (getPeersRequests s) - (if infoHash e = h then 1 else 0)"
      "infoHash e = h \<Longrightarrow> hash_count h (getPeersRequests s) \<noteq> 0" for h
    by (simp_all add: sp)
  have pend: "pendingInfoHashes ?s h = (if hash_count h (xs @ ys) = 0 then None
      else Some (of_nat (hash_count h (xs @ ys))))" for h
  proof (cases "h = infoHash e")
    case False
    then have "pendingInfoHashes ?s h = pendingInfoHashes s h"
      by (simp add: removeGetPeersRequestLocked_def Let_def)
    then show ?thesis using assms(1) cnt(1) [of h] False by (simp add: rq_core_def)
  next
    case True
    have two: "\<not> (2 :: 8 word) \<le> 1" by (simp add: word_le_nat_alt)
    have n: "hash_count h (getPeersRequests s) = 1 \<or> hash_count h (getPeersRequests s) = 2"
      using small_counts [OF count_le_2 [OF assms(1), of h]] cnt(2) [of h] True by auto
    then show ?thesis
      using cnt(1) [of h] pending_of_core [OF assms(1), of h] True
      by (auto simp: removeGetPeersRequestLocked_def Let_def pending_of_def two)
  qed
  have le: "hash_count h xs + hash_count h ys \<le> 2" for h
    using cnt(1) [of h] count_le_2 [OF assms(1), of h] by auto
  show ?thesis
    using assms(1) pend
    unfolding rq_core_def getPeersRequests_remove sp(2)
    by (auto simp: sp(1) le)
qed

section \<open>Expiry\<close>

definition fresh_at :: "instant \<Rightarrow> requests \<Rightarrow> requests" where
  "fresh_at now reqs = filter (\<lambda>(t, e). now < createdAt e + getPeersRequestTimeout) reqs"

lemma core_key_unique:
  "rq_core s \<Longrightarrow> (t, e) \<in> set (getPeersRequests s) \<Longrightarrow> (t, e') \<in> set (getPeersRequests s) \<Longrightarrow> e = e'"
  by (auto simp: rq_core_def dest: eq_key_imp_eq_value)

lemma expire_entries_core:
  assumes "rq_core s" and "set es \<subseteq> set (getPeersRequests s)" and "distinct (map fst es)"
    and "expire_entries cutoff es n s = (n', s')"
  shows "rq_core s' \<and> getPeersRequests s'
      = filter (\<lambda>(t, e). \<not> ((t, e) \<in> set es \<and> createdAt e \<le> cutoff)) (getPeersRequests s)
    \<and> counter s' = counter s \<and> RequestTable.more s' = RequestTable.more s"
  using assms
proof (induction cutoff es n s rule: expire_entries.induct)
  case (1 cutoff n s)
  then show ?case by simp
next
  case (2 cutoff t e es n s)
  show ?case
  proof (cases "createdAt e > cutoff")
    case True
    with 2 show ?thesis
      by (auto simp: Let_def intro!: filter_cong)
  next
    case False
    let ?r = "removeGetPeersRequestLocked t e s"
    have te: "(t, e) \<in> set (getPeersRequests s)" using "2.prems"(2) by simp
    have "set es \<subseteq> set (getPeersRequests ?r)"
      using "2.prems"(2,3) by (force simp: AList.delete_eq)
    then have IH: "rq_core s' \<and> getPeersRequests s'
        = filter (\<lambda>(t, e). \<not> ((t, e) \<in> set es \<and> createdAt e \<le> cutoff)) (AList.delete t (getPeersRequests s))
      \<and> counter s' = counter s \<and> RequestTable.more s' = RequestTable.more s"
      using "2.IH"(1) [OF False remove_core [OF "2.prems"(1) te]] "2.prems"(3,4) False by simp
    have "filter (\<lambda>(t, e). \<not> ((t, e) \<in> set es \<and> createdAt e \<le> cutoff)) (AList.delete t (getPeersRequests s))
      = filter (\<lambda>(t', e'). \<not> ((t', e') \<in> set ((t, e) # es) \<and> createdAt e' \<le> cutoff)) (getPeersRequests s)"
      unfolding AList.delete_eq filter_filter
      using core_key_unique [OF "2.prems"(1) te] False "2.prems"(3)
      by (intro filter_cong) force+
    with IH show ?thesis by simp
  qed
qed

lemma expire_entries_next:
  assumes "\<forall>(t, e) \<in> set es. 0 < createdAt e" and "0 \<le> n" and "expire_entries cutoff es n s = (n', s')"
  shows "0 \<le> n' \<and> (n \<noteq> 0 \<longrightarrow> n' \<noteq> 0 \<and> n' \<le> n)
    \<and> (\<forall>(t, e) \<in> set es. createdAt e > cutoff \<longrightarrow> n' \<noteq> 0 \<and> n' \<le> createdAt e + getPeersRequestTimeout)"
  using assms
proof (induction cutoff es n s rule: expire_entries.induct)
  case (1 cutoff n s)
  then show ?case by simp
next
  case (2 cutoff t e es n s)
  show ?case
  proof (cases "createdAt e > cutoff")
    case False
    with 2 show ?thesis by auto
  next
    case True
    let ?x = "createdAt e + getPeersRequestTimeout"
    let ?n = "if IsZero n \<or> ?x < n then ?x else n"
    have x: "0 < ?x" using "2.prems"(1) timeout_pos by (simp add: add_pos_pos)
    then have n: "0 \<le> ?n" "?n \<noteq> 0" "?n \<le> ?x" "n \<noteq> 0 \<longrightarrow> ?n \<le> n"
      using "2.prems"(2) by auto
    have "0 \<le> n' \<and> (?n \<noteq> 0 \<longrightarrow> n' \<noteq> 0 \<and> n' \<le> ?n)
      \<and> (\<forall>(t, e) \<in> set es. createdAt e > cutoff \<longrightarrow> n' \<noteq> 0 \<and> n' \<le> createdAt e + getPeersRequestTimeout)"
      using "2.IH"(2) [of ?x] True "2.prems" n(1) by (simp add: Let_def split del: if_split)
    with n show ?thesis by auto
  qed
qed

lemma expire_exact:
  assumes "rq_inv s"
  shows "rq_inv (expireOldGetPeersRequestsLocked now s)
    \<and> getPeersRequests (expireOldGetPeersRequestsLocked now s) = fresh_at now (getPeersRequests s)
    \<and> counter (expireOldGetPeersRequestsLocked now s) = counter s
    \<and> RequestTable.more (expireOldGetPeersRequestsLocked now s) = RequestTable.more s"
proof (cases "nextRequestExpiry s \<noteq> 0 \<and> now < nextRequestExpiry s")
  case True
  then have "fresh_at now (getPeersRequests s) = getPeersRequests s"
    using assms by (force simp: rq_inv_def fresh_at_def filter_id_conv)
  then show ?thesis
    using True assms by (simp add: expireOldGetPeersRequestsLocked_def)
next
  case False
  let ?c = "now - getPeersRequestTimeout"
  obtain n s' where e: "expire_entries ?c (getPeersRequests s) 0 s = (n, s')" by force
  have core: "rq_core s" using assms by (simp add: rq_inv_def)
  have pos: "\<forall>(t, e) \<in> set (getPeersRequests s). 0 < createdAt e"
    using core by (auto simp: rq_core_def)
  have dist: "distinct (map fst (getPeersRequests s))" using core by (simp add: rq_core_def)
  have s': "rq_core s'" "getPeersRequests s' = fresh_at now (getPeersRequests s)"
      "counter s' = counter s" "RequestTable.more s' = RequestTable.more s"
    using expire_entries_core [OF core order_refl dist e]
    by (auto simp: fresh_at_def intro!: filter_cong)
  have "n \<noteq> 0 \<and> n \<le> createdAt e + getPeersRequestTimeout"
    if "(t, e) \<in> set (fresh_at now (getPeersRequests s))" for t e
    using expire_entries_next [OF pos _ e] that by (auto simp: fresh_at_def)
  then have "rq_inv (s'\<lparr>nextRequestExpiry := n\<rparr>)"
    using s' by (auto simp: rq_inv_def rq_core_def)
  then show ?thesis
    using False s' e by (auto simp: expireOldGetPeersRequestsLocked_def Let_def)
qed

lemma length_fresh_at: "length (fresh_at now reqs) \<le> length reqs"
  by (simp add: fresh_at_def)

section \<open>Finding a free transaction id\<close>

definition id_free :: "instant \<Rightarrow> requests \<Rightarrow> uint16 \<Rightarrow> bool" where
  "id_free now reqs c = (case map_of reqs (uint16BE c) of
     None \<Rightarrow> True | Some e \<Rightarrow> now - createdAt e \<ge> getPeersRequestTimeout)"

lemma free_transaction_step:
  "free_transaction now reqs c =
    (if id_free now reqs c then Some (uint16BE c, c + 1) else free_transaction now reqs (c + 1))"
  by (subst free_transaction.simps) (simp add: id_free_def split: option.splits)

lemma free_transaction_steps:
  "\<forall>k < n. \<not> id_free now reqs (c + of_nat k) \<Longrightarrow>
   free_transaction now reqs c = free_transaction now reqs (c + of_nat n)"
proof (induction n)
  case 0
  show ?case by simp
next
  case (Suc n)
  then have "free_transaction now reqs c = free_transaction now reqs (c + of_nat n)" by simp
  also have "\<dots> = free_transaction now reqs (c + of_nat n + 1)"
    using Suc.prems by (subst free_transaction_step) simp
  finally show ?case by (simp add: ac_simps)
qed

lemma some_id_free:
  assumes "length reqs < 65536"
  shows "\<exists>n \<le> length reqs. id_free now reqs (c + of_nat n)"
proof (rule ccontr)
  assume A: "\<not> ?thesis"
  let ?f = "\<lambda>n. uint16BE (c + of_nat n)"
  have "inj_on ?f {..length reqs}"
  proof (rule inj_onI)
    fix x y assume "x \<in> {..length reqs}" "y \<in> {..length reqs}" and eq: "?f x = ?f y"
    then have xy: "x < 65536" "y < 65536" using assms by auto
    from eq have "unat (of_nat x :: uint16) = unat (of_nat y :: uint16)" by simp
    with xy show "x = y" by (simp add: unat_of_nat)
  qed
  moreover have "?f ` {..length reqs} \<subseteq> fst ` set reqs"
  proof (rule image_subsetI)
    fix n assume "n \<in> {..length reqs}"
    with A have "\<not> id_free now reqs (c + of_nat n)" by simp
    then have "map_of reqs (?f n) \<noteq> None" by (auto simp: id_free_def split: option.splits)
    then show "?f n \<in> fst ` set reqs" by (simp add: map_of_eq_None_iff)
  qed
  ultimately have "card {..length reqs} \<le> card (fst ` set reqs)"
    by (intro card_inj_on_le) auto
  also have "\<dots> \<le> length reqs"
    by (metis card_length length_map set_map)
  finally show False by simp
qed

lemma free_transaction_ends:
  assumes "length reqs < 65536"
  shows "\<exists>n \<le> length reqs. free_transaction now reqs c
      = Some (uint16BE (c + of_nat n), c + of_nat n + 1)
    \<and> id_free now reqs (c + of_nat n) \<and> (\<forall>k < n. \<not> id_free now reqs (c + of_nat k))"
proof -
  define n where "n = (LEAST n. id_free now reqs (c + of_nat n))"
  obtain m where m: "m \<le> length reqs" "id_free now reqs (c + of_nat m)"
    using some_id_free [OF assms] by blast
  have n: "id_free now reqs (c + of_nat n)" "\<forall>k < n. \<not> id_free now reqs (c + of_nat k)" "n \<le> m"
    unfolding n_def using LeastI [of "\<lambda>n. id_free now reqs (c + of_nat n)", OF m(2)]
      Least_le [of "\<lambda>n. id_free now reqs (c + of_nat n)", OF m(2)]
    by (auto dest: not_less_Least)
  have "free_transaction now reqs c = Some (uint16BE (c + of_nat n), c + of_nat n + 1)"
    using free_transaction_steps [OF n(2)] n(1) by (simp add: free_transaction_step [of _ _ "c + of_nat n"])
  with n m(1) show ?thesis by (meson le_trans)
qed

section \<open>Reserving, dropping and taking a request\<close>

lemma alist_update_new: "k \<notin> fst ` set al \<Longrightarrow> AList.update k v al = al @ [(k, v)]"
  by (induction al) auto

lemma fresh_not_expired:
  "(t, e) \<in> set (fresh_at now reqs) \<Longrightarrow> \<not> now - createdAt e \<ge> getPeersRequestTimeout"
  by (auto simp: fresh_at_def)

lemma id_free_fresh:
  "id_free now (fresh_at now reqs) c \<longleftrightarrow> uint16BE c \<notin> fst ` set (fresh_at now reqs)"
proof (cases "map_of (fresh_at now reqs) (uint16BE c)")
  case None
  then show ?thesis
    using map_of_eq_None_iff [of "fresh_at now reqs" "uint16BE c"] by (simp add: id_free_def)
next
  case (Some e)
  then have m: "(uint16BE c, e) \<in> set (fresh_at now reqs)" by (rule map_of_SomeD)
  with Some fresh_not_expired [OF m] show ?thesis by (force simp: id_free_def)
qed

lemma core_length: "rq_core s \<Longrightarrow> length (getPeersRequests s) < 65536"
  by (simp add: rq_core_def maxPendingGetPeersRequests_def)

text \<open>Everything \<open>reserve_request\<close> can do, on a table that meets the invariant.\<close>

lemma reserve_cases:
  assumes inv: "rq_inv s" and now: "0 < now"
  obtains (dup) s' where "reserve_request now h s = Some (Duplicate, s')" "rq_inv s'"
      "hash_count h (fresh_at now (getPeersRequests s)) = 2"
      "getPeersRequests s' = fresh_at now (getPeersRequests s)"
      "RequestTable.more s' = RequestTable.more s"
  | (full) s' where "reserve_request now h s = Some (Full, s')" "rq_inv s'"
      "hash_count h (fresh_at now (getPeersRequests s)) < 2"
      "length (fresh_at now (getPeersRequests s)) = maxPendingGetPeersRequests"
      "getPeersRequests s' = fresh_at now (getPeersRequests s)"
      "RequestTable.more s' = RequestTable.more s"
  | (res) t s' where "reserve_request now h s = Some (Reserved t, s')" "rq_inv s'"
      "hash_count h (fresh_at now (getPeersRequests s)) < 2"
      "length (fresh_at now (getPeersRequests s)) < maxPendingGetPeersRequests"
      "t \<notin> fst ` set (fresh_at now (getPeersRequests s))" "length t = 2"
      "getPeersRequests s' = fresh_at now (getPeersRequests s) @ [(t, \<lparr>infoHash = h, createdAt = now\<rparr>)]"
      "RequestTable.more s' = RequestTable.more s"
proof -
  define x where "x = expireOldGetPeersRequestsLocked now s"
  have x: "rq_inv x" "rq_core x" "getPeersRequests x = fresh_at now (getPeersRequests s)"
      "RequestTable.more x = RequestTable.more s"
    using expire_exact [OF inv, of now] by (auto simp: x_def rq_inv_def)
  let ?n = "hash_count h (getPeersRequests x)"
  have n: "?n \<le> 2" and p: "pending_of x h = of_nat ?n"
    using count_le_2 [OF x(2)] pending_of_core [OF x(2)] by auto
  have ge: "pending_of x h \<ge> maxPendingRequestsPerInfoHash \<longleftrightarrow> ?n = 2"
    using small_counts [OF n] p by (auto simp: maxPendingRequestsPerInfoHash_def word_le_nat_alt)
  have le: "length (getPeersRequests x) \<le> maxPendingGetPeersRequests"
    using x(2) by (simp add: rq_core_def)
  note R = reserve_request_def [of now h s, folded x_def, unfolded Let_def]
  consider "?n = 2" | "?n < 2" "length (getPeersRequests x) = maxPendingGetPeersRequests"
    | "?n < 2" "length (getPeersRequests x) < maxPendingGetPeersRequests"
    using n le by linarith
  then show thesis
  proof cases
    case 1
    then have "reserve_request now h s = Some (Duplicate, x\<lparr>requestsDeduped := requestsDeduped x + 1\<rparr>)"
      using ge by (simp add: R)
    moreover have "rq_inv (x\<lparr>requestsDeduped := requestsDeduped x + 1\<rparr>)"
      using x(1) by (simp add: rq_inv_def rq_core_def)
    ultimately show thesis using dup x 1 by simp
  next
    case 2
    then have "reserve_request now h s = Some (Full, x\<lparr>requestsRejected := requestsRejected x + 1\<rparr>)"
      using ge by (simp add: R)
    moreover have "rq_inv (x\<lparr>requestsRejected := requestsRejected x + 1\<rparr>)"
      using x(1) by (simp add: rq_inv_def rq_core_def)
    ultimately show thesis using full x 2 by simp
  next
    case 3
    obtain t c where tc: "free_transaction now (getPeersRequests x) (counter x) = Some (t, c)"
        "length t = 2" "t \<notin> fst ` set (getPeersRequests x)"
      using free_transaction_ends [OF core_length [OF x(2)], of now "counter x"]
      unfolding x(3) id_free_fresh by auto
    let ?e = "\<lparr>infoHash = h, createdAt = now\<rparr>"
    let ?s1 = "x\<lparr>counter := c, getPeersRequests := getPeersRequests x @ [(t, ?e)],
        pendingInfoHashes := (pendingInfoHashes x)(h \<mapsto> pending_of x h + 1)\<rparr>"
    let ?ex = "now + getPeersRequestTimeout"
    let ?s' = "if IsZero (nextRequestExpiry x) \<or> ?ex < nextRequestExpiry x
        then ?s1\<lparr>nextRequestExpiry := ?ex\<rparr> else ?s1"
    have r: "reserve_request now h s = Some (Reserved t, ?s')"
      using 3 ge tc by (simp add: R alist_update_new)
    have core1: "rq_core (?s1\<lparr>nextRequestExpiry := z\<rparr>)" for z
      using x(2) tc now 3 p by (auto simp: rq_core_def)
    have core: "rq_core ?s'" using core1 [of "nextRequestExpiry x"] core1 [of ?ex] by (simp add: rq_core_def)
    have "?ex \<noteq> 0" using now timeout_pos by linarith
    then have "rq_inv ?s'"
      using core x(1) by (auto simp: rq_inv_def)
    then show thesis using res [OF r] 3 tc x by auto
  qed
qed

lemma remove_inv [inv_keep]:
  "rq_inv s \<Longrightarrow> (t, e) \<in> set (getPeersRequests s) \<Longrightarrow> rq_inv (removeGetPeersRequestLocked t e s)"
  by (auto simp: rq_inv_def remove_core AList.delete_eq)

lemma drop_inv [inv_keep]: "rq_inv s \<Longrightarrow> rq_inv (drop_request t s)"
  using remove_inv [of s t]
  by (auto simp: drop_request_def Let_def rq_inv_def rq_core_def split: option.splits dest!: map_of_SomeD)

lemma take_inv [inv_keep]: "rq_inv s \<Longrightarrow> rq_inv (snd (take_request t s))"
  by (auto simp: take_request_def split: option.splits intro: remove_inv dest: map_of_SomeD)

lemma expire_inv [inv_keep]: "rq_inv s \<Longrightarrow> rq_inv (expireOldGetPeersRequestsLocked now s)"
  using expire_exact by blast

lemma reserve_inv [inv_keep]:
  "rq_inv s \<Longrightarrow> 0 < now \<Longrightarrow> reserve_request now h s = Some (r, s') \<Longrightarrow> rq_inv s'"
  by (erule (1) reserve_cases [where h = h]) auto

lemma more_frame [simp]:
  "RequestTable.more (drop_request t s) = RequestTable.more s"
  "RequestTable.more (snd (take_request t s)) = RequestTable.more s"
  by (auto simp: drop_request_def take_request_def Let_def split: option.splits)

lemma map_of_append_new: "k \<notin> fst ` set xs \<Longrightarrow> map_of (xs @ [(k, v)]) k = Some v"
  using map_of_eq_None_iff [of xs k] by (simp add: map_add_def)

lemma delete_append_new: "k \<notin> fst ` set xs \<Longrightarrow> AList.delete k (xs @ [(k, v)]) = xs"
  by (force simp: AList.delete_eq filter_id_conv)

definition empty_table :: RequestTable where
  "empty_table = \<lparr>counter = 0, getPeersRequests = [], pendingInfoHashes = Map.empty,
     nextRequestExpiry = 0, requestsRejected = 0, requestsDeduped = 0, requestsSendDropped = 0\<rparr>"

lemma rq_inv_empty [simp]: "rq_inv empty_table"
  by (simp add: rq_inv_def rq_core_def empty_table_def hash_count_def)

text \<open>A table with one request, of the hash \<open>[7]\<close> made at instant 1.\<close>

definition one_request :: RequestTable where
  "one_request = empty_table\<lparr>getPeersRequests := [([0, 0], \<lparr>infoHash = [7], createdAt = 1\<rparr>)],
     pendingInfoHashes := [[7] \<mapsto> 1], nextRequestExpiry := 1 + getPeersRequestTimeout\<rparr>"

lemma rq_inv_one_request: "rq_inv one_request"
  by (auto simp: rq_inv_def rq_core_def one_request_def empty_table_def maxPendingGetPeersRequests_def
      getPeersRequestTimeout_def duration_defs)

lemma reserve_Reserved:
  assumes "rq_inv s" and "0 < now" and "reserve_request now h s = Some (Reserved t, s')"
  shows "rq_inv s'" and "t \<notin> fst ` set (fresh_at now (getPeersRequests s))" and "length t = 2"
    and "getPeersRequests s' = fresh_at now (getPeersRequests s) @ [(t, \<lparr>infoHash = h, createdAt = now\<rparr>)]"
  by (atomize (full)) (rule reserve_cases [OF assms(1,2), of h]; use assms(3) in simp)

section \<open>Properties\<close>

text \<open>Expiry is exact in spite of its shortcut: whether or not \<open>nextRequestExpiry\<close> lets it
  return at once, the requests left are those younger than the timeout of 15 seconds, in
  their order, and the per-hash counters are again the numbers of requests left.\<close>

theorem expiry_exact:
  assumes "rq_inv s"
  shows "getPeersRequests (expireOldGetPeersRequestsLocked now s)
      = filter (\<lambda>(t, e). now - createdAt e < getPeersRequestTimeout) (getPeersRequests s)
    \<and> (\<forall>h. pending_of (expireOldGetPeersRequestsLocked now s) h
        = of_nat (hash_count h (getPeersRequests (expireOldGetPeersRequestsLocked now s))))
    \<and> rq_inv (expireOldGetPeersRequestsLocked now s)"
proof -
  have inv: "rq_inv (expireOldGetPeersRequestsLocked now s)" using assms by (rule expire_inv)
  then have "rq_core (expireOldGetPeersRequestsLocked now s)" by (simp add: rq_inv_def)
  then have "\<forall>h. pending_of (expireOldGetPeersRequestsLocked now s) h
      = of_nat (hash_count h (getPeersRequests (expireOldGetPeersRequestsLocked now s)))"
    using pending_of_core by blast
  moreover have "getPeersRequests (expireOldGetPeersRequestsLocked now s)
      = filter (\<lambda>(t, e). now - createdAt e < getPeersRequestTimeout) (getPeersRequests s)"
    using expire_exact [OF assms, of now] by (auto simp: fresh_at_def intro!: filter_cong)
  ultimately show ?thesis using inv by blast
qed

theorem expiry_exact_witness:
  "getPeersRequests (expireOldGetPeersRequestsLocked (1 + 14 * Second) one_request) \<noteq> []
   \<and> getPeersRequests (expireOldGetPeersRequestsLocked (1 + 15 * Second) one_request) = []"
  using expiry_exact [OF rq_inv_one_request, of "1 + 14 * Second"]
    expiry_exact [OF rq_inv_one_request, of "1 + 15 * Second"]
  by (simp add: getPeersRequestTimeout_def duration_defs one_request_def)

text \<open>C31. Asking for peers always comes to an end, and as documented: a hash with two
  outstanding requests is a duplicate, a table of 8192 requests refuses, and otherwise the
  request is registered under a two-byte id no outstanding request uses: the search for
  that id ends, though the id counter wraps around at 65536.\<close>

theorem reserve_request_total:
  assumes "rq_inv s" and "0 < now"
  shows "\<exists>r s'. reserve_request now h s = Some (r, s') \<and> rq_inv s'
    \<and> (let reqs = filter (\<lambda>(t, e). now < createdAt e + getPeersRequestTimeout) (getPeersRequests s) in
       (case r of
         Duplicate \<Rightarrow> hash_count h reqs = 2 \<and> getPeersRequests s' = reqs
       | Full \<Rightarrow> length reqs = 8192 \<and> getPeersRequests s' = reqs
       | Reserved t \<Rightarrow> length t = 2 \<and> t \<notin> fst ` set reqs \<and> hash_count h reqs < 2
           \<and> length reqs < 8192
           \<and> getPeersRequests s' = reqs @ [(t, \<lparr>infoHash = h, createdAt = now\<rparr>)]))"
  using reserve_cases [OF assms, of h]
  by cases (auto simp: Let_def maxPendingGetPeersRequests_def simp flip: fresh_at_def)

theorem reserve_request_total_witness:
  "\<exists>r s'. reserve_request 1 [7] empty_table = Some (r, s') \<and> rq_inv s'"
  using reserve_request_total [of empty_table 1 "[7]"] by fastforce

text \<open>A request whose packet could not be queued leaves no trace but its count: dropping
  it right after it was registered gives the table as it was after expiry, and the hash's
  counter is the one it had; a reply with its id, on the other hand, finds exactly the
  hash that was asked for, once.\<close>

theorem reserve_then_drop_or_take:
  assumes "rq_inv s" and "0 < now" and "reserve_request now h s = Some (Reserved t, s')"
  shows "getPeersRequests (drop_request t s') = fresh_at now (getPeersRequests s)
    \<and> pendingInfoHashes (drop_request t s') h' = pendingInfoHashes (expireOldGetPeersRequestsLocked now s) h'
    \<and> fst (take_request t s') = Some \<lparr>infoHash = h, createdAt = now\<rparr>
    \<and> fst (take_request t (snd (take_request t s'))) = None"
proof -
  have s': "rq_inv s'" "t \<notin> fst ` set (fresh_at now (getPeersRequests s))"
    "getPeersRequests s' = fresh_at now (getPeersRequests s) @ [(t, \<lparr>infoHash = h, createdAt = now\<rparr>)]"
    using reserve_Reserved [OF assms] by blast+
  have m: "map_of (getPeersRequests s') t = Some \<lparr>infoHash = h, createdAt = now\<rparr>"
    unfolding s'(3) by (rule map_of_append_new [OF s'(2)])
  have d: "AList.delete t (getPeersRequests s') = fresh_at now (getPeersRequests s)"
    unfolding s'(3) by (rule delete_append_new [OF s'(2)])
  have reqs: "getPeersRequests (drop_request t s') = fresh_at now (getPeersRequests s)"
    using m d by (simp add: drop_request_def)
  have "rq_core (drop_request t s')" "rq_core (expireOldGetPeersRequestsLocked now s)"
    using drop_inv [OF s'(1)] expire_inv [OF assms(1)] by (auto simp: rq_inv_def)
  then have "pendingInfoHashes (drop_request t s') h'
      = pendingInfoHashes (expireOldGetPeersRequestsLocked now s) h'"
    using reqs expire_exact [OF assms(1), of now] by (simp add: rq_core_def)
  moreover have "map_of (fresh_at now (getPeersRequests s)) t = None"
    using s'(2) by (simp add: map_of_eq_None_iff)
  ultimately show ?thesis
    using reqs m d by (simp add: take_request_def)
qed

theorem reserve_then_drop_or_take_witness:
  "\<exists>t s'. reserve_request 1 [7] empty_table = Some (Reserved t, s')
     \<and> fst (take_request t s') = Some \<lparr>infoHash = [7], createdAt = 1\<rparr>"
proof -
  have e: "expireOldGetPeersRequestsLocked 1 empty_table = empty_table"
    by (simp add: expireOldGetPeersRequestsLocked_def empty_table_def)
  have "\<exists>t s'. reserve_request 1 [7] empty_table = Some (Reserved t, s')"
    by (simp add: reserve_request_def e)
      (simp add: empty_table_def pending_of_def maxPendingRequestsPerInfoHash_def
        maxPendingGetPeersRequests_def free_transaction_step id_free_def)
  then show ?thesis
    using reserve_then_drop_or_take [of empty_table 1 "[7]"] by force
qed

end
