(* ===== verification/Indexing_Service.thy ===== *)
theory Indexing_Service
  imports Routing_Table Protocol Request_Table
begin

text \<open>
  The message handlers of \<open>dhtc-client/indexingService.go\<close>: the service that keeps the
  routing table, answers queries, asks for samples and peers, and reports what it finds.
  One record holds the fields of the Go struct, the request table included; what the
  service does to the outside (packets queued, results and candidates reported) is
  appended to lists of the same record. The clock, the random source and the transport's
  answer to each packet come from an environment that is read once per call, in order.
\<close>

section \<open>State and environment\<close>

record IndexingResult =
  ir_infoHash :: bytes
  ir_peerAddrs :: "AddrPort list"
  ir_family :: nat

record IndexingService = RequestTable +
  protocol :: Protocol
  network :: string
  want :: "string list"
  interval :: duration
  is_done :: bool
  nodeID :: bytes
  routingTable :: RoutingTable
  probeCache :: "(Addr \<times> instant) list"
  has_OnResult :: bool
  has_OnBootstrapCandidate :: bool
  is_sent :: "(Message \<times> AddrPort) list"
  is_results :: "IndexingResult list"
  is_candidates :: "AddrPort list"
  is_tick :: nat

record Env =
  env_clock :: "nat \<Rightarrow> instant"
  env_random :: "nat \<Rightarrow> bytes"
  env_queued :: "nat \<Rightarrow> bool"

text \<open>
  A handler can fail in two ways: a \<open>nil\<close> callback is called, or the search for a free
  transaction id does not end.
\<close>

datatype fault = NilCallback | NoReturn

definition time_now :: "Env \<Rightarrow> IndexingService \<Rightarrow> instant \<times> IndexingService" where
  "time_now env s = (env_clock env (is_tick s), s\<lparr>is_tick := is_tick s + 1\<rparr>)"

text \<open>\<open>target := make([]byte, 20)\<close> filled by \<open>rand.Read\<close>, which does not fail.\<close>

definition rand_target :: "Env \<Rightarrow> IndexingService \<Rightarrow> bytes \<times> IndexingService" where
  "rand_target env s =
    (go_copy (replicate 20 0) (env_random env (is_tick s)), s\<lparr>is_tick := is_tick s + 1\<rparr>)"

definition send :: "Env \<Rightarrow> Message \<Rightarrow> AddrPort \<Rightarrow> IndexingService \<Rightarrow> bool \<times> IndexingService" where
  "send env msg addr s =
    (let ok = SendMessage (\<lambda>_ _. env_queued env (is_tick s)) (protocol s) msg addr
     in (ok, s\<lparr>is_tick := is_tick s + 1,
               is_sent := (if ok then is_sent s @ [(msg, addr)] else is_sent s)\<rparr>))"

text \<open>
  \<open>NewIndexingService\<close>: \<open>secret\<close> and \<open>nid\<close> are the random bytes of the token secret and of
  the node id.
\<close>

definition NewIndexingService ::
  "string \<Rightarrow> duration \<Rightarrow> uint64 \<Rightarrow> bytes \<Rightarrow> bytes \<Rightarrow> bool \<Rightarrow> bool \<Rightarrow> IndexingService" where
  "NewIndexingService net iv maxNeighbors secret nid onResult onCandidate =
    (let nid20 = go_copy (replicate 20 0) nid in
     \<lparr>counter = 0, getPeersRequests = [], pendingInfoHashes = Map.empty, nextRequestExpiry = 0,
      requestsRejected = 0, requestsDeduped = 0, requestsSendDropped = 0,
      protocol = NewProtocol secret, network = net,
      want = (if net = ''udp6'' then [''n6''] else [''n4'']),
      interval = iv, is_done = False, nodeID = nid20,
      routingTable = NewRoutingTable nid20 maxNeighbors, probeCache = [],
      has_OnResult = onResult, has_OnBootstrapCandidate = onCandidate,
      is_sent = [], is_results = [], is_candidates = [], is_tick = 0\<rparr>)"

section \<open>Helpers of the handlers\<close>

definition acceptsAddress :: "string \<Rightarrow> AddrPort \<Rightarrow> bool" where
  "acceptsAddress net addr =
    (if \<not> AddrPort_IsValid addr \<or> AP_Port addr = 0 then False
     else let is4 = Is4 (AP_Addr addr)
          in (net = ''udp4'' \<and> is4) \<or> (net = ''udp6'' \<and> \<not> is4))"

definition addressFamily :: "string \<Rightarrow> nat" where
  "addressFamily net = (if net = ''udp6'' then 6 else 4)"

fun split_response_nodes ::
  "nat \<Rightarrow> routingNode list \<Rightarrow> CompactNodeInfos \<Rightarrow> CompactNodeInfos \<Rightarrow> CompactNodeInfos \<times> CompactNodeInfos" where
  "split_response_nodes limit [] nodes4 nodes6 = (nodes4, nodes6)"
| "split_response_nodes limit (entry # es) nodes4 nodes6 =
     (let node = \<lparr>cni_ID = rn_ID entry, cni_Addr = rn_Addr entry\<rparr>;
          n4 = (if Is4 (AP_Addr (rn_Addr entry)) then nodes4 @ [node] else nodes4);
          n6 = (if Is4 (AP_Addr (rn_Addr entry)) then nodes6 else nodes6 @ [node])
      in if length n4 + length n6 \<ge> limit then (n4, n6) else split_response_nodes limit es n4 n6)"

definition responseNodes ::
  "IndexingService \<Rightarrow> bytes \<Rightarrow> nat \<Rightarrow> CompactNodeInfos \<times> CompactNodeInfos" where
  "responseNodes s target limit =
    split_response_nodes limit (RoutingTable_Closest (routingTable s) target limit) [] []"

definition addNode :: "Env \<Rightarrow> bytes \<Rightarrow> AddrPort \<Rightarrow> IndexingService \<Rightarrow> IndexingService" where
  "addNode env nid addr s =
    (if is_done s then s
     else if \<not> acceptsAddress (network s) addr then s
     else
       let (now, s1) = time_now env s;
           (added, table) = RoutingTable_Add (routingTable s1) nid addr now;
           s2 = s1\<lparr>routingTable := table\<rparr>
       in if \<not> added then s2
          else
            let (target, s3) = rand_target env s2
            in snd (send env (NewSampleInfohashesQuery (nodeID s3) aa target (want s3)) addr s3))"

definition handleDiscoveredNode :: "Env \<Rightarrow> IndexingService \<Rightarrow> CompactNodeInfo \<Rightarrow> IndexingService" where
  "handleDiscoveredNode env s node =
    (if acceptsAddress (network s) (cni_Addr node) then addNode env (cni_ID node) (cni_Addr node) s
     else if network s = ''udp4'' \<and> Is6 (AP_Addr (cni_Addr node)) \<and> has_OnBootstrapCandidate s
     then s\<lparr>is_candidates := is_candidates s @ [cni_Addr node]\<rparr>
     else s)"

section \<open>Queries\<close>

definition onPingQuery :: "Env \<Rightarrow> Message \<Rightarrow> AddrPort \<Rightarrow> IndexingService \<Rightarrow> IndexingService" where
  "onPingQuery env msg addr s =
    (let s1 = addNode env (qa_ID (m_A msg)) addr s
     in snd (send env (NewBasicResponse (m_T msg) (nodeID s1)) addr s1))"

definition onFindNodeQuery :: "Env \<Rightarrow> Message \<Rightarrow> AddrPort \<Rightarrow> IndexingService \<Rightarrow> IndexingService" where
  "onFindNodeQuery env msg addr s =
    (let s1 = addNode env (qa_ID (m_A msg)) addr s;
         (nodes4, nodes6) = responseNodes s1 (qa_Target (m_A msg)) 8
     in snd (send env (NewNodeResponse (m_T msg) (nodeID s1) nodes4 nodes6) addr s1))"

definition onGetPeersQuery :: "Env \<Rightarrow> Message \<Rightarrow> AddrPort \<Rightarrow> IndexingService \<Rightarrow> IndexingService" where
  "onGetPeersQuery env msg addr s =
    (let s1 = addNode env (qa_ID (m_A msg)) addr s;
         (nodes4, nodes6) = responseNodes s1 (qa_InfoHash (m_A msg)) 8;
         token = CalculateToken (protocol s1) (AP_Addr addr)
     in snd (send env (NewGetPeersResponse (m_T msg) (nodeID s1) token nodes4 nodes6) addr s1))"

text \<open>\<open>uint16(msg.A.Port)\<close> keeps the low 16 bits of the port.\<close>

definition onAnnouncePeerQuery :: "Env \<Rightarrow> Message \<Rightarrow> AddrPort \<Rightarrow> IndexingService \<Rightarrow> IndexingService" where
  "onAnnouncePeerQuery env msg addr s =
    (if \<not> VerifyToken (protocol s) (AP_Addr addr) (qa_Token (m_A msg)) then s
     else
       let port = (if qa_ImpliedPort (m_A msg) \<noteq> 0 then AP_Port addr else of_int (qa_Port (m_A msg)));
           peer = AddrPort (AP_Addr addr) port;
           s1 = (if has_OnResult s then
                   s\<lparr>is_results := is_results s @ [\<lparr>ir_infoHash = qa_InfoHash (m_A msg),
                        ir_peerAddrs = [peer], ir_family = addressFamily (network s)\<rparr>]\<rparr>
                 else s)
       in snd (send env (NewBasicResponse (m_T msg) (nodeID s1)) addr s1))"

text \<open>\<open>int(is.interval.Seconds())\<close> truncates towards zero.\<close>

definition onSampleInfohashesQuery :: "Env \<Rightarrow> Message \<Rightarrow> AddrPort \<Rightarrow> IndexingService \<Rightarrow> IndexingService" where
  "onSampleInfohashesQuery env msg addr s =
    (if is_done s then s
     else
       let (nodes4, nodes6) = responseNodes s (qa_Target (m_A msg)) 8
       in snd (send env (NewSampleInfohashesResponse (m_T msg) (nodeID s)
                 (go_div (interval s) Second) nodes4 nodes6 0 []) addr s))"

section \<open>Responses\<close>

definition onFindNodeResponse :: "Env \<Rightarrow> Message \<Rightarrow> AddrPort \<Rightarrow> IndexingService \<Rightarrow> IndexingService" where
  "onFindNodeResponse env response addr s =
    (if is_done s then s
     else
       let s1 = addNode env (rv_ID (m_R response)) addr s;
           s2 = foldl (\<lambda>s node. addNode env (cni_ID node) (cni_Addr node) s) s1 (rv_Nodes (m_R response))
       in foldl (handleDiscoveredNode env) s2 (rv_Nodes6 (m_R response)))"

text \<open>\<open>var t [2]byte; copy(t[:], msg.T)\<close> pads or truncates the transaction id.\<close>

definition onGetPeersResponse ::
  "Env \<Rightarrow> Message \<Rightarrow> AddrPort \<Rightarrow> IndexingService \<Rightarrow> fault + IndexingService" where
  "onGetPeersResponse env msg addr s =
    (if is_done s then Inr s
     else
       let s1 = addNode env (rv_ID (m_R msg)) addr s;
           t = go_copy [0, 0] (m_T msg)
       in case take_request t s1 of
            (None, s2) \<Rightarrow> Inr s2
          | (Some entry, s2) \<Rightarrow>
              if length (rv_Values (m_R msg)) = 0 then Inr s2
              else
                let peerAddrs = map cp_Addr (filter (\<lambda>peer. AddrPort_IsValid (cp_Addr peer)
                                  \<and> AP_Port (cp_Addr peer) \<noteq> 0) (rv_Values (m_R msg)))
                in if \<not> has_OnResult s2 then Inl NilCallback
                   else Inr (s2\<lparr>is_results := is_results s2 @ [\<lparr>ir_infoHash = infoHash entry,
                          ir_peerAddrs = peerAddrs, ir_family = addressFamily (network s2)\<rparr>]\<rparr>))"

definition requestPeers ::
  "Env \<Rightarrow> bytes \<Rightarrow> AddrPort \<Rightarrow> IndexingService \<Rightarrow> fault + (bool \<times> IndexingService)" where
  "requestPeers env ih addr s =
    (if is_done s then Inr (False, s)
     else
       let (now, s1) = time_now env s
       in case reserve_request now ih s1 of
            None \<Rightarrow> Inl NoReturn
          | Some (Duplicate, s2) \<Rightarrow> Inr (False, s2)
          | Some (Full, s2) \<Rightarrow> Inr (False, s2)
          | Some (Reserved t, s2) \<Rightarrow>
              let msg = (NewGetPeersQuery (nodeID s2) ih (want s2))\<lparr>m_T := t\<rparr>;
                  (ok, s3) = send env msg addr s2
              in if \<not> ok then Inr (False, drop_request t s3) else Inr (True, s3))"

definition request_sample ::
  "Env \<Rightarrow> AddrPort \<Rightarrow> IndexingService \<Rightarrow> bytes \<Rightarrow> fault + IndexingService" where
  "request_sample env addr s ih = ebind (requestPeers env ih addr s) (\<lambda>(_, s'). Inr s')"

definition onSampleInfohashesResponse ::
  "Env \<Rightarrow> Message \<Rightarrow> AddrPort \<Rightarrow> IndexingService \<Rightarrow> fault + IndexingService" where
  "onSampleInfohashesResponse env msg addr s =
    (if is_done s then Inr s
     else
       let s1 = addNode env (rv_ID (m_R msg)) addr s;
           samples = rv_Samples (m_R msg);
           hashes = map (go_copy (replicate 20 0)) (chunks 20 (length samples div 20) samples);
           hashes2 = map (go_copy (replicate 32 0)) (rv_Samples2 (m_R msg))
       in ebind (efold (request_sample env addr) s1 hashes) (\<lambda>s2.
          ebind (efold (request_sample env addr) s2 hashes2) (\<lambda>s3.
          let s4 = foldl (\<lambda>s node. addNode env (cni_ID node) (cni_Addr node) s) s3 (rv_Nodes (m_R msg))
          in Inr (foldl (handleDiscoveredNode env) s4 (rv_Nodes6 (m_R msg))))))"

section \<open>Probing, neighbours, housekeeping\<close>

definition probeBootstrapCandidate :: "Env \<Rightarrow> AddrPort \<Rightarrow> IndexingService \<Rightarrow> IndexingService" where
  "probeBootstrapCandidate env addr s =
    (if \<not> acceptsAddress (network s) addr \<or> is_done s then s
     else
       let (seen, s1) = (case map_of (probeCache s) (AP_Addr addr) of
              None \<Rightarrow> (False, s)
            | Some seenAt \<Rightarrow> let (now, s') = time_now env s in (now - seenAt < 10 * Minute, s'))
       in if seen then s1
          else
            let (now, s2) = time_now env s1;
                s3 = s2\<lparr>probeCache := AList.update (AP_Addr addr) now (probeCache s2)\<rparr>;
                (target, s4) = rand_target env s3
            in snd (send env (NewFindNodeQuery (nodeID s4) target (want s4)) addr s4))"

definition pruneProbeCache :: "Env \<Rightarrow> IndexingService \<Rightarrow> IndexingService" where
  "pruneProbeCache env s =
    (let (now, s1) = time_now env s;
         cutoff = now - 10 * Minute
     in s1\<lparr>probeCache := filter (\<lambda>(addr, seenAt). \<not> seenAt < cutoff) (probeCache s1)\<rparr>)"

definition expireOldGetPeersRequests :: "Env \<Rightarrow> IndexingService \<Rightarrow> IndexingService" where
  "expireOldGetPeersRequests env s =
    (let (now, s1) = time_now env s in expireOldGetPeersRequestsLocked now s1)"

text \<open>The addresses are copied before the loop, and \<open>stopped\<close> is looked at before each packet.\<close>

definition findNeighbors :: "Env \<Rightarrow> IndexingService \<Rightarrow> IndexingService" where
  "findNeighbors env s =
    (if is_done s then s
     else foldl (\<lambda>s addr. if is_done s then s
            else let (target, s1) = rand_target env s
                 in snd (send env (NewSampleInfohashesQuery (nodeID s1) aa target (want s1)) addr s1))
          s (map rn_Addr (RoutingTable_Snapshot (routingTable s))))"

text \<open>The dispatch of \<open>Protocol\<close> with the handlers the service registers.\<close>

definition registered :: "handler \<Rightarrow> bool" where
  "registered h \<longleftrightarrow> h \<noteq> OnPingORAnnouncePeerResponse"

definition receive :: "Env \<Rightarrow> Message \<Rightarrow> AddrPort \<Rightarrow> IndexingService \<Rightarrow> fault + IndexingService" where
  "receive env msg addr s =
    (case onMessage registered msg of
       None \<Rightarrow> Inr s
     | Some OnPingQuery \<Rightarrow> Inr (onPingQuery env msg addr s)
     | Some OnFindNodeQuery \<Rightarrow> Inr (onFindNodeQuery env msg addr s)
     | Some OnGetPeersQuery \<Rightarrow> Inr (onGetPeersQuery env msg addr s)
     | Some OnAnnouncePeerQuery \<Rightarrow> Inr (onAnnouncePeerQuery env msg addr s)
     | Some OnFindNodeResponse \<Rightarrow> Inr (onFindNodeResponse env msg addr s)
     | Some OnGetPeersResponse \<Rightarrow> onGetPeersResponse env msg addr s
     | Some OnSampleInfohashesResponse \<Rightarrow> onSampleInfohashesResponse env msg addr s
     | Some OnSampleInfohashesQuery \<Rightarrow> Inr (onSampleInfohashesQuery env msg addr s)
     | Some OnPingORAnnouncePeerResponse \<Rightarrow> Inr s)"

section \<open>Frames\<close>

text \<open>The request table's operations leave the rest of the service alone, and vice versa.\<close>

lemma more_fields:
  assumes "RequestTable.more s' = RequestTable.more (s :: IndexingService)"
  shows "protocol s' = protocol s" "network s' = network s" "want s' = want s" "interval s' = interval s"
    "is_done s' = is_done s" "nodeID s' = nodeID s" "routingTable s' = routingTable s"
    "probeCache s' = probeCache s" "has_OnResult s' = has_OnResult s"
    "has_OnBootstrapCandidate s' = has_OnBootstrapCandidate s" "is_sent s' = is_sent s"
    "is_results s' = is_results s" "is_candidates s' = is_candidates s" "is_tick s' = is_tick s"
  using assms by (cases s; cases s'; simp)+

lemma rq_inv_cong:
  "getPeersRequests s' = getPeersRequests s \<Longrightarrow> pendingInfoHashes s' = pendingInfoHashes s
    \<Longrightarrow> nextRequestExpiry s' = nextRequestExpiry s \<Longrightarrow> rq_inv s' = rq_inv s"
  by (simp add: rq_inv_def rq_core_def)

lemma rq_inv_updates [simp]:
  fixes s :: IndexingService
  shows "rq_inv (s\<lparr>is_tick := n\<rparr>) = rq_inv s" "rq_inv (s\<lparr>routingTable := rt\<rparr>) = rq_inv s"
    "rq_inv (s\<lparr>is_sent := m\<rparr>) = rq_inv s" "rq_inv (s\<lparr>is_results := r\<rparr>) = rq_inv s"
    "rq_inv (s\<lparr>is_candidates := c\<rparr>) = rq_inv s" "rq_inv (s\<lparr>probeCache := p\<rparr>) = rq_inv s"
    "rq_inv (s\<lparr>protocol := q\<rparr>) = rq_inv s" "rq_inv (s\<lparr>is_done := d\<rparr>) = rq_inv s"
  by (rule rq_inv_cong; simp)+

text \<open>
  The service's invariant: the request table's, a well-formed routing table for the own
  id that holds addresses of the service's family only, and token secrets of 20 bytes.
\<close>

definition is_inv :: "IndexingService \<Rightarrow> bool" where
  "is_inv s \<longleftrightarrow>
    rq_inv s \<and> rt_wf (routingTable s) \<and> localID (routingTable s) = nodeID s \<and> length (nodeID s) = 20
    \<and> rt.all_addrs (acceptsAddress (network s)) (routingTable s)
    \<and> token_wf (protocol s) \<and> has_OnResult s"

lemma is_inv_frame:
  assumes "is_inv s" and "rq_inv s'" and "RequestTable.more s' = RequestTable.more s"
  shows "is_inv s'"
  using assms(1,2) by (simp add: is_inv_def more_fields [OF assms(3)])

lemma is_inv_updates [simp]:
  "is_inv (s\<lparr>is_tick := n\<rparr>) = is_inv s" "is_inv (s\<lparr>is_sent := m\<rparr>) = is_inv s"
  "is_inv (s\<lparr>is_results := r\<rparr>) = is_inv s" "is_inv (s\<lparr>is_candidates := c\<rparr>) = is_inv s"
  "is_inv (s\<lparr>probeCache := p\<rparr>) = is_inv s" "is_inv (s\<lparr>is_done := d\<rparr>) = is_inv s"
  by (auto simp: is_inv_def)

lemma is_inv_time_now [simp]: "is_inv (snd (time_now env s)) = is_inv s"
  by (simp add: time_now_def)

lemma is_inv_send [simp]: "is_inv (snd (send env msg addr s)) = is_inv s"
  by (simp add: send_def Let_def)

lemma NewRoutingTable_fields:
  "localID (NewRoutingTable lid mx) = go_copy (replicate 20 0) lid"
  "buckets (NewRoutingTable lid mx) = replicate 160 []"
  by (simp_all add: NewRoutingTable_def Let_def)

lemma NewIndexingService_inv [inv_keep]:
  "is_inv (NewIndexingService net iv mx secret nid True cand)"
  using NewRoutingTable_wf [of "go_copy (replicate 20 0) nid" mx]
  by (simp add: is_inv_def NewIndexingService_def Let_def rq_inv_def rq_core_def rt.all_addrs_def
      Snapshot_concat NewRoutingTable_fields hash_count_def)

section \<open>Handlers keep the invariant\<close>

lemma Add_local: "rt_wf t \<Longrightarrow> localID (snd (RoutingTable_Add t nid addr seen)) = localID t"
  using Add_frame(1) [OF _ prod.collapse [symmetric]] by blast

lemma addNode_cases:
  obtains (skip) "addNode env nid addr s = s" "is_done s \<or> \<not> acceptsAddress (network s) addr"
  | (refused) "\<not> is_done s" "acceptsAddress (network s) addr"
      "\<not> fst (RoutingTable_Add (routingTable s) nid addr (env_clock env (is_tick s)))"
      "addNode env nid addr s = s\<lparr>
         routingTable := snd (RoutingTable_Add (routingTable s) nid addr (env_clock env (is_tick s))),
         is_tick := is_tick s + 1\<rparr>"
  | (added) target where "\<not> is_done s" "acceptsAddress (network s) addr" "length target = 20"
      "fst (RoutingTable_Add (routingTable s) nid addr (env_clock env (is_tick s)))"
      "addNode env nid addr s = snd (send env (NewSampleInfohashesQuery (nodeID s) aa target (want s)) addr
         (s\<lparr>routingTable := snd (RoutingTable_Add (routingTable s) nid addr (env_clock env (is_tick s))),
            is_tick := is_tick s + 2\<rparr>))"
proof (cases "is_done s \<or> \<not> acceptsAddress (network s) addr")
  case True
  then show thesis by (intro skip) (auto simp: addNode_def)
next
  case False
  obtain a rt where add: "RoutingTable_Add (routingTable s) nid addr (env_clock env (is_tick s)) = (a, rt)"
    by force
  show thesis
  proof (cases a)
    case refused': False
    show thesis
      using False refused' add by (intro refused) (auto simp: addNode_def time_now_def Let_def)
  next
    case True
    then show thesis
      using False add
      by (intro added [of "go_copy (replicate 20 0) (env_random env (Suc (is_tick s)))"])
        (auto simp: addNode_def time_now_def rand_target_def Let_def)
  qed
qed

lemma is_inv_routing:
  assumes "is_inv s" and "acceptsAddress (network s) addr"
  shows "is_inv (s\<lparr>routingTable := snd (RoutingTable_Add (routingTable s) nid addr now)\<rparr>)"
  using assms rt.add_wf [of "routingTable s"] rt.all_addrs_add [of "routingTable s"]
  by (simp add: is_inv_def Add_local)

lemma addNode_inv [inv_keep]:
  assumes "is_inv s"
  shows "is_inv (addNode env nid addr s)"
proof (cases rule: addNode_cases [of env nid addr s])
  case skip
  then show ?thesis using assms by simp
next
  case refused
  then show ?thesis using is_inv_routing [OF assms refused(2)] by simp
next
  case (added target)
  then show ?thesis using is_inv_routing [OF assms added(2)] by simp
qed

lemma send_frame [simp]:
  "network (snd (send env msg addr s)) = network s" "is_done (snd (send env msg addr s)) = is_done s"
  "nodeID (snd (send env msg addr s)) = nodeID s" "protocol (snd (send env msg addr s)) = protocol s"
  "routingTable (snd (send env msg addr s)) = routingTable s" "want (snd (send env msg addr s)) = want s"
  "is_results (snd (send env msg addr s)) = is_results s"
  "is_candidates (snd (send env msg addr s)) = is_candidates s"
  "probeCache (snd (send env msg addr s)) = probeCache s"
  "getPeersRequests (snd (send env msg addr s)) = getPeersRequests s"
  "pendingInfoHashes (snd (send env msg addr s)) = pendingInfoHashes s"
  "nextRequestExpiry (snd (send env msg addr s)) = nextRequestExpiry s"
  "has_OnResult (snd (send env msg addr s)) = has_OnResult s"
  by (simp_all add: send_def Let_def)

lemma addNode_frame [simp]:
  "network (addNode env nid addr s) = network s" "is_done (addNode env nid addr s) = is_done s"
  "nodeID (addNode env nid addr s) = nodeID s" "protocol (addNode env nid addr s) = protocol s"
  "is_results (addNode env nid addr s) = is_results s"
  "is_candidates (addNode env nid addr s) = is_candidates s"
  "probeCache (addNode env nid addr s) = probeCache s"
  "getPeersRequests (addNode env nid addr s) = getPeersRequests s"
  "pendingInfoHashes (addNode env nid addr s) = pendingInfoHashes s"
  "nextRequestExpiry (addNode env nid addr s) = nextRequestExpiry s"
  "has_OnResult (addNode env nid addr s) = has_OnResult s"
  by (cases rule: addNode_cases [of env nid addr s]; simp)+

lemma handleDiscoveredNode_inv [inv_keep]: "is_inv s \<Longrightarrow> is_inv (handleDiscoveredNode env s node)"
  by (simp add: handleDiscoveredNode_def addNode_inv)

lemma foldl_inv: "(\<And>s x. is_inv s \<Longrightarrow> is_inv (f s x)) \<Longrightarrow> is_inv s \<Longrightarrow> is_inv (foldl f s xs)"
  by (induction xs arbitrary: s) auto

lemma query_inv [inv_keep]:
  assumes "is_inv s"
  shows "is_inv (onPingQuery env msg addr s)" "is_inv (onFindNodeQuery env msg addr s)"
    "is_inv (onGetPeersQuery env msg addr s)" "is_inv (onAnnouncePeerQuery env msg addr s)"
    "is_inv (onSampleInfohashesQuery env msg addr s)"
  using assms addNode_inv [OF assms]
  by (auto simp: onPingQuery_def onFindNodeQuery_def onGetPeersQuery_def onAnnouncePeerQuery_def
      onSampleInfohashesQuery_def Let_def split: prod.splits)

lemma onFindNodeResponse_inv [inv_keep]: "is_inv s \<Longrightarrow> is_inv (onFindNodeResponse env msg addr s)"
  by (auto simp: onFindNodeResponse_def Let_def intro!: foldl_inv addNode_inv handleDiscoveredNode_inv)

lemma take_request_inv [inv_keep]: "is_inv s \<Longrightarrow> is_inv (snd (take_request t s))"
  by (rule is_inv_frame) (auto simp: is_inv_def intro: take_inv)

lemma take_request_more: "take_request t s = (r, s') \<Longrightarrow> RequestTable.more s' = RequestTable.more s"
  using more_frame(2) [of t s] by simp

lemma onGetPeersResponse_inv [inv_keep]:
  assumes "is_inv s"
  shows "\<exists>s'. onGetPeersResponse env msg addr s = Inr s' \<and> is_inv s'"
proof -
  let ?s1 = "addNode env (rv_ID (m_R msg)) addr s"
  obtain r s2 where t: "take_request (go_copy [0, 0] (m_T msg)) ?s1 = (r, s2)" by force
  have "is_inv s2" using take_request_inv [OF addNode_inv [OF assms]] t by (metis snd_conv)
  then show ?thesis
    using assms t by (auto simp: onGetPeersResponse_def Let_def is_inv_def split: option.splits)
qed

definition admissible_env :: "Env \<Rightarrow> bool" where
  "admissible_env env \<longleftrightarrow> (\<forall>n. 0 < env_clock env n)"

lemma reserve_more:
  "rq_inv s \<Longrightarrow> 0 < now \<Longrightarrow> reserve_request now h s = Some (r, s') \<Longrightarrow> RequestTable.more s' = RequestTable.more s"
  by (rule reserve_cases [of s now h]; simp)

lemma reserve_is_inv:
  assumes "is_inv s" and "0 < now"
  shows "\<exists>r s'. reserve_request now h s = Some (r, s') \<and> is_inv s' \<and> RequestTable.more s' = RequestTable.more s"
proof -
  have rq: "rq_inv s" using assms(1) by (simp add: is_inv_def)
  then obtain r s' where r: "reserve_request now h s = Some (r, s')"
    by (rule reserve_cases [OF _ assms(2), of s h]) auto
  then show ?thesis
    using is_inv_frame [OF assms(1) reserve_inv [OF rq assms(2) r] reserve_more [OF rq assms(2) r]]
      reserve_more [OF rq assms(2) r] by blast
qed

lemma drop_request_inv [inv_keep]: "is_inv s \<Longrightarrow> is_inv (drop_request t s)"
  by (rule is_inv_frame) (auto simp: is_inv_def intro: drop_inv)

lemma requestPeers_inv [inv_keep]:
  assumes "is_inv s" and "admissible_env env"
  shows "\<exists>ok s'. requestPeers env ih addr s = Inr (ok, s') \<and> is_inv s'"
proof (cases "is_done s")
  case True
  then show ?thesis using assms(1) by (auto simp: requestPeers_def)
next
  case False
  obtain now s1 where t: "time_now env s = (now, s1)" by force
  then have s1: "is_inv s1" "0 < now"
    using assms is_inv_time_now [of env s] by (auto simp: time_now_def admissible_env_def)
  from reserve_is_inv [OF this, of ih] obtain r s2
    where r: "reserve_request now ih s1 = Some (r, s2)" "is_inv s2" by blast
  show ?thesis
  proof (cases r)
    case (Reserved tid)
    let ?msg = "(NewGetPeersQuery (nodeID s2) ih (want s2))\<lparr>m_T := tid\<rparr>"
    obtain ok s3 where s3: "send env ?msg addr s2 = (ok, s3)" by force
    then have "is_inv s3" using r(2) is_inv_send [of env ?msg addr s2] by simp
    then show ?thesis
      using False t r Reserved s3 drop_request_inv by (auto simp: requestPeers_def Let_def)
  qed (use False t r in \<open>auto simp: requestPeers_def\<close>)
qed

lemma request_sample_inv:
  "is_inv s \<Longrightarrow> admissible_env env \<Longrightarrow> \<exists>s'. request_sample env addr s ih = Inr s' \<and> is_inv s'"
  using requestPeers_inv [of s env ih addr] by (auto simp: request_sample_def)

interpretation samples: total_step_system "\<lambda>s (env, addr, ih). request_sample env addr s ih" is_inv
  "\<lambda>(env, addr, ih). admissible_env env"
  by unfold_locales (auto dest: request_sample_inv)

lemma efold_map: "efold (\<lambda>s x. f s (g x)) s xs = efold f s (map g xs)"
  by (induction xs arbitrary: s) (auto simp: ebind_def split: sum.splits)

lemma request_samples_inv:
  assumes "is_inv s" and "admissible_env env"
  shows "\<exists>s'. efold (request_sample env addr) s ihs = Inr s' \<and> is_inv s'"
  using samples.erun_total [OF assms(1), of "map (\<lambda>ih. (env, addr, ih)) ihs"] assms(2)
  by (simp flip: efold_map)

lemma onSampleInfohashesResponse_inv [inv_keep]:
  assumes "is_inv s" and "admissible_env env"
  shows "\<exists>s'. onSampleInfohashesResponse env msg addr s = Inr s' \<and> is_inv s'"
proof -
  let ?s1 = "addNode env (rv_ID (m_R msg)) addr s"
  let ?h = "map (go_copy (replicate 20 0)) (chunks 20 (length (rv_Samples (m_R msg)) div 20) (rv_Samples (m_R msg)))"
  obtain s2 where s2: "efold (request_sample env addr) ?s1 ?h = Inr s2" "is_inv s2"
    using request_samples_inv [OF addNode_inv [OF assms(1)] assms(2)] by blast
  obtain s3 where s3: "efold (request_sample env addr) s2
      (map (go_copy (replicate 32 0)) (rv_Samples2 (m_R msg))) = Inr s3" "is_inv s3"
    using request_samples_inv [OF s2(2) assms(2)] by blast
  show ?thesis
    using assms(1) s2 s3
    by (auto simp: onSampleInfohashesResponse_def Let_def intro!: foldl_inv addNode_inv handleDiscoveredNode_inv)
qed

lemma receive_inv [inv_keep]:
  assumes "is_inv s" and "admissible_env env"
  shows "\<exists>s'. receive env msg addr s = Inr s' \<and> is_inv s'"
  using assms query_inv onFindNodeResponse_inv onGetPeersResponse_inv onSampleInfohashesResponse_inv
  by (auto simp: receive_def split: option.splits handler.splits)

lemma probe_inv [inv_keep]: "is_inv s \<Longrightarrow> is_inv (probeBootstrapCandidate env addr s)"
  by (auto simp: probeBootstrapCandidate_def time_now_def rand_target_def Let_def split: option.splits prod.splits)

lemma findNeighbors_inv [inv_keep]: "is_inv s \<Longrightarrow> is_inv (findNeighbors env s)"
  by (auto simp: findNeighbors_def rand_target_def Let_def intro!: foldl_inv)

lemma housekeeping_inv [inv_keep]:
  assumes "is_inv s"
  shows "is_inv (pruneProbeCache env s)" and "is_inv (expireOldGetPeersRequests env s)"
proof -
  show "is_inv (pruneProbeCache env s)"
    using assms by (simp add: pruneProbeCache_def time_now_def Let_def)
  let ?s1 = "s\<lparr>is_tick := is_tick s + 1\<rparr>"
  have inv: "is_inv ?s1" using assms by simp
  then have "rq_inv ?s1" by (simp only: is_inv_def)
  from expire_exact [OF this] show "is_inv (expireOldGetPeersRequests env s)"
    using is_inv_frame [OF inv] by (simp add: expireOldGetPeersRequests_def time_now_def Let_def)
qed

section \<open>The service as a whole\<close>

text \<open>
  Everything that happens to a service: a message arrives, a candidate is probed, the
  parts of a maintenance round run, the token secret is rotated, the service is stopped.
\<close>

datatype is_event =
    Receive Env Message AddrPort
  | Probe Env AddrPort
  | FindNeighbors Env
  | PruneTable Env
  | PruneProbes Env
  | ExpireRequests Env
  | RotateToken bytes
  | StartProtocol
  | Terminate

fun is_step :: "IndexingService \<Rightarrow> is_event \<Rightarrow> fault + IndexingService" where
  "is_step s (Receive env msg addr) = receive env msg addr s"
| "is_step s (Probe env addr) = Inr (probeBootstrapCandidate env addr s)"
| "is_step s (FindNeighbors env) = Inr (findNeighbors env s)"
| "is_step s (PruneTable env) =
     Inr (let (now, s1) = time_now env s
          in s1\<lparr>routingTable := RoutingTable_Prune (routingTable s1) (now - 5 * Minute)\<rparr>)"
| "is_step s (PruneProbes env) = Inr (pruneProbeCache env s)"
| "is_step s (ExpireRequests env) = Inr (expireOldGetPeersRequests env s)"
| "is_step s (RotateToken fresh) = Inr (s\<lparr>protocol := updateTokenSecret fresh (protocol s)\<rparr>)"
| "is_step s StartProtocol =
     Inr (case Protocol_Start (protocol s) of Some p \<Rightarrow> s\<lparr>protocol := p\<rparr> | None \<Rightarrow> s)"
| "is_step s Terminate = Inr (s\<lparr>is_done := True, protocol := Protocol_Terminate (protocol s)\<rparr>)"

fun admissible_event :: "is_event \<Rightarrow> bool" where
  "admissible_event (Receive env msg addr) = admissible_env env"
| "admissible_event _ = True"

lemma Prune_local: "rt_wf t \<Longrightarrow> localID (RoutingTable_Prune t before) = localID t"
  by (simp add: RoutingTable_Prune_def split: prod.splits)

lemma token_wf_started [simp]: "token_wf (p\<lparr>started := b\<rparr>) = token_wf p"
  by (simp add: token_wf_def)

lemma is_step_inv:
  assumes "is_inv s" and "admissible_event e"
  shows "\<exists>s'. is_step s e = Inr s' \<and> is_inv s'"
proof (cases e)
  case (Receive env msg addr)
  then show ?thesis using receive_inv assms by auto
next
  case (PruneTable env)
  then show ?thesis
    using assms(1) rt.prune_wf [of "routingTable s"] rt.all_addrs_prune [of "routingTable s"]
    by (simp add: is_inv_def time_now_def Let_def Prune_local)
next
  case StartProtocol
  then show ?thesis using assms(1) by (auto simp: Protocol_Start_def is_inv_def)
next
  case Terminate
  then show ?thesis using assms(1) by (auto simp: Protocol_Terminate_def is_inv_def)
next
  case (RotateToken fresh)
  then show ?thesis using assms(1) token_wf_update by (auto simp: is_inv_def)
qed (use assms(1) inv_keep in auto)

interpretation service: total_step_system is_step is_inv admissible_event
  by unfold_locales (rule is_step_inv)

section \<open>What the handlers answer\<close>

definition as_node :: "routingNode \<Rightarrow> CompactNodeInfo" where
  "as_node n = \<lparr>cni_ID = rn_ID n, cni_Addr = rn_Addr n\<rparr>"

lemma split_response_nodes_4:
  "\<forall>n \<in> set es. Is4 (AP_Addr (rn_Addr n)) \<Longrightarrow> length es + length n4 + length n6 \<le> limit \<Longrightarrow>
   split_response_nodes limit es n4 n6 = (n4 @ map as_node es, n6)"
  by (induction es arbitrary: n4) (auto simp: Let_def as_node_def simp flip: length_0_conv)

lemma split_response_nodes_6:
  "\<forall>n \<in> set es. \<not> Is4 (AP_Addr (rn_Addr n)) \<Longrightarrow> length es + length n4 + length n6 \<le> limit \<Longrightarrow>
   split_response_nodes limit es n4 n6 = (n4, n6 @ map as_node es)"
  by (induction es arbitrary: n6) (auto simp: Let_def as_node_def simp flip: length_0_conv)

lemma closest_family:
  assumes "is_inv s" and "n \<in> set (RoutingTable_Closest (routingTable s) target k)"
  shows "Is4 (AP_Addr (rn_Addr n)) \<longleftrightarrow> network s = ''udp4''"
proof -
  have "acceptsAddress (network s) (rn_Addr n)"
    using assms rt.all_addrs_closest [of "routingTable s" "acceptsAddress (network s)"]
    by (simp add: is_inv_def)
  then show ?thesis by (auto simp: acceptsAddress_def Let_def split: if_splits)
qed

lemma responseNodes_exact:
  assumes "is_inv s"
  shows "responseNodes s target k =
    (if network s = ''udp4'' then (map as_node (RoutingTable_Closest (routingTable s) target k), [])
     else ([], map as_node (RoutingTable_Closest (routingTable s) target k)))"
  using closest_family [OF assms] rt.closest_limit [of "routingTable s" target k] assms
  by (auto simp: responseNodes_def split_response_nodes_4 split_response_nodes_6 is_inv_def)

lemma send_queued:
  "started (protocol s) \<Longrightarrow> env_queued env (is_tick s) \<Longrightarrow>
   is_sent (snd (send env msg addr s)) = is_sent s @ [(msg, addr)]"
  by (simp add: send_def SendMessage_def)

lemma onGetPeersQuery_sends:
  assumes "is_inv s" and "started (protocol s)" and "\<forall>n. env_queued env n"
  shows "\<exists>nodes4 nodes6. is_sent (onGetPeersQuery env msg addr s)
    = is_sent (addNode env (qa_ID (m_A msg)) addr s)
      @ [(NewGetPeersResponse (m_T msg) (nodeID s) (CalculateToken (protocol s) (AP_Addr addr)) nodes4 nodes6, addr)]"
  using assms by (auto simp: onGetPeersQuery_def Let_def send_queued split: prod.splits)

lemma onGetPeersQuery_protocol [simp]:
  "protocol (onGetPeersQuery env msg addr s) = protocol s"
  "has_OnResult (onGetPeersQuery env msg addr s) = has_OnResult s"
  by (simp_all add: onGetPeersQuery_def Let_def split: prod.splits)

section \<open>Properties\<close>

text \<open>A service never gets stuck and never outgrows its bounds: whatever messages,
  probes, maintenance steps, rotations and stops come in, every handler returns; at most
  8192 requests are outstanding, at most two per info hash, with exact counters; and the
  routing table stays well-formed and holds only usable addresses of the service's own
  address family.\<close>

theorem service_always_runs:
  assumes "\<forall>e \<in> set es. admissible_event e"
  shows "\<exists>s. efold is_step (NewIndexingService net iv mx secret nid True cand) es = Inr s
    \<and> length (getPeersRequests s) \<le> 8192
    \<and> (\<forall>h. hash_count h (getPeersRequests s) \<le> 2
         \<and> pending_of s h = of_nat (hash_count h (getPeersRequests s)))
    \<and> rt_wf (routingTable s)
    \<and> (\<forall>n \<in> set (RoutingTable_Snapshot (routingTable s)). acceptsAddress (network s) (rn_Addr n))"
proof -
  obtain s where s: "efold is_step (NewIndexingService net iv mx secret nid True cand) es = Inr s"
    and inv: "is_inv s"
    using service.erun_total [OF NewIndexingService_inv assms] by blast
  then have core: "rq_core s" by (simp add: is_inv_def rq_inv_def)
  then show ?thesis
    using s inv pending_of_core [OF core]
    by (simp add: rq_core_def maxPendingGetPeersRequests_def is_inv_def rt.all_addrs_def)
qed

definition still_env :: Env where
  "still_env = \<lparr>env_clock = (\<lambda>_. 1), env_random = (\<lambda>_. []), env_queued = (\<lambda>_. True)\<rparr>"

theorem service_always_runs_witness:
  "\<exists>s. efold is_step (NewIndexingService ''udp4'' Second 100 [1] [2] True True)
      [StartProtocol, Receive still_env (NewSampleInfohashesQuery (replicate 20 7) aa (replicate 20 3) [])
         (AddrPort (IP4 9) 4)] = Inr s
    \<and> length (getPeersRequests s) \<le> 8192"
  using service_always_runs [of "[StartProtocol, Receive still_env
      (NewSampleInfohashesQuery (replicate 20 7) aa (replicate 20 3) []) (AddrPort (IP4 9) 4)]"
      "''udp4''" Second 100 "[1]" "[2]" True]
  by (force simp: admissible_env_def still_env_def)

text \<open>C21. Replies are matched to requests: a get_peers reply reports peers for exactly the
  hash that was asked for under the reply's transaction id, only usable peers, and only
  once, since the request is gone afterwards; a reply with an unknown id reports nothing.\<close>

theorem get_peers_reply_matched:
  assumes "is_inv s" and "\<not> is_done s"
  shows "\<exists>s'. onGetPeersResponse env msg addr s = Inr s' \<and>
    (case map_of (getPeersRequests s) (go_copy [0, 0] (m_T msg)) of
       None \<Rightarrow> getPeersRequests s' = getPeersRequests s \<and> is_results s' = is_results s
     | Some entry \<Rightarrow>
         getPeersRequests s' = AList.delete (go_copy [0, 0] (m_T msg)) (getPeersRequests s)
         \<and> is_results s' = is_results s @
             (if rv_Values (m_R msg) = [] then []
              else [\<lparr>ir_infoHash = infoHash entry,
                     ir_peerAddrs = filter (\<lambda>a. AddrPort_IsValid a \<and> AP_Port a \<noteq> 0)
                                      (map cp_Addr (rv_Values (m_R msg))),
                     ir_family = addressFamily (network s)\<rparr>]))"
proof (cases "map_of (getPeersRequests s) (go_copy [0, 0] (m_T msg))")
  case None
  then show ?thesis using assms(2) by (simp add: onGetPeersResponse_def take_request_def Let_def)
next
  case (Some entry)
  let ?t = "go_copy [0, 0] (m_T msg)"
  let ?s1 = "addNode env (rv_ID (m_R msg)) addr s"
  let ?s2 = "removeGetPeersRequestLocked ?t entry ?s1"
  have t: "take_request ?t ?s1 = (Some entry, ?s2)" using Some by (simp add: take_request_def)
  note f = more_fields [OF remove_frame(6) [of ?t entry ?s1]]
  have "has_OnResult s" using assms(1) by (simp add: is_inv_def)
  then show ?thesis
    using assms(2) Some t
    by (auto simp: onGetPeersResponse_def Let_def f filter_map comp_def)
qed

text \<open>A service with one outstanding request, for the hash \<open>[7]\<close> under the id 0.\<close>

definition asking_service :: IndexingService where
  "asking_service = (NewIndexingService ''udp4'' Second 100 [1] [2] True True)
     \<lparr>getPeersRequests := getPeersRequests one_request,
      pendingInfoHashes := pendingInfoHashes one_request,
      nextRequestExpiry := nextRequestExpiry one_request\<rparr>"

lemma asking_service_inv: "is_inv asking_service"
proof (rule is_inv_frame [OF NewIndexingService_inv [of "''udp4''" Second 100 "[1]" "[2]" True]])
  show "rq_inv asking_service"
    using rq_inv_one_request rq_inv_cong [of asking_service one_request]
    by (simp add: asking_service_def)
qed (simp add: asking_service_def)

definition sample_reply :: Message where
  "sample_reply = (NewGetPeersResponse [0] (replicate 20 5) [9] [] [])
     \<lparr>m_R := zero_response\<lparr>rv_ID := replicate 20 5, rv_Token := [9],
        rv_Values := [\<lparr>cp_Addr = AddrPort (IP4 1) 6881\<rparr>, \<lparr>cp_Addr = AddrPort (IP4 1) 0\<rparr>]\<rparr>\<rparr>"

theorem get_peers_reply_matched_witness:
  "\<exists>s'. onGetPeersResponse still_env sample_reply (AddrPort (IP4 9) 4) asking_service = Inr s'
    \<and> getPeersRequests s' = []
    \<and> is_results s' = [\<lparr>ir_infoHash = [7], ir_peerAddrs = [AddrPort (IP4 1) 6881], ir_family = 4\<rparr>]"
proof -
  have nd: "\<not> is_done asking_service" "is_results asking_service = []" "network asking_service = ''udp4''"
    "getPeersRequests asking_service = [([0, 0], \<lparr>infoHash = [7], createdAt = 1\<rparr>)]"
    by (simp_all add: asking_service_def NewIndexingService_def Let_def one_request_def)
  have m: "go_copy [0, 0] (m_T sample_reply) = [0, 0]" "rv_Values (m_R sample_reply)
      = [\<lparr>cp_Addr = AddrPort (IP4 1) 6881\<rparr>, \<lparr>cp_Addr = AddrPort (IP4 1) 0\<rparr>]"
    by (simp_all add: sample_reply_def message_defs go_copy_def)
  from get_peers_reply_matched [OF asking_service_inv nd(1), of still_env sample_reply "AddrPort (IP4 9) 4"]
  show ?thesis
    by (simp add: nd m addressFamily_def AddrPort_IsValid_def Addr_IsValid_def)
qed

text \<open>Asking a node for peers either queues exactly one get_peers packet and registers
  the hash under the packet's transaction id, an id no live request uses, or queues
  nothing and leaves no request behind; in both cases the requests older than 15 seconds
  are gone and the younger ones kept.\<close>

theorem requestPeers_outcome:
  assumes "is_inv s" and "admissible_env env" and "\<not> is_done s"
  defines "now \<equiv> env_clock env (is_tick s)"
  shows "\<exists>ok s'. requestPeers env ih addr s = Inr (ok, s') \<and>
    (if ok then \<exists>t. t \<notin> fst ` set (fresh_at now (getPeersRequests s))
         \<and> is_sent s' = is_sent s @ [((NewGetPeersQuery (nodeID s) ih (want s))\<lparr>m_T := t\<rparr>, addr)]
         \<and> getPeersRequests s' = fresh_at now (getPeersRequests s) @ [(t, \<lparr>infoHash = ih, createdAt = now\<rparr>)]
     else is_sent s' = is_sent s \<and> getPeersRequests s' = fresh_at now (getPeersRequests s))"
proof -
  let ?s1 = "s\<lparr>is_tick := is_tick s + 1\<rparr>"
  have inv: "rq_inv ?s1" using assms(1) by (simp add: is_inv_def)
  have pos: "0 < now" using assms(2) by (simp add: now_def admissible_env_def)
  have tn: "time_now env s = (now, ?s1)" by (simp add: time_now_def now_def)
  show ?thesis
  proof (rule reserve_cases [OF inv pos, of ih])
    fix s' assume r: "reserve_request now ih ?s1 = Some (Duplicate, s')"
      "getPeersRequests s' = fresh_at now (getPeersRequests ?s1)"
      "RequestTable.more s' = RequestTable.more ?s1"
    then have "requestPeers env ih addr s = Inr (False, s')"
      using assms(3) tn by (simp add: requestPeers_def)
    then show ?thesis using r(2) more_fields(11) [OF r(3)] by force
  next
    fix s' assume r: "reserve_request now ih ?s1 = Some (Full, s')"
      "getPeersRequests s' = fresh_at now (getPeersRequests ?s1)"
      "RequestTable.more s' = RequestTable.more ?s1"
    then have "requestPeers env ih addr s = Inr (False, s')"
      using assms(3) tn by (simp add: requestPeers_def)
    then show ?thesis using r(2) more_fields(11) [OF r(3)] by force
  next
    fix t s2 assume r: "reserve_request now ih ?s1 = Some (Reserved t, s2)"
      "t \<notin> fst ` set (fresh_at now (getPeersRequests ?s1))"
      "getPeersRequests s2 = fresh_at now (getPeersRequests ?s1) @ [(t, \<lparr>infoHash = ih, createdAt = now\<rparr>)]"
      "RequestTable.more s2 = RequestTable.more ?s1"
    note f = more_fields [OF r(4)]
    let ?msg = "(NewGetPeersQuery (nodeID s) ih (want s))\<lparr>m_T := t\<rparr>"
    obtain ok s3 where s3: "send env ?msg addr s2 = (ok, s3)" by force
    then have s3': "getPeersRequests s3 = getPeersRequests s2"
      "is_sent s3 = (if ok then is_sent s @ [(?msg, addr)] else is_sent s)"
      using f by (auto simp: send_def Let_def)
    have step: "requestPeers env ih addr s = Inr (if ok then (True, s3) else (False, drop_request t s3))"
      using assms(3) tn r(1) s3 f by (simp add: requestPeers_def Let_def)
    have "getPeersRequests (drop_request t s3) = fresh_at now (getPeersRequests s)"
      using map_of_append_new [OF r(2)] delete_append_new [OF r(2)] s3'(1) r(3)
      by (simp add: drop_request_def)
    moreover have "is_sent (drop_request t s3) = is_sent s3"
      using more_fields(11) [OF more_frame(1)] .
    ultimately show ?thesis
      using step r s3' by (cases ok) auto
  qed
qed

theorem requestPeers_outcome_witness:
  "\<exists>ok s'. requestPeers still_env (replicate 20 4) (AddrPort (IP4 9) 4) asking_service = Inr (ok, s')"
proof -
  have "\<not> is_done asking_service"
    by (simp add: asking_service_def NewIndexingService_def Let_def)
  moreover have "admissible_env still_env" by (simp add: admissible_env_def still_env_def)
  ultimately show ?thesis
    using requestPeers_outcome [OF asking_service_inv, of still_env "replicate 20 4" "AddrPort (IP4 9) 4"]
    by blast
qed

text \<open>Answers to find_node and get_peers carry the table's closest nodes, at most eight,
  and all in the list of the service's own family: an IPv4 service never puts an address
  into \<open>nodes6\<close>, nor an IPv6 service into \<open>nodes\<close>.\<close>

theorem responseNodes_closest:
  assumes "is_inv s"
  shows "responseNodes s target 8 =
      (if network s = ''udp4'' then (map as_node (RoutingTable_Closest (routingTable s) target 8), [])
       else ([], map as_node (RoutingTable_Closest (routingTable s) target 8)))
    \<and> length (fst (responseNodes s target 8)) + length (snd (responseNodes s target 8)) \<le> 8"
  using responseNodes_exact [OF assms, of target 8] rt.closest_limit [of "routingTable s" target 8] assms
  by (simp add: is_inv_def)

theorem responseNodes_closest_witness:
  "snd (responseNodes asking_service [] 8) = []"
  using responseNodes_closest [OF asking_service_inv, of "[]"]
  by (simp add: asking_service_def NewIndexingService_def Let_def)

text \<open>The two-step announce works end to end and only with a token: a peer that asked
  for peers and then announces with the token it was sent, from the same address and at
  most one rotation of the secret later, is reported with its address and the announced
  port (its own source port when it asked for that); with a token that does not verify the
  announce changes nothing.\<close>

theorem announce_after_get_peers:
  assumes "is_inv s" and "started (protocol s)" and "\<forall>n. env_queued env n" and "length fresh = 20"
    and "s1 = onGetPeersQuery env query addr s"
    and "qa_Token (m_A announce) = rv_Token (m_R (fst (last (is_sent s1))))"
    and "AP_Addr addr2 = AP_Addr addr"
    and "s2 = s1 \<or> s2 = s1\<lparr>protocol := updateTokenSecret fresh (protocol s1)\<rparr>"
  shows "is_results (onAnnouncePeerQuery env2 announce addr2 s2) = is_results s2 @
      [\<lparr>ir_infoHash = qa_InfoHash (m_A announce),
        ir_peerAddrs = [AddrPort (AP_Addr addr)
           (if qa_ImpliedPort (m_A announce) \<noteq> 0 then AP_Port addr2 else of_int (qa_Port (m_A announce)))],
        ir_family = addressFamily (network s2)\<rparr>]
    \<and> (\<not> VerifyToken (protocol s3) (AP_Addr a3) (qa_Token (m_A m3)) \<longrightarrow>
         onAnnouncePeerQuery env3 m3 a3 s3 = s3)"
proof -
  have tok: "qa_Token (m_A announce) = CalculateToken (protocol s) (AP_Addr addr)"
    using onGetPeersQuery_sends [OF assms(1-3), of query addr] assms(5,6)
    by (auto simp: message_defs)
  have "protocol s1 = protocol s" "has_OnResult s1" "token_wf (protocol s)"
    using assms(1,5) by (auto simp: is_inv_def)
  then have "VerifyToken (protocol s2) (AP_Addr addr2) (qa_Token (m_A announce))" "has_OnResult s2"
    using assms(4,7,8) tok
    by (auto simp: VerifyToken_def CalculateToken_def updateTokenSecret_def token_wf_def)
  then show ?thesis
    using assms(7) by (auto simp: onAnnouncePeerQuery_def Let_def)
qed

definition running_service :: IndexingService where
  "running_service = asking_service\<lparr>protocol := (protocol asking_service)\<lparr>started := True\<rparr>\<rparr>"

lemma running_service_inv: "is_inv running_service"
  using asking_service_inv by (simp add: running_service_def is_inv_def)

theorem announce_after_get_peers_witness:
  "\<exists>announce s1. s1 = onGetPeersQuery still_env zero_message (AddrPort (IP4 3) 70) running_service
     \<and> ir_peerAddrs (last (is_results (onAnnouncePeerQuery still_env announce (AddrPort (IP4 3) 70) s1)))
       = [AddrPort (IP4 3) 6881]"
proof -
  define s1 where "s1 = onGetPeersQuery still_env zero_message (AddrPort (IP4 3) 70) running_service"
  define a where "a = zero_message\<lparr>m_A := zero_args\<lparr>qa_Port := 6881,
     qa_Token := rv_Token (m_R (fst (last (is_sent s1))))\<rparr>\<rparr>"
  have a: "qa_Token (m_A a) = rv_Token (m_R (fst (last (is_sent s1))))" "qa_Port (m_A a) = 6881"
      "qa_ImpliedPort (m_A a) = 0"
    by (simp_all add: a_def zero_args_def)
  have run: "started (protocol running_service)" "\<forall>n. env_queued still_env n"
    by (simp_all add: running_service_def still_env_def)
  have "is_results (onAnnouncePeerQuery still_env a (AddrPort (IP4 3) 70) s1) = is_results s1 @
      [\<lparr>ir_infoHash = qa_InfoHash (m_A a), ir_peerAddrs = [AddrPort (IP4 3) 6881],
        ir_family = addressFamily (network s1)\<rparr>]"
    using announce_after_get_peers [OF running_service_inv run length_replicate [of 20 0] s1_def a(1) refl
        disjI1 [OF refl], of still_env, THEN conjunct1]
    by (simp add: a(2,3))
  then have "ir_peerAddrs (last (is_results (onAnnouncePeerQuery still_env a (AddrPort (IP4 3) 70) s1)))
      = [AddrPort (IP4 3) 6881]"
    by simp
  with s1_def show ?thesis by blast
qed

definition quiet :: "(Message \<times> AddrPort) list \<Rightarrow> AddrPort list \<Rightarrow> IndexingService \<Rightarrow> bool" where
  "quiet snt cands s \<longleftrightarrow>
    is_done s \<and> \<not> started (protocol s) \<and> is_sent s = snt \<and> is_candidates s = cands"

lemma quiet_send [simp]: "quiet snt cands s \<Longrightarrow> quiet snt cands (snd (send env msg addr s))"
  by (auto simp: quiet_def send_def SendMessage_def Let_def)

lemma quiet_addNode [simp]: "quiet snt cands s \<Longrightarrow> addNode env nid addr s = s"
  by (simp add: quiet_def addNode_def)

lemma quiet_updates [simp]:
  "quiet snt cands (s\<lparr>is_results := r\<rparr>) = quiet snt cands s"
  "quiet snt cands (s\<lparr>is_tick := n\<rparr>) = quiet snt cands s"
  "quiet snt cands (s\<lparr>routingTable := t\<rparr>) = quiet snt cands s"
  "quiet snt cands (s\<lparr>probeCache := p\<rparr>) = quiet snt cands s"
  by (simp_all add: quiet_def)

lemma quiet_more: "RequestTable.more s' = RequestTable.more s \<Longrightarrow> quiet snt cands s' = quiet snt cands s"
  by (simp add: quiet_def more_fields [of s' s])

lemma expire_entries_more:
  "expire_entries cutoff es n s = (n', s') \<Longrightarrow> RequestTable.more s' = RequestTable.more s"
  by (induction cutoff es n s rule: expire_entries.induct) (auto simp: Let_def split: if_splits)

lemma quiet_receive: "quiet snt cands s \<Longrightarrow> \<exists>s'. receive env msg addr s = Inr s' \<and> quiet snt cands s'"
  by (auto simp: receive_def onPingQuery_def onFindNodeQuery_def onGetPeersQuery_def
      onAnnouncePeerQuery_def onSampleInfohashesQuery_def onFindNodeResponse_def
      onGetPeersResponse_def onSampleInfohashesResponse_def Let_def
      split: option.splits handler.splits prod.splits)
    (auto simp: quiet_def)

lemma expire_more:
  "RequestTable.more (expireOldGetPeersRequestsLocked now s) = RequestTable.more s"
  by (auto simp: expireOldGetPeersRequestsLocked_def Let_def split: prod.splits dest: expire_entries_more)

lemma quiet_expire:
  "quiet snt cands s \<Longrightarrow> quiet snt cands (expireOldGetPeersRequests env s)"
  using quiet_more [OF expire_more] by (simp add: expireOldGetPeersRequests_def time_now_def)

interpretation stopped: total_step_system is_step "quiet snt cands" "\<lambda>e. e \<noteq> StartProtocol" for snt cands
proof
  fix s e assume q: "quiet snt cands s" and e: "e \<noteq> StartProtocol"
  show "\<exists>s'. is_step s e = Inr s' \<and> quiet snt cands s'"
  proof (cases e)
    case (Receive env msg addr)
    then show ?thesis using quiet_receive [OF q] by simp
  next
    case (ExpireRequests env)
    then show ?thesis using quiet_expire [OF q] by simp
  qed (use q e in \<open>auto simp: quiet_def probeBootstrapCandidate_def findNeighbors_def pruneProbeCache_def
      time_now_def Let_def updateTokenSecret_def Protocol_Terminate_def\<close>)
qed

text \<open>Termination is final: after \<open>Terminate\<close> every handler still returns at once, and
  until the protocol is started again nothing is sent and no bootstrap candidate is
  reported, whatever arrives.\<close>

theorem terminate_silences:
  assumes "StartProtocol \<notin> set es"
  shows "\<exists>s'. efold is_step s (Terminate # es) = Inr s'
    \<and> is_sent s' = is_sent s \<and> is_candidates s' = is_candidates s"
proof -
  let ?t = "s\<lparr>is_done := True, protocol := Protocol_Terminate (protocol s)\<rparr>"
  have "quiet (is_sent s) (is_candidates s) ?t"
    by (simp add: quiet_def Protocol_Terminate_def)
  moreover have "\<forall>e \<in> set es. e \<noteq> StartProtocol" using assms by auto
  ultimately show ?thesis
    using stopped.erun_total [of "is_sent s" "is_candidates s" ?t es] by (auto simp: quiet_def)
qed

theorem terminate_silences_witness:
  "\<exists>s'. efold is_step running_service [Terminate, Receive still_env sample_reply (AddrPort (IP4 9) 4),
      FindNeighbors still_env] = Inr s' \<and> is_sent s' = is_sent running_service"
  using terminate_silences [of "[Receive still_env sample_reply (AddrPort (IP4 9) 4),
      FindNeighbors still_env]" running_service] by force

text \<open>An address is probed at most once in ten minutes: a first probe queues one
  find_node packet and remembers the address, and a second probe of the same address, on
  whatever port, less than ten minutes later queues nothing and changes nothing.\<close>

theorem probe_once_in_ten_minutes:
  assumes "acceptsAddress (network s) addr" and "\<not> is_done s" and "started (protocol s)"
    and "\<forall>n. env_queued env n" and "map_of (probeCache s) (AP_Addr addr) = None"
    and "s1 = probeBootstrapCandidate env addr s"
    and "AP_Addr addr2 = AP_Addr addr"
    and "env_clock env2 (is_tick s1) < env_clock env (is_tick s) + 10 * Minute"
  shows "(\<exists>target. length target = 20
       \<and> is_sent s1 = is_sent s @ [(NewFindNodeQuery (nodeID s) target (want s), addr)])
    \<and> is_sent (probeBootstrapCandidate env2 addr2 s1) = is_sent s1
    \<and> probeCache (probeBootstrapCandidate env2 addr2 s1) = probeCache s1"
proof -
  let ?target = "go_copy (replicate 20 0) (env_random env (Suc (is_tick s)))"
  have s1: "is_sent s1 = is_sent s @ [(NewFindNodeQuery (nodeID s) ?target (want s), addr)]"
      "probeCache s1 = AList.update (AP_Addr addr) (env_clock env (is_tick s)) (probeCache s)"
    using assms(1-5) unfolding assms(6)
    by (simp_all add: probeBootstrapCandidate_def time_now_def rand_target_def Let_def send_queued)
  then have "map_of (probeCache s1) (AP_Addr addr2) = Some (env_clock env (is_tick s))"
    using assms(7) by (simp add: update_conv)
  then have "is_sent (probeBootstrapCandidate env2 addr2 s1) = is_sent s1
      \<and> probeCache (probeBootstrapCandidate env2 addr2 s1) = probeCache s1"
    using assms(8) by (simp add: probeBootstrapCandidate_def time_now_def Let_def)
  with s1(1) show ?thesis by (intro conjI exI [of _ ?target]) auto
qed

theorem probe_once_in_ten_minutes_witness:
  "is_sent (probeBootstrapCandidate still_env (AddrPort (IP4 3) 71)
      (probeBootstrapCandidate still_env (AddrPort (IP4 3) 70) running_service))
   = is_sent (probeBootstrapCandidate still_env (AddrPort (IP4 3) 70) running_service)"
proof -
  have f: "acceptsAddress (network running_service) (AddrPort (IP4 3) 70)" "\<not> is_done running_service"
    "started (protocol running_service)" "\<forall>n. env_queued still_env n"
    "map_of (probeCache running_service) (AP_Addr (AddrPort (IP4 3) 70)) = None"
    by (simp_all add: running_service_def asking_service_def NewIndexingService_def Let_def
        acceptsAddress_def AddrPort_IsValid_def Addr_IsValid_def still_env_def)
  have "env_clock still_env m < env_clock still_env n + 10 * Minute" for m n
    by (simp add: still_env_def duration_defs)
  from probe_once_in_ten_minutes [OF f refl _ this, of "AddrPort (IP4 3) 71"] show ?thesis by simp
qed

text \<open>A port above 65535 in an announce passes validation and is reported modulo 65536:
  65536 becomes port 0, which no other path of the service lets through.\<close>

theorem announce_port_wraps:
  assumes "has_OnResult s"
  shows "\<exists>msg. validateAnnouncePeerQueryMessage msg \<and> qa_Port (m_A msg) = 65536
    \<and> ir_peerAddrs (last (is_results (onAnnouncePeerQuery env msg addr s))) = [AddrPort (AP_Addr addr) 0]"
proof -
  let ?tok = "CalculateToken (protocol s) (AP_Addr addr)"
  define msg where "msg = zero_message\<lparr>m_A := zero_args\<lparr>qa_ID := replicate 20 0,
     qa_InfoHash := replicate 20 0, qa_Token := ?tok, qa_Port := 65536\<rparr>\<rparr>"
  have tok: "?tok \<noteq> []" using length_sha1_Sum by (metis CalculateToken_def list.size(3) zero_neq_numeral)
  have "validateAnnouncePeerQueryMessage msg"
    using tok by (simp add: msg_def validateAnnouncePeerQueryMessage_def)
  moreover have "VerifyToken (protocol s) (AP_Addr addr) (qa_Token (m_A msg))"
    by (simp add: msg_def VerifyToken_def CalculateToken_def)
  moreover have "qa_ImpliedPort (m_A msg) = 0" "qa_Port (m_A msg) = 65536"
    by (simp_all add: msg_def zero_args_def)
  ultimately show ?thesis
    using assms by (intro exI [of _ msg]) (simp add: onAnnouncePeerQuery_def Let_def)
qed

theorem announce_port_wraps_witness:
  "\<exists>msg. validateAnnouncePeerQueryMessage msg \<and> qa_Port (m_A msg) = 65536
    \<and> ir_peerAddrs (last (is_results (onAnnouncePeerQuery still_env msg (AddrPort (IP4 3) 70) running_service)))
      = [AddrPort (IP4 3) 0]"
  using announce_port_wraps [of running_service still_env "AddrPort (IP4 3) 70"] running_service_inv
  by (simp add: is_inv_def)

end
