(* ===== verification/Worker_Queue.thy ===== *)
theory Worker_Queue
  imports Prelude
begin

text \<open>
  The worker's side of \<open>cluster/transport.go\<close>: the bounded queue of crawled metadata, its
  cache file, the HTTP handler a master pulls from, and the loop that pushes batches to a
  master. What comes from outside (the decoded cache file, a decoded request body, the
  master's answer to a push) is an argument; the JSON encoder and the HTTP stack are not
  part of the repository.
\<close>

section \<open>Data\<close>

text \<open>\<open>Metadata\<close> and \<open>File\<close> of \<open>dhtc-client/types.go\<close>.\<close>

record File =
  f_Size :: int
  f_Path :: string

record Metadata =
  md_InfoHash :: bytes
  md_Family :: int
  md_Name :: string
  md_TotalSize :: uint64
  md_DiscoveredOn :: int
  md_Files :: "File list"

record Record =
  rec_ID :: uint64
  rec_Metadata :: Metadata

record Batch =
  b_WorkerID :: string
  b_Items :: "Record list"
  b_Queued :: nat
  b_Dropped :: uint64

text \<open>
  \<open>flushWake\<close> is a channel with one slot: whether it holds a token. \<open>acked_log\<close> are the calls
  of the \<open>onAck\<close> callback, in order.
\<close>

record WorkerQueue =
  workerID :: string
  limit :: int
  nextID :: uint64
  items :: "Record list"
  dropped :: uint64
  cachePath :: string
  cacheDirty :: bool
  masterURL :: string
  clusterToken :: string
  flushWake :: bool
  flushBatch :: int
  flushThreshold :: int
  flushed :: uint64
  flushBatches :: uint64
  acked_log :: "Metadata list"

section \<open>Queue operations\<close>

text \<open>
  \<open>loadFromCache\<close>: \<open>file\<close> is what reading and decoding the cache file gives, \<open>None\<close> when it
  cannot be read. A decoding that fails half-way leaves the records read so far in place
  but returns before the ids are looked at.
\<close>

definition loadFromCache :: "(Record list \<times> bool) option \<Rightarrow> WorkerQueue \<Rightarrow> WorkerQueue" where
  "loadFromCache file q =
    (if cachePath q = [] then q
     else case file of
       None \<Rightarrow> q
     | Some (rs, ok) \<Rightarrow>
         let q1 = q\<lparr>items := rs\<rparr> in
         if \<not> ok then q1
         else q1\<lparr>nextID := foldl (\<lambda>n item. if rec_ID item > n then rec_ID item else n) (nextID q1) rs\<rparr>)"

definition NewWorkerQueue :: "string \<Rightarrow> int \<Rightarrow> string \<Rightarrow> (Record list \<times> bool) option \<Rightarrow> WorkerQueue" where
  "NewWorkerQueue wid lim path file =
    (let wid' = (if wid = [] then ''worker'' else wid);
         lim' = (if lim < 1 then 256 else lim)
     in loadFromCache file
       \<lparr>workerID = wid', limit = lim', nextID = 0, items = [], dropped = 0, cachePath = path,
        cacheDirty = False, masterURL = [], clusterToken = [], flushWake = False, flushBatch = 0,
        flushThreshold = 0, flushed = 0, flushBatches = 0, acked_log = []\<rparr>)"

definition signalFlush :: "WorkerQueue \<Rightarrow> WorkerQueue" where
  "signalFlush q = (if flushWake q then q else q\<lparr>flushWake := True\<rparr>)"

definition Enqueue :: "Metadata \<Rightarrow> WorkerQueue \<Rightarrow> bool \<times> WorkerQueue" where
  "Enqueue md q =
    (if int (length (items q)) \<ge> limit q then (False, q\<lparr>dropped := dropped q + 1\<rparr>)
     else
       let nid = nextID q + 1;
           q1 = q\<lparr>nextID := nid, items := items q @ [\<lparr>rec_ID = nid, rec_Metadata = md\<rparr>], cacheDirty := True\<rparr>;
           len = int (length (items q1))
       in (True, if flushThreshold q1 > 0 \<and> len \<ge> flushThreshold q1 then signalFlush q1 else q1))"

definition takeBatch :: "int \<Rightarrow> WorkerQueue \<Rightarrow> Batch" where
  "takeBatch lim q =
    (let l = (if lim < 1 \<or> lim > int (length (items q)) then length (items q) else nat lim)
     in \<lparr>b_WorkerID = workerID q, b_Items = take l (items q), b_Queued = length (items q),
         b_Dropped = dropped q\<rparr>)"

fun ack_loop :: "uint64 set \<Rightarrow> Record list \<Rightarrow> Record list \<times> Metadata list" where
  "ack_loop acked [] = ([], [])"
| "ack_loop acked (item # its) =
     (let (kept, ackedMetadata) = ack_loop acked its
      in if rec_ID item \<in> acked then (kept, rec_Metadata item # ackedMetadata)
         else (item # kept, ackedMetadata))"

definition Ack :: "uint64 list \<Rightarrow> WorkerQueue \<Rightarrow> WorkerQueue" where
  "Ack ids q =
    (let (kept, ackedMetadata) = ack_loop (set ids) (items q);
         q1 = q\<lparr>items := kept, cacheDirty := True\<rparr>;
         q2 = (if length ackedMetadata > 0
               then q1\<lparr>flushed := flushed q1 + of_nat (length ackedMetadata), flushBatches := flushBatches q1 + 1\<rparr>
               else q1)
     in q2\<lparr>acked_log := acked_log q2 @ ackedMetadata\<rparr>)"

definition queue_Length :: "WorkerQueue \<Rightarrow> nat" where
  "queue_Length q = length (items q)"

text \<open>\<open>strings.TrimRight(url, "/")\<close>.\<close>

definition TrimRight_slash :: "string \<Rightarrow> string" where
  "TrimRight_slash s = rev (dropWhile (\<lambda>c. c = CHR ''/'') (rev s))"

definition SetMaster :: "string \<Rightarrow> string \<Rightarrow> WorkerQueue \<Rightarrow> WorkerQueue" where
  "SetMaster url token q = q\<lparr>masterURL := TrimRight_slash url, clusterToken := token\<rparr>"

section \<open>The cache file\<close>

text \<open>
  \<open>saveToCache\<close>: \<open>writable\<close> says whether directory, temporary file and rename all succeed.
  The result is the records written, if any, and the queue; a failure sets the flag again.
\<close>

definition saveToCache :: "bool \<Rightarrow> WorkerQueue \<Rightarrow> Record list option \<times> WorkerQueue" where
  "saveToCache writable q =
    (if cachePath q = [] \<or> \<not> cacheDirty q then (None, q)
     else
       let q1 = q\<lparr>cacheDirty := False\<rparr> in
       if writable then (Some (items q1), q1) else (None, q1\<lparr>cacheDirty := True\<rparr>))"

section \<open>The handler a master pulls from\<close>

datatype http_method = GET | POST | OTHER_METHOD

datatype queue_response =
    Unauthorized
  | SendBatch Batch bool
  | InvalidAck
  | QueuedCount nat
  | MethodNotAllowed

text \<open>\<open>strings.TrimPrefix(header, "Bearer ")\<close>.\<close>

definition bearer :: "string \<Rightarrow> string" where
  "bearer h = (if take 7 h = ''Bearer '' then drop 7 h else h)"

text \<open>
  One request: \<open>auth\<close> is the Authorization header, \<open>gzip\<close> whether the client accepts it,
  \<open>ackBody\<close> the decoded body (\<open>None\<close> when it does not decode or exceeds 64 KiB).
\<close>

definition queue_Handler ::
  "string \<Rightarrow> int \<Rightarrow> string \<Rightarrow> http_method \<Rightarrow> bool \<Rightarrow> uint64 list option \<Rightarrow> WorkerQueue \<Rightarrow> queue_response \<times> WorkerQueue" where
  "queue_Handler token maxBatch auth meth gzip ackBody q =
    (let maxBatch' = (if maxBatch < 1 \<or> maxBatch > 64 then 16 else maxBatch) in
     if token = [] \<or> bearer auth \<noteq> token then (Unauthorized, q)
     else case meth of
       GET \<Rightarrow> (SendBatch (takeBatch maxBatch' q) gzip, q)
     | POST \<Rightarrow>
         (case ackBody of
            None \<Rightarrow> (InvalidAck, q)
          | Some ids \<Rightarrow> let q1 = Ack ids q in (QueuedCount (queue_Length q1), q1))
     | OTHER_METHOD \<Rightarrow> (MethodNotAllowed, q))"

section \<open>Pushing to a master\<close>

text \<open>
  The master's answer to one push: the request fails, or there is a status and a body that
  decodes to ids or not.
\<close>

datatype push_reply = PushFailed | PushReply nat "uint64 list option"

datatype flush_error = RequestError | FlushStatus nat | DecodeError | NothingAcknowledged

definition Flush :: "(string \<Rightarrow> Batch \<Rightarrow> push_reply) \<Rightarrow> WorkerQueue \<Rightarrow> flush_error option \<times> WorkerQueue" where
  "Flush post q =
    (let batchSize = (if flushBatch q < 1 then 64 else flushBatch q);
         batch = takeBatch batchSize q
     in if length (b_Items batch) = 0 then (None, q)
        else if masterURL q = [] \<or> clusterToken q = [] then (None, q)
        else case post (masterURL q @ ''/api/master/v1/flush'') batch of
          PushFailed \<Rightarrow> (Some RequestError, q)
        | PushReply st ids \<Rightarrow>
            if st div 100 \<noteq> 2 then (Some (FlushStatus st), q)
            else case ids of
              None \<Rightarrow> (Some DecodeError, q)
            | Some ids \<Rightarrow>
                if length ids = 0 then (Some NothingAcknowledged, q) else (None, Ack ids q))"

text \<open>
  \<open>drainFlush\<close> flushes until the queue is empty or a flush fails; \<open>posts n\<close> is the master's
  behaviour at the \<open>n\<close>-th push. The loop may not end.
\<close>

partial_function (option) drainFlush ::
  "(nat \<Rightarrow> string \<Rightarrow> Batch \<Rightarrow> push_reply) \<Rightarrow> nat \<Rightarrow> WorkerQueue \<Rightarrow> WorkerQueue option" where
  "drainFlush posts n q =
    (if queue_Length q > 0 then
       (case Flush (posts n) q of
          (Some _, q') \<Rightarrow> Some q'
        | (None, q') \<Rightarrow> drainFlush posts (Suc n) q')
     else Some q)"

text \<open>The configuration part of \<open>StartFlushLoop\<close>, up to the start of the goroutine.\<close>

definition StartFlushLoop :: "int \<Rightarrow> int \<Rightarrow> WorkerQueue \<Rightarrow> WorkerQueue" where
  "StartFlushLoop threshold batchSize q =
    (let batchSize' = (if batchSize < 1 \<or> batchSize > 64 then 64 else batchSize);
         threshold' = (if threshold < 1 then batchSize' else threshold);
         q1 = q\<lparr>flushBatch := batchSize', flushThreshold := threshold'\<rparr>
     in if queue_Length q1 > 0 then signalFlush q1 else q1)"

text \<open>
  One turn of the goroutine's \<open>select\<close>: the context is done, the ticker or a wake-up starts
  a drain, or the cache ticker saves. The result carries whether the loop goes on.
\<close>

datatype flush_turn = CtxDone bool | Tick | Wake | CacheTick bool

definition flush_loop_turn ::
  "(nat \<Rightarrow> string \<Rightarrow> Batch \<Rightarrow> push_reply) \<Rightarrow> flush_turn \<Rightarrow> WorkerQueue \<Rightarrow> (bool \<times> WorkerQueue) option" where
  "flush_loop_turn posts turn q =
    (case turn of
       CtxDone writable \<Rightarrow> Some (False, snd (saveToCache writable q))
     | Tick \<Rightarrow> map_option (Pair True) (drainFlush posts 0 q)
     | Wake \<Rightarrow> if flushWake q then map_option (Pair True) (drainFlush posts 0 (q\<lparr>flushWake := False\<rparr>))
               else Some (True, q)
     | CacheTick writable \<Rightarrow> Some (True, snd (saveToCache writable q)))"

section \<open>Acknowledging\<close>

lemma ack_loop_eq:
  "ack_loop A its = (filter (\<lambda>r. rec_ID r \<notin> A) its, map rec_Metadata (filter (\<lambda>r. rec_ID r \<in> A) its))"
  by (induction its) auto

lemma Ack_fields [simp]:
  "items (Ack ids q) = filter (\<lambda>r. rec_ID r \<notin> set ids) (items q)"
  "acked_log (Ack ids q) = acked_log q @ map rec_Metadata (filter (\<lambda>r. rec_ID r \<in> set ids) (items q))"
  "nextID (Ack ids q) = nextID q" "limit (Ack ids q) = limit q" "dropped (Ack ids q) = dropped q"
  "masterURL (Ack ids q) = masterURL q" "clusterToken (Ack ids q) = clusterToken q"
  "workerID (Ack ids q) = workerID q" "flushBatch (Ack ids q) = flushBatch q"
  by (simp_all add: Ack_def ack_loop_eq Let_def)

lemma signalFlush_fields [simp]:
  "items (signalFlush q) = items q" "nextID (signalFlush q) = nextID q" "limit (signalFlush q) = limit q"
  "acked_log (signalFlush q) = acked_log q" "dropped (signalFlush q) = dropped q"
  by (simp_all add: signalFlush_def)

text \<open>
  The queue's invariant: ids increase from the oldest record to the newest and none is
  above \<open>nextID\<close>; it is kept as long as the 64-bit counter has not wrapped around.
\<close>

definition wq_wf :: "WorkerQueue \<Rightarrow> bool" where
  "wq_wf q \<longleftrightarrow> 0 < limit q \<and> sorted_wrt (<) (map rec_ID (items q))
    \<and> (\<forall>r \<in> set (items q). rec_ID r \<le> nextID q)"

lemma wq_distinct: "wq_wf q \<Longrightarrow> distinct (map rec_ID (items q))"
  by (auto simp: wq_wf_def strict_sorted_iff)

lemma Ack_wf [inv_keep]: "wq_wf q \<Longrightarrow> wq_wf (Ack ids q)"
  by (auto simp: wq_wf_def sorted_wrt_map intro: sorted_wrt_filter)

lemma Enqueue_cases:
  obtains (full) "int (length (items q)) \<ge> limit q" "Enqueue md q = (False, q\<lparr>dropped := dropped q + 1\<rparr>)"
  | (stored) q' where "int (length (items q)) < limit q" "Enqueue md q = (True, q')"
      "items q' = items q @ [\<lparr>rec_ID = nextID q + 1, rec_Metadata = md\<rparr>]"
      "nextID q' = nextID q + 1" "limit q' = limit q" "acked_log q' = acked_log q" "dropped q' = dropped q"
  by (cases "int (length (items q)) \<ge> limit q") (auto simp: Enqueue_def Let_def)

lemma Enqueue_wf [inv_keep]:
  assumes "wq_wf q" and "nextID q + 1 \<noteq> 0"
  shows "wq_wf (snd (Enqueue md q))"
proof (cases rule: Enqueue_cases [of q md])
  case full
  then show ?thesis using assms(1) by (simp add: wq_wf_def)
next
  case (stored q')
  have lt: "nextID q < nextID q + 1" using assms(2)
    by (simp add: word_less_nat_alt unatSuc add.commute [of _ 1])
  then have "\<forall>r \<in> set (items q). rec_ID r < nextID q + 1 \<and> rec_ID r \<le> nextID q + 1"
    using assms(1) by (auto simp: wq_wf_def)
  then show ?thesis
    using stored assms(1) by (auto simp: wq_wf_def sorted_wrt_append)
qed

section \<open>The contract a puller relies on\<close>

text \<open>
  A source of records: fetching shows some of its records, and acknowledging ids takes
  away exactly the records with these ids. Then acknowledging what was fetched takes away
  nothing that was not fetched.
\<close>

locale record_source =
  fixes contents :: "'q \<Rightarrow> Record list"
    and fetch :: "'q \<Rightarrow> Record list"
    and ack :: "uint64 list \<Rightarrow> 'q \<Rightarrow> 'q"
    and wf :: "'q \<Rightarrow> bool"
  assumes fetch_prefix: "\<exists>n. fetch q = take n (contents q)"
    and ack_contents: "contents (ack ids q) = filter (\<lambda>r. rec_ID r \<notin> set ids) (contents q)"
    and ack_wf: "wf q \<Longrightarrow> wf (ack ids q)"
    and ids_distinct: "wf q \<Longrightarrow> distinct (map rec_ID (contents q))"
begin

lemma ack_fetched:
  assumes "wf q"
  shows "contents (ack (map rec_ID (fetch q)) q) = drop (length (fetch q)) (contents q)"
proof -
  obtain n where n: "fetch q = take n (contents q)" using fetch_prefix by blast
  let ?a = "take n (contents q)" and ?b = "drop n (contents q)"
  have "distinct (map rec_ID (?a @ ?b))" using ids_distinct [OF assms] by simp
  then have "rec_ID ` set ?a \<inter> rec_ID ` set ?b = {}" unfolding map_append distinct_append by simp
  then have b: "filter (\<lambda>r. rec_ID r \<notin> rec_ID ` set ?a) ?b = ?b"
    by (auto simp: filter_id_conv)
  have "filter (\<lambda>r. rec_ID r \<notin> rec_ID ` set ?a) (?a @ ?b) = ?b"
    unfolding filter_append b by (simp add: filter_empty_conv)
  then show ?thesis by (simp add: ack_contents n min_def)
qed

lemma fetched_or_kept:
  "wf q \<Longrightarrow> contents q = fetch q @ contents (ack (map rec_ID (fetch q)) q)"
  using ack_fetched [of q] fetch_prefix [of q] by (metis append_take_drop_id append_eq_conv_conj)

end

lemma takeBatch_prefix: "\<exists>n. b_Items (takeBatch lim q) = take n (items q)"
  by (auto simp: takeBatch_def Let_def intro: exI [of _ "length (items q)"])

interpretation wq: record_source items "\<lambda>q. b_Items (takeBatch lim q)" Ack wq_wf for lim
  by unfold_locales (use takeBatch_prefix Ack_wf wq_distinct in auto)

lemma ack_batch_log:
  assumes "wq_wf q" and b: "b = b_Items (takeBatch lim q)"
  shows "acked_log (Ack (map rec_ID b) q) = acked_log q @ map rec_Metadata b"
proof -
  let ?rest = "items (Ack (map rec_ID b) q)"
  have split: "items q = b @ ?rest"
    unfolding b by (rule wq.fetched_or_kept [OF assms(1)])
  have rest: "filter (\<lambda>r. rec_ID r \<in> set (map rec_ID b)) ?rest = []"
    by (simp add: filter_empty_conv)
  have "filter (\<lambda>r. rec_ID r \<in> set (map rec_ID b)) (b @ ?rest) = b"
    unfolding filter_append rest by (simp add: filter_id_conv)
  then have "filter (\<lambda>r. rec_ID r \<in> set (map rec_ID b)) (items q) = b"
    unfolding split [symmetric] .
  then show ?thesis by simp
qed

section \<open>Draining\<close>

text \<open>
  A master that plays by the rules: an answer with a success status and ids acknowledges
  at least one record of the batch it was sent.
\<close>

definition sound_master :: "(nat \<Rightarrow> string \<Rightarrow> Batch \<Rightarrow> push_reply) \<Rightarrow> bool" where
  "sound_master posts \<longleftrightarrow> (\<forall>n url b st ids. posts n url b = PushReply st (Some ids) \<longrightarrow> ids \<noteq> []
     \<longrightarrow> set ids \<inter> rec_ID ` set (b_Items b) \<noteq> {})"

lemma takeBatch_nonempty: "items q \<noteq> [] \<Longrightarrow> b_Items (takeBatch lim q) \<noteq> []"
  by (auto simp: takeBatch_def Let_def)

lemma takeBatch_subset: "set (b_Items (takeBatch lim q)) \<subseteq> set (items q)"
  by (auto simp: takeBatch_def Let_def dest: in_set_takeD)

lemma Ack_shorter:
  assumes "set ids \<inter> rec_ID ` set (items q) \<noteq> {}"
  shows "length (items (Ack ids q)) < length (items q)"
proof -
  obtain r where "r \<in> set (items q)" "rec_ID r \<in> set ids" using assms by blast
  then show ?thesis by (auto simp: length_filter_less)
qed

lemma Flush_progress:
  assumes "sound_master posts" and "items q \<noteq> []" and "masterURL q \<noteq> []" and "clusterToken q \<noteq> []"
    and "Flush (posts n) q = (None, q')"
  shows "length (items q') < length (items q) \<and> masterURL q' = masterURL q \<and> clusterToken q' = clusterToken q"
proof -
  let ?b = "takeBatch (if flushBatch q < 1 then 64 else flushBatch q) q"
  have ne: "b_Items ?b \<noteq> []" using takeBatch_nonempty assms(2) by blast
  then obtain st ids where p: "posts n (masterURL q @ ''/api/master/v1/flush'') ?b = PushReply st (Some ids)"
      "ids \<noteq> []" "q' = Ack ids q"
    using assms(3-5) by (auto simp: Flush_def Let_def split: push_reply.splits if_splits option.splits)
  then have "set ids \<inter> rec_ID ` set (b_Items ?b) \<noteq> {}"
    using assms(1) unfolding sound_master_def by metis
  then have "set ids \<inter> rec_ID ` set (items q) \<noteq> {}"
    using takeBatch_subset [of _ q] by blast
  then show ?thesis using Ack_shorter p(3) by simp
qed

lemma drainFlush_ends:
  assumes "sound_master posts" and "masterURL q \<noteq> []" and "clusterToken q \<noteq> []"
  shows "\<exists>q'. drainFlush posts n q = Some q'"
  using assms(2,3)
proof (induction "length (items q)" arbitrary: q n rule: less_induct)
  case less
  show ?case
  proof (cases "items q = []")
    case True
    then show ?thesis by (subst drainFlush.simps) (simp add: queue_Length_def)
  next
    case False
    obtain e q' where f: "Flush (posts n) q = (e, q')" by force
    show ?thesis
    proof (cases e)
      case None
      then have "\<exists>q''. drainFlush posts (Suc n) q' = Some q''"
        using Flush_progress [OF assms(1) False less.prems] f less.hyps less.prems by metis
      then show ?thesis using None f False by (subst drainFlush.simps) (simp add: queue_Length_def)
    next
      case (Some err)
      then show ?thesis using f False by (subst drainFlush.simps) (simp add: queue_Length_def)
    qed
  qed
qed

lemma drainFlush_unconfigured:
  assumes "items q \<noteq> []" and "masterURL q = [] \<or> clusterToken q = []"
  shows "drainFlush posts n q = None"
proof -
  have "\<not> (items q \<noteq> [] \<and> (masterURL q = [] \<or> clusterToken q = []))"
    if "drainFlush posts n q = Some y" for y
    using that
  proof (induction rule: drainFlush.raw_induct [rotated, consumes 1, case_names step])
    case (step rec posts n q y)
    show ?case
    proof
      assume A: "items q \<noteq> [] \<and> (masterURL q = [] \<or> clusterToken q = [])"
      then have "Flush (posts n) q = (None, q)" by (auto simp: Flush_def Let_def)
      then have "rec posts (Suc n) q = Some y"
        using step(2) A by (simp add: queue_Length_def)
      from step(1) [OF this] A show False by blast
    qed
  qed
  then show ?thesis using assms by (metis not_None_eq)
qed

lemma NewWorkerQueue_wf: "wq_wf (NewWorkerQueue wid lim path None)"
  by (simp add: NewWorkerQueue_def loadFromCache_def wq_wf_def Let_def)

text \<open>What a queue and its readers have done: the operations in the order they took effect.\<close>

datatype wq_event = WEnqueue Metadata | WAck "uint64 list" | WSave bool | WSetMaster string string

fun wq_step :: "WorkerQueue \<Rightarrow> wq_event \<Rightarrow> WorkerQueue" where
  "wq_step q (WEnqueue md) = snd (Enqueue md q)"
| "wq_step q (WAck ids) = Ack ids q"
| "wq_step q (WSave w) = snd (saveToCache w q)"
| "wq_step q (WSetMaster url tok) = SetMaster url tok q"

definition wq_bounded :: "WorkerQueue \<Rightarrow> bool" where
  "wq_bounded q \<longleftrightarrow> int (length (items q)) \<le> limit q"

interpretation bounded: step_system wq_step wq_bounded
proof
  fix q e assume b: "wq_bounded q"
  show "wq_bounded (wq_step q e)"
  proof (cases e)
    case (WEnqueue md)
    then show ?thesis
      using b by (cases rule: Enqueue_cases [of q md]) (auto simp: wq_bounded_def)
  next
    case (WAck ids)
    then show ?thesis
      using b length_filter_le [of "\<lambda>r. rec_ID r \<notin> set ids" "items q"]
      by (simp add: wq_bounded_def del: length_filter_le)
  qed (use b in \<open>auto simp: wq_bounded_def saveToCache_def SetMaster_def Let_def\<close>)
qed

section \<open>Properties\<close>

text \<open>The queue never outgrows its limit, whatever is enqueued, acknowledged, saved or
  reconfigured, and a refused record is counted, not stored.\<close>

theorem queue_bounded:
  "int (length (items (foldl wq_step (NewWorkerQueue wid lim path None) es)))
     \<le> limit (foldl wq_step (NewWorkerQueue wid lim path None) es)
   \<and> (fst (Enqueue md q) = False) = (int (length (items q)) \<ge> limit q)
   \<and> items (snd (Enqueue md q)) = items q @
       (if fst (Enqueue md q) then [\<lparr>rec_ID = nextID q + 1, rec_Metadata = md\<rparr>] else [])
   \<and> dropped (snd (Enqueue md q)) = dropped q + (if fst (Enqueue md q) then 0 else 1)"
proof -
  have "wq_bounded (NewWorkerQueue wid lim path None)"
    by (simp add: NewWorkerQueue_def loadFromCache_def wq_bounded_def Let_def)
  from bounded.run_keeps [OF this, of es] show ?thesis
    by (cases rule: Enqueue_cases [of q md]) (auto simp: wq_bounded_def)
qed

text \<open>The queue is first in, first out for its readers: acknowledging the ids of a batch
  removes exactly the records of that batch, the oldest ones, and hands their metadata to
  the acknowledgement callback in order; nothing else moves.\<close>

theorem ack_batch_fifo:
  assumes "wq_wf q" and b_def: "b = b_Items (takeBatch lim q)"
  shows "items q = b @ items (Ack (map rec_ID b) q)
    \<and> acked_log (Ack (map rec_ID b) q) = acked_log q @ map rec_Metadata b
    \<and> (items q \<noteq> [] \<longrightarrow> b \<noteq> [])"
proof -
  have split: "items q = b @ items (Ack (map rec_ID b) q)"
    unfolding b_def by (rule wq.fetched_or_kept [OF assms(1)])
  moreover have "acked_log (Ack (map rec_ID b) q) = acked_log q @ map rec_Metadata b"
    by (rule ack_batch_log [OF assms])
  moreover have "items q \<noteq> [] \<longrightarrow> b \<noteq> []" unfolding b_def using takeBatch_nonempty by blast
  ultimately show ?thesis by blast
qed

definition sample_md :: Metadata where
  "sample_md = \<lparr>md_InfoHash = replicate 20 1, md_Family = 4, md_Name = ''a'', md_TotalSize = 1,
     md_DiscoveredOn = 0, md_Files = []\<rparr>"

definition sample_queue :: WorkerQueue where
  "sample_queue = snd (Enqueue sample_md (snd (Enqueue sample_md (NewWorkerQueue ''w'' 10 [] None))))"

lemma sample_queue_items:
  "items sample_queue = [\<lparr>rec_ID = 1, rec_Metadata = sample_md\<rparr>, \<lparr>rec_ID = 2, rec_Metadata = sample_md\<rparr>]"
  "masterURL sample_queue = []" "cachePath sample_queue = []"
  by (simp_all add: sample_queue_def NewWorkerQueue_def loadFromCache_def Enqueue_def Let_def)

lemma sample_queue_wf: "wq_wf sample_queue"
  unfolding sample_queue_def
  by (intro Enqueue_wf NewWorkerQueue_wf)
    (simp_all add: NewWorkerQueue_def loadFromCache_def Enqueue_def Let_def)

theorem ack_batch_fifo_witness:
  "items sample_queue = b_Items (takeBatch 1 sample_queue)
     @ items (Ack (map rec_ID (b_Items (takeBatch 1 sample_queue))) sample_queue)
   \<and> length (b_Items (takeBatch 1 sample_queue)) = 1"
  using ack_batch_fifo [OF sample_queue_wf refl, of 1]
  by (simp add: takeBatch_def sample_queue_items)



end
