(* ===== verification/Master.thy ===== *)
theory Master
  imports Worker_Queue "HOL-Library.Multiset"
begin

text \<open>
  The master's side of \<open>cluster/transport.go\<close>: the puller that fetches batches from its
  workers and acknowledges them, its status table, and the handler workers push to; and
  the two sides together, over links that may lose a request or a reply. The puller's
  HTTP client, its clock and the ingest callback act on a world the definitions take as a
  type parameter and thread through.
\<close>

section \<open>State\<close>

record WorkerStatus =
  ws_URL :: string
  ws_WorkerID :: string
  ws_Online :: bool
  ws_Queued :: int
  ws_Dropped :: uint64
  ws_Pulled :: uint64
  ws_LastSuccess :: instant
  ws_LastAttempt :: instant
  ws_LastError :: string

definition zero_status :: WorkerStatus where
  "zero_status = \<lparr>ws_URL = [], ws_WorkerID = [], ws_Online = False, ws_Queued = 0, ws_Dropped = 0,
     ws_Pulled = 0, ws_LastSuccess = 0, ws_LastAttempt = 0, ws_LastError = []\<rparr>"

record MasterPuller =
  mp_workers :: "string list"
  mp_token :: string
  mp_status :: "string \<rightharpoonup> WorkerStatus"

text \<open>Reading a missing key of the status map gives the zero status.\<close>

definition status_of :: "MasterPuller \<Rightarrow> string \<Rightarrow> WorkerStatus" where
  "status_of p worker = (case mp_status p worker of None \<Rightarrow> zero_status | Some st \<Rightarrow> st)"

text \<open>
  The answers of the HTTP client, with the decoded body where one is read, and the client
  itself: URL and token in, an answer and a new world out.
\<close>

datatype get_reply = GetFailed string | GetReply nat "Batch option"
datatype post_reply = PostFailed string | PostReply nat

record 'w Client =
  http_get :: "string \<Rightarrow> string \<Rightarrow> 'w \<Rightarrow> get_reply \<times> 'w"
  http_post :: "string \<Rightarrow> string \<Rightarrow> uint64 list \<Rightarrow> 'w \<Rightarrow> post_reply \<times> 'w"
  ingest :: "Metadata \<Rightarrow> 'w \<Rightarrow> bool \<times> 'w"
  now :: "'w \<Rightarrow> instant"

definition QueuePath :: string where
  "QueuePath = ''/api/worker/v1/queue''"

section \<open>Operations of the puller\<close>

text \<open>
  \<open>Configure\<close>: \<open>parsed\<close> gives the scheme and the host \<open>url.Parse\<close> finds in a URL, \<open>None\<close> when
  it fails.
\<close>

definition usable_url :: "(string \<Rightarrow> (string \<times> string) option) \<Rightarrow> string \<Rightarrow> bool" where
  "usable_url parsed worker =
    (if worker = [] then False
     else case parsed worker of
       None \<Rightarrow> False
     | Some (scheme, host) \<Rightarrow> (scheme = ''http'' \<or> scheme = ''https'') \<and> host \<noteq> [])"

definition Configure ::
  "(string \<Rightarrow> (string \<times> string) option) \<Rightarrow> string list \<Rightarrow> string \<Rightarrow> MasterPuller \<Rightarrow> MasterPuller" where
  "Configure parsed workerURLs token p =
    (let workers = filter (usable_url parsed) (map (\<lambda>w. TrimRight_slash (TrimSpace w)) workerURLs);
         status = foldl (\<lambda>st worker. st(worker \<mapsto> (status_of p worker)\<lparr>ws_URL := worker\<rparr>)) Map.empty workers
     in p\<lparr>mp_workers := workers, mp_token := token, mp_status := status\<rparr>)"

definition Status :: "instant \<Rightarrow> MasterPuller \<Rightarrow> WorkerStatus list" where
  "Status t p =
    map (\<lambda>worker. let st = status_of p worker
       in st\<lparr>ws_Online := \<not> IsZero (ws_LastSuccess st) \<and> t - ws_LastSuccess st < 30 * Second\<rparr>) (mp_workers p)"

definition recordFailure :: "string \<Rightarrow> string \<Rightarrow> instant \<Rightarrow> MasterPuller \<Rightarrow> MasterPuller" where
  "recordFailure worker err t p =
    p\<lparr>mp_status := (mp_status p)(worker \<mapsto> (status_of p worker)\<lparr>ws_LastAttempt := t, ws_LastError := err\<rparr>)\<rparr>"

definition recordSuccess :: "string \<Rightarrow> Batch \<Rightarrow> nat \<Rightarrow> instant \<Rightarrow> MasterPuller \<Rightarrow> MasterPuller" where
  "recordSuccess worker batch pulled t p =
    (let st = status_of p worker;
         queued = int (b_Queued batch) - int pulled
     in p\<lparr>mp_status := (mp_status p)(worker \<mapsto>
            st\<lparr>ws_WorkerID := b_WorkerID batch, ws_Queued := (if queued < 0 then 0 else queued),
               ws_Dropped := b_Dropped batch, ws_Pulled := ws_Pulled st + of_nat pulled,
               ws_LastAttempt := t, ws_LastSuccess := t, ws_LastError := [], ws_Online := True\<rparr>)\<rparr>)"

definition valid_hash :: "Metadata \<Rightarrow> bool" where
  "valid_hash md \<longleftrightarrow> length (md_InfoHash md) = 20 \<or> length (md_InfoHash md) = 32"

text \<open>
  The loop over a batch: both branches of the source append the id, so the answer of
  \<open>ingest\<close> decides nothing.
\<close>

fun ingest_items :: "'w Client \<Rightarrow> Record list \<Rightarrow> 'w \<Rightarrow> uint64 list \<times> 'w" where
  "ingest_items c [] w = ([], w)"
| "ingest_items c (item # its) w =
     (let (stored, w1) = (if valid_hash (rec_Metadata item) then ingest c (rec_Metadata item) w else (False, w));
          (ids, w2) = ingest_items c its w1
      in (if stored then rec_ID item # ids else rec_ID item # ids, w2))"

definition pullBatch ::
  "'w Client \<Rightarrow> string \<Rightarrow> string \<Rightarrow> MasterPuller \<Rightarrow> 'w \<Rightarrow> (string + bool) \<times> MasterPuller \<times> 'w" where
  "pullBatch c worker token p w =
    (case http_get c (worker @ QueuePath) token w of
       (GetFailed err, w1) \<Rightarrow> (Inl err, p, w1)
     | (GetReply st body, w1) \<Rightarrow>
         if st div 100 \<noteq> 2 then (Inl (''worker returned '' @ show_nat st), p, w1)
         else case body of
           None \<Rightarrow> (Inl ''invalid batch'', p, w1)
         | Some batch \<Rightarrow>
             if length (b_Items batch) = 0 then (Inr False, recordSuccess worker batch 0 (now c w1) p, w1)
             else
               let (ids, w2) = ingest_items c (b_Items batch) w1
               in case http_post c (worker @ QueuePath) token ids w2 of
                    (PostFailed err, w3) \<Rightarrow> (Inl err, p, w3)
                  | (PostReply st2, w3) \<Rightarrow>
                      if st2 div 100 \<noteq> 2 then (Inl (''worker ack returned '' @ show_nat st2), p, w3)
                      else (Inr (b_Queued batch > length (b_Items batch)),
                            recordSuccess worker batch (length ids) (now c w3) p, w3))"

text \<open>\<open>pullWithToken\<close>: at most \<open>maxBatchesPerPull = 8\<close> batches; \<open>n\<close> counts those left.\<close>

fun pull_batches ::
  "nat \<Rightarrow> 'w Client \<Rightarrow> string \<Rightarrow> string \<Rightarrow> MasterPuller \<Rightarrow> 'w \<Rightarrow> string option \<times> MasterPuller \<times> 'w" where
  "pull_batches 0 c worker token p w = (None, p, w)"
| "pull_batches (Suc n) c worker token p w =
     (case pullBatch c worker token p w of
        (Inl err, p', w') \<Rightarrow> (Some err, p', w')
      | (Inr again, p', w') \<Rightarrow> if \<not> again then (None, p', w') else pull_batches n c worker token p' w')"

definition pullWithToken ::
  "'w Client \<Rightarrow> string \<Rightarrow> string \<Rightarrow> MasterPuller \<Rightarrow> 'w \<Rightarrow> string option \<times> MasterPuller \<times> 'w" where
  "pullWithToken c worker token p w = pull_batches 8 c worker token p w"

definition pull ::
  "'w Client \<Rightarrow> string \<Rightarrow> MasterPuller \<Rightarrow> 'w \<Rightarrow> string option \<times> MasterPuller \<times> 'w" where
  "pull c worker p w =
    (if mp_token p = [] then (Some ''cluster token is required'', p, w)
     else pullWithToken c worker (mp_token p) p w)"

definition pullAll :: "'w Client \<Rightarrow> MasterPuller \<Rightarrow> 'w \<Rightarrow> MasterPuller \<times> 'w" where
  "pullAll c p w =
    (let workers = mp_workers p; token = mp_token p in
     if token = [] then (p, w)
     else foldl (\<lambda>(p, w) worker.
            case pullWithToken c worker token p w of
              (Some err, p', w') \<Rightarrow> (recordFailure worker err (now c w') p', w')
            | (None, p', w') \<Rightarrow> (p', w')) (p, w) workers)"

text \<open>Pausing and resuming a worker: \<open>post url token action\<close> is the control request.\<close>

definition sendControl ::
  "(string \<Rightarrow> string \<Rightarrow> string \<Rightarrow> post_reply) \<Rightarrow> string \<Rightarrow> string \<Rightarrow> MasterPuller \<Rightarrow> string option" where
  "sendControl post workerURL act p =
    (case post (workerURL @ ''/api/worker/v1/control'') (mp_token p) act of
       PostFailed err \<Rightarrow> Some err
     | PostReply st \<Rightarrow> if st div 100 \<noteq> 2 then Some (''worker control returned '' @ show_nat st) else None)"

definition PauseWorker :: "(string \<Rightarrow> string \<Rightarrow> string \<Rightarrow> post_reply) \<Rightarrow> string \<Rightarrow> MasterPuller \<Rightarrow> string option" where
  "PauseWorker post workerURL p = sendControl post workerURL ''pause'' p"

definition ResumeWorker :: "(string \<Rightarrow> string \<Rightarrow> string \<Rightarrow> post_reply) \<Rightarrow> string \<Rightarrow> MasterPuller \<Rightarrow> string option" where
  "ResumeWorker post workerURL p = sendControl post workerURL ''resume'' p"

definition NewMasterPuller :: "(string \<Rightarrow> (string \<times> string) option) \<Rightarrow> string list \<Rightarrow> string \<Rightarrow> MasterPuller" where
  "NewMasterPuller parsed workerURLs token =
    Configure parsed workerURLs token \<lparr>mp_workers = [], mp_token = [], mp_status = Map.empty\<rparr>"

section \<open>The handler workers push to\<close>

datatype flush_response = FlushUnauthorized | FlushNotAllowed | FlushInvalid | FlushAck "uint64 list"

fun flush_items :: "'w Client \<Rightarrow> Record list \<Rightarrow> 'w \<Rightarrow> uint64 list \<times> 'w" where
  "flush_items c [] w = ([], w)"
| "flush_items c (item # its) w =
     (let w1 = (if valid_hash (rec_Metadata item) then snd (ingest c (rec_Metadata item) w) else w);
          (ids, w2) = flush_items c its w1
      in (rec_ID item # ids, w2))"

definition masterFlushHandler ::
  "'w Client \<Rightarrow> string \<Rightarrow> string \<Rightarrow> http_method \<Rightarrow> Batch option \<Rightarrow> 'w \<Rightarrow> flush_response \<times> 'w" where
  "masterFlushHandler c token auth meth body w =
    (if token = [] \<or> bearer auth \<noteq> token then (FlushUnauthorized, w)
     else if meth \<noteq> POST then (FlushNotAllowed, w)
     else case body of
       None \<Rightarrow> (FlushInvalid, w)
     | Some batch \<Rightarrow> let (ids, w') = flush_items c (b_Items batch) w in (FlushAck ids, w'))"

lemma ingest_items_ids: "fst (ingest_items c its w) = map rec_ID its"
  by (induction its arbitrary: w) (auto simp: split_beta Let_def)

lemma flush_items_ids: "fst (flush_items c its w) = map rec_ID its"
  by (induction its arbitrary: w) (auto simp: split_beta Let_def)

lemma flush_items_world: "snd (flush_items c its w) = snd (ingest_items c its w)"
  by (induction its arbitrary: w) (auto simp: split_beta Let_def)

section \<open>A worker and its master over a lossy link\<close>

text \<open>
  The world of the puller: one worker's queue behind its handler, the metadata the master
  has taken in, and the metadata the worker accepted (which the code does not keep). Each
  HTTP exchange goes through, or loses its request, or loses its reply after the request
  took effect.
\<close>

datatype link = Works | RequestLost | ReplyLost

record World =
  w_queue :: WorkerQueue
  w_ingested :: "Metadata list"
  w_accepted :: "Metadata list"
  w_tick :: nat

record Setup =
  su_links :: "nat \<Rightarrow> link"
  su_token :: string
  su_maxBatch :: int
  su_stores :: "Metadata \<Rightarrow> bool"

definition worker_get :: "Setup \<Rightarrow> string \<Rightarrow> string \<Rightarrow> World \<Rightarrow> get_reply \<times> World" where
  "worker_get su url token w =
    (let w1 = w\<lparr>w_tick := w_tick w + 1\<rparr> in
     case queue_Handler (su_token su) (su_maxBatch su) (''Bearer '' @ token) GET False None (w_queue w) of
       (SendBatch b _, q) \<Rightarrow> (if su_links su (w_tick w) = Works then (GetReply 200 (Some b), w1) else (GetFailed [], w1))
     | (_, q) \<Rightarrow> (if su_links su (w_tick w) = Works then (GetReply 401 None, w1) else (GetFailed [], w1)))"

definition worker_post :: "Setup \<Rightarrow> string \<Rightarrow> string \<Rightarrow> uint64 list \<Rightarrow> World \<Rightarrow> post_reply \<times> World" where
  "worker_post su url token ids w =
    (let w1 = w\<lparr>w_tick := w_tick w + 1\<rparr>;
         (r, q) = queue_Handler (su_token su) (su_maxBatch su) (''Bearer '' @ token) POST False (Some ids) (w_queue w);
         st = (case r of QueuedCount _ \<Rightarrow> 200 | _ \<Rightarrow> 401)
     in case su_links su (w_tick w) of
          RequestLost \<Rightarrow> (PostFailed [], w1)
        | ReplyLost \<Rightarrow> (PostFailed [], w1\<lparr>w_queue := q\<rparr>)
        | Works \<Rightarrow> (PostReply st, w1\<lparr>w_queue := q\<rparr>))"

definition worker_client :: "Setup \<Rightarrow> World Client" where
  "worker_client su =
    \<lparr>http_get = worker_get su, http_post = worker_post su,
     ingest = (\<lambda>md w. (su_stores su md, w\<lparr>w_ingested := w_ingested w @ [md]\<rparr>)),
     now = (\<lambda>w. int (w_tick w) + 1)\<rparr>"

text \<open>A push: the master's handler sees the batch unless the request is lost.\<close>

definition push :: "Setup \<Rightarrow> World \<Rightarrow> World" where
  "push su w =
    (let q = w_queue w;
         w1 = w\<lparr>w_tick := w_tick w + 1\<rparr>;
         batch = takeBatch (if flushBatch q < 1 then 64 else flushBatch q) q;
         posts = b_Items batch \<noteq> [] \<and> masterURL q \<noteq> [] \<and> clusterToken q \<noteq> [];
         (r, w2) = masterFlushHandler (worker_client su) (su_token su) (''Bearer '' @ clusterToken q) POST (Some batch) w1;
         reply = (if su_links su (w_tick w) = Works
                  then (case r of FlushAck ids \<Rightarrow> PushReply 200 (Some ids) | _ \<Rightarrow> PushReply 401 None)
                  else PushFailed);
         w3 = (if posts \<and> su_links su (w_tick w) \<noteq> RequestLost then w2 else w1)
     in w3\<lparr>w_queue := snd (Flush (\<lambda>_ _. reply) q)\<rparr>)"

datatype cl_event = Discover Metadata | Pull string | Push | Reconfigure string string

fun cl_step :: "Setup \<Rightarrow> MasterPuller \<times> World \<Rightarrow> cl_event \<Rightarrow> MasterPuller \<times> World" where
  "cl_step su (p, w) (Discover md) =
     (let (ok, q) = Enqueue md (w_queue w)
      in (p, w\<lparr>w_queue := q, w_accepted := (if ok then w_accepted w @ [md] else w_accepted w)\<rparr>))"
| "cl_step su (p, w) (Pull url) = snd (pull (worker_client su) url p w)"
| "cl_step su (p, w) Push = (p, push su w)"
| "cl_step su (p, w) (Reconfigure url tok) = (p, w\<lparr>w_queue := SetMaster url tok (w_queue w)\<rparr>)"

text \<open>
  Nothing is lost: what the worker accepted is what it still holds and what was
  acknowledged, and everything acknowledged with a usable hash was taken in before.
\<close>

definition no_loss :: "World \<Rightarrow> bool" where
  "no_loss w \<longleftrightarrow> wq_wf (w_queue w)
    \<and> mset (w_accepted w) = mset (map rec_Metadata (items (w_queue w))) + mset (acked_log (w_queue w))
    \<and> (\<forall>md \<in> set (acked_log (w_queue w)). valid_hash md \<longrightarrow> md \<in> set (w_ingested w))"

lemma mset_map_filter_split:
  "mset (map f xs) = mset (map f (filter P xs)) + mset (map f (filter (\<lambda>x. \<not> P x) xs))"
  by (induction xs) auto

lemma Ack_no_loss:
  assumes "no_loss w"
    and "\<forall>r \<in> set (items (w_queue w)). rec_ID r \<in> set ids \<longrightarrow> valid_hash (rec_Metadata r)
           \<longrightarrow> rec_Metadata r \<in> set (w_ingested w)"
  shows "no_loss (w\<lparr>w_queue := Ack ids (w_queue w)\<rparr>)"
  using assms Ack_wf [of "w_queue w" ids]
    mset_map_filter_split [of rec_Metadata "items (w_queue w)" "\<lambda>r. rec_ID r \<in> set ids"]
  by (auto simp: no_loss_def ac_simps)

text \<open>Taking in a batch: every record with a usable hash is in, and nothing else changes.\<close>

lemma ingest_items_world:
  "\<exists>mds. snd (ingest_items (worker_client su) its w) = w\<lparr>w_ingested := w_ingested w @ mds\<rparr>
     \<and> set mds = {md \<in> rec_Metadata ` set its. valid_hash md}"
proof (induction its arbitrary: w)
  case Nil
  show ?case by (intro exI [of _ "[]"]) simp
next
  case (Cons r its)
  let ?w = "if valid_hash (rec_Metadata r) then w\<lparr>w_ingested := w_ingested w @ [rec_Metadata r]\<rparr> else w"
  obtain mds where mds: "snd (ingest_items (worker_client su) its ?w) = ?w\<lparr>w_ingested := w_ingested ?w @ mds\<rparr>"
      "set mds = {md \<in> rec_Metadata ` set its. valid_hash md}"
    using Cons.IH by blast
  have "snd (ingest_items (worker_client su) (r # its) w) = snd (ingest_items (worker_client su) its ?w)"
    by (simp add: worker_client_def split_beta Let_def)
  with mds show ?case
    by (intro exI [of _ "(if valid_hash (rec_Metadata r) then [rec_Metadata r] else []) @ mds"]) auto
qed

lemma no_loss_ingest: "no_loss w \<Longrightarrow> no_loss (w\<lparr>w_ingested := w_ingested w @ mds\<rparr>)"
  by (auto simp: no_loss_def)

lemma no_loss_tick [simp]: "no_loss (w\<lparr>w_tick := n\<rparr>) = no_loss w"
  by (simp add: no_loss_def)

lemma no_loss_ack_batch:
  assumes "no_loss w" and "wq_wf (w_queue w)" and "b = b_Items (takeBatch lim (w_queue w))"
    and "w' = snd (ingest_items (worker_client su) b w)"
  shows "no_loss w'" and "w_queue w' = w_queue w"
    and "no_loss (w'\<lparr>w_queue := Ack (map rec_ID b) (w_queue w)\<rparr>)"
proof -
  obtain mds where mds: "w' = w\<lparr>w_ingested := w_ingested w @ mds\<rparr>"
      "set mds = {md \<in> rec_Metadata ` set b. valid_hash md}"
    using ingest_items_world [of su b w] assms(4) by auto
  show nl: "no_loss w'" using no_loss_ingest [OF assms(1)] mds(1) by simp
  show q: "w_queue w' = w_queue w" using mds(1) by simp
  have "r \<in> set b" if r: "r \<in> set (items (w_queue w))" "rec_ID r \<in> set (map rec_ID b)" for r
  proof -
    have sub: "set b \<subseteq> set (items (w_queue w))" using takeBatch_subset assms(3) by simp
    obtain r' where "r' \<in> set b" "rec_ID r' = rec_ID r" using r(2) by auto
    then show ?thesis
      using r(1) sub wq_distinct [OF assms(2)] by (metis distinct_map inj_onD subsetD)
  qed
  then show "no_loss (w'\<lparr>w_queue := Ack (map rec_ID b) (w_queue w)\<rparr>)"
    using Ack_no_loss [OF nl, of "map rec_ID b"] q mds by auto
qed

lemma nextID_frame:
  "nextID (w_queue (snd (ingest_items (worker_client su) its w))) = nextID (w_queue w)"
  using ingest_items_world [of su its w] by auto

lemma worker_get_cases:
  assumes "worker_get su url token w = (r, w1)"
  shows "w1 = w\<lparr>w_tick := w_tick w + 1\<rparr>
    \<and> (\<forall>st b. r = GetReply st (Some b) \<longrightarrow> (\<exists>lim. b = takeBatch lim (w_queue w))
         \<and> su_token su = token \<and> token \<noteq> [])"
  using assms
  by (auto simp: worker_get_def queue_Handler_def bearer_def Let_def split: if_splits)

lemma worker_post_cases:
  assumes "worker_post su url (su_token su) ids w = (r, w1)" and "su_token su \<noteq> []"
  shows "w1 = w\<lparr>w_tick := w_tick w + 1\<rparr>
    \<or> w1 = w\<lparr>w_tick := w_tick w + 1, w_queue := Ack ids (w_queue w)\<rparr>"
  using assms
  by (auto simp: worker_post_def queue_Handler_def bearer_def Let_def split: link.splits)

lemma worker_client_sel [simp]:
  "http_get (worker_client su) = worker_get su" "http_post (worker_client su) = worker_post su"
  by (simp_all add: worker_client_def)

lemma pullBatch_no_loss:
  assumes "no_loss w" and "pullBatch (worker_client su) worker token p w = (r, p', w')"
  shows "no_loss w' \<and> nextID (w_queue w') = nextID (w_queue w)"
proof -
  obtain g w1 where g: "worker_get su (worker @ QueuePath) token w = (g, w1)" by force
  have w1: "w1 = w\<lparr>w_tick := w_tick w + 1\<rparr>" using worker_get_cases [OF g] by blast
  have nl1: "no_loss w1" using assms(1) w1 by simp
  show ?thesis
  proof (cases "\<exists>st b. g = GetReply st (Some b) \<and> st div 100 = 2 \<and> b_Items b \<noteq> []")
    case False
    then have "w' = w1"
      using assms(2) g
      by (auto simp: pullBatch_def split: get_reply.splits if_splits option.splits)
    then show ?thesis using nl1 w1 by simp
  next
    case True
    then obtain st b where b: "g = GetReply st (Some b)" "st div 100 = 2" "b_Items b \<noteq> []" by blast
    then obtain lim where lim: "b = takeBatch lim (w_queue w1)" and tok: "su_token su = token" "token \<noteq> []"
      using worker_get_cases [OF g] w1 by auto
    define w2 where "w2 = snd (ingest_items (worker_client su) (b_Items b) w1)"
    have ing: "ingest_items (worker_client su) (b_Items b) w1 = (map rec_ID (b_Items b), w2)"
      using ingest_items_ids [of "worker_client su" "b_Items b" w1] by (metis w2_def prod.collapse)
    have wf: "wq_wf (w_queue w1)" using nl1 by (simp add: no_loss_def)
    have lim': "b_Items b = b_Items (takeBatch lim (w_queue w1))" by (simp add: lim)
    note nl2 = no_loss_ack_batch [OF nl1 wf lim' w2_def]
    obtain pr w3 where post: "worker_post su (worker @ QueuePath) token (map rec_ID (b_Items b)) w2 = (pr, w3)"
      by force
    have w3: "w' = w3"
      using assms(2) g b ing post
      by (auto simp: pullBatch_def split: post_reply.splits if_splits)
    from worker_post_cases [OF post [folded tok(1)]] tok
    have "w3 = w2\<lparr>w_tick := w_tick w2 + 1\<rparr>
        \<or> w3 = (w2\<lparr>w_queue := Ack (map rec_ID (b_Items b)) (w_queue w1)\<rparr>)\<lparr>w_tick := w_tick w2 + 1\<rparr>"
      using nl2(2) by auto
    moreover have "w_queue w1 = w_queue w" using w1 by simp
    ultimately show ?thesis
      unfolding w3 using nl2 by (elim disjE) simp_all
  qed
qed

lemma pull_batches_no_loss:
  "no_loss w \<Longrightarrow> pull_batches n (worker_client su) worker token p w = (r, p', w')
    \<Longrightarrow> no_loss w' \<and> nextID (w_queue w') = nextID (w_queue w)"
proof (induction n arbitrary: p w)
  case 0
  then show ?case by simp
next
  case (Suc n)
  obtain b p1 w1 where b: "pullBatch (worker_client su) worker token p w = (b, p1, w1)"
    by (metis prod_cases3)
  note nl = pullBatch_no_loss [OF Suc.prems(1) b]
  show ?case
  proof (cases "b = Inr True")
    case True
    then have "pull_batches n (worker_client su) worker token p1 w1 = (r, p', w')"
      using Suc.prems(2) b by simp
    then show ?thesis using Suc.IH nl by metis
  next
    case False
    then have "w' = w1" using Suc.prems(2) b by (auto split: sum.splits if_splits)
    then show ?thesis using nl by simp
  qed
qed

lemma Flush_cases:
  "snd (Flush (\<lambda>_ _. reply) q) = q
   \<or> (\<exists>ids st. reply = PushReply st (Some ids) \<and> snd (Flush (\<lambda>_ _. reply) q) = Ack ids q
        \<and> b_Items (takeBatch (if flushBatch q < 1 then 64 else flushBatch q) q) \<noteq> []
        \<and> masterURL q \<noteq> [] \<and> clusterToken q \<noteq> [])"
  by (auto simp: Flush_def Let_def split: push_reply.splits option.splits)

lemma push_no_loss:
  assumes "no_loss w"
  shows "no_loss (push su w) \<and> nextID (w_queue (push su w)) = nextID (w_queue w)"
proof -
  define q where "q = w_queue w"
  define w1 where "w1 = w\<lparr>w_tick := w_tick w + 1\<rparr>"
  define b where "b = takeBatch (if flushBatch q < 1 then 64 else flushBatch q) q"
  obtain r w2 where h: "masterFlushHandler (worker_client su) (su_token su) (''Bearer '' @ clusterToken q)
      POST (Some b) w1 = (r, w2)" by force
  define posts where "posts \<longleftrightarrow> b_Items b \<noteq> [] \<and> masterURL q \<noteq> [] \<and> clusterToken q \<noteq> []"
  define reply where "reply = (if su_links su (w_tick w) = Works
     then (case r of FlushAck ids \<Rightarrow> PushReply 200 (Some ids) | _ \<Rightarrow> PushReply 401 None) else PushFailed)"
  define w3 where "w3 = (if posts \<and> su_links su (w_tick w) \<noteq> RequestLost then w2 else w1)"
  have push: "push su w = w3\<lparr>w_queue := snd (Flush (\<lambda>_ _. reply) q)\<rparr>"
    unfolding push_def Let_def
    unfolding q_def [symmetric] w1_def [symmetric]
    unfolding b_def [symmetric] h prod.case
    unfolding posts_def [symmetric] reply_def [symmetric] w3_def [symmetric] ..
  have nl1: "no_loss w1" "w_queue w1 = q" "wq_wf (w_queue w1)"
    using assms by (auto simp: w1_def q_def no_loss_def)
  have w2: "w2 = w1 \<or> w2 = snd (ingest_items (worker_client su) (b_Items b) w1)"
      "r = FlushAck ids \<Longrightarrow> ids = map rec_ID (b_Items b) \<and> w2 = snd (ingest_items (worker_client su) (b_Items b) w1)" for ids
    using h flush_items_world [of "worker_client su" "b_Items b" w1]
      flush_items_ids [of "worker_client su" "b_Items b" w1]
    by (auto simp: masterFlushHandler_def Let_def split: if_splits prod.splits)
  have lim: "b_Items b = b_Items (takeBatch (if flushBatch q < 1 then 64 else flushBatch q) (w_queue w1))"
    by (simp add: b_def nl1)
  note ack = no_loss_ack_batch [OF nl1(1,3) lim refl, of su, unfolded nl1(2)]
  have nl3: "no_loss w3" "w_queue w3 = q"
    using ack nl1 w2(1) by (auto simp: w3_def)
  from Flush_cases [of reply q] show ?thesis
  proof (elim disjE exE conjE)
    assume f: "snd (Flush (\<lambda>_ _. reply) q) = q"
    have "push su w = w3\<lparr>w_queue := w_queue w3\<rparr>" by (simp only: push f nl3(2))
    also have "\<dots> = w3" by simp
    finally show ?thesis using nl3 q_def by simp
  next
    fix ids st
    assume rep: "reply = PushReply st (Some ids)" and f: "snd (Flush (\<lambda>_ _. reply) q) = Ack ids q"
      and p: "b_Items (takeBatch (if flushBatch q < 1 then 64 else flushBatch q) q) \<noteq> []"
        "masterURL q \<noteq> []" "clusterToken q \<noteq> []"
    have fa: "r = FlushAck ids" "su_links su (w_tick w) = Works"
      using rep by (auto simp: reply_def split: if_splits flush_response.splits)
    have "w3 = snd (ingest_items (worker_client su) (b_Items b) w1)" "ids = map rec_ID (b_Items b)"
      using w2(2) [OF fa(1)] p fa(2) by (auto simp: w3_def posts_def b_def)
    then have "push su w = snd (ingest_items (worker_client su) (b_Items b) w1)
        \<lparr>w_queue := Ack (map rec_ID (b_Items b)) q\<rparr>"
      using push f by simp
    then show ?thesis using ack(3) q_def by simp
  qed
qed

lemma cl_step_no_loss:
  assumes "no_loss w" and "nextID (w_queue w) + 1 \<noteq> 0" and "cl_step su (p, w) e = (p', w')"
  shows "no_loss w' \<and> (nextID (w_queue w') = nextID (w_queue w) \<or> nextID (w_queue w') = nextID (w_queue w) + 1)"
proof (cases e)
  case (Discover md)
  have wf: "wq_wf (snd (Enqueue md (w_queue w)))"
    using Enqueue_wf assms(1,2) by (simp add: no_loss_def)
  show ?thesis
    using assms(1,3) Discover wf
    by (cases rule: Enqueue_cases [of "w_queue w" md]) (auto simp: no_loss_def)
next
  case (Pull url)
  show ?thesis
  proof (cases "mp_token p = []")
    case True
    then show ?thesis using assms(1,3) Pull by (simp add: pull_def)
  next
    case False
    obtain r where "pull_batches 8 (worker_client su) url (mp_token p) p w = (r, p', w')"
      using assms(3) Pull False by (metis cl_step.simps(2) prod.collapse pullWithToken_def pull_def)
    from pull_batches_no_loss [OF assms(1) this] show ?thesis by blast
  qed
next
  case Push
  then show ?thesis using push_no_loss [OF assms(1)] assms(3) by auto
next
  case (Reconfigure url tok)
  then show ?thesis using assms(1,3) by (auto simp: no_loss_def SetMaster_def wq_wf_def)
qed

lemma cl_run_no_loss:
  "no_loss w \<Longrightarrow> unat (nextID (w_queue w)) + length es < 2 ^ 64 - 1 \<Longrightarrow>
   no_loss (snd (foldl (cl_step su) (p, w) es))"
proof (induction es arbitrary: p w)
  case Nil
  then show ?case by simp
next
  case (Cons e es)
  obtain p' w' where s: "cl_step su (p, w) e = (p', w')" by force
  have ne: "nextID (w_queue w) + 1 \<noteq> 0"
  proof
    assume "nextID (w_queue w) + 1 = 0"
    then have "nextID (w_queue w) = - 1" by (simp add: eq_neg_iff_add_eq_0)
    then have "unat (nextID (w_queue w)) = 2 ^ 64 - 1"
      by (simp add: unsigned_minus_1_eq_mask mask_eq_exp_minus_1)
    with Cons.prems(2) show False by simp
  qed
  note nl = cl_step_no_loss [OF Cons.prems(1) ne s]
  have "unat (nextID (w_queue w')) \<le> Suc (unat (nextID (w_queue w)))"
    using nl ne by (auto simp: unatSuc add.commute [of _ 1])
  then show ?case using Cons.IH [of w' p'] nl Cons.prems(2) s by simp
qed

definition fresh_world :: "string \<Rightarrow> int \<Rightarrow> World" where
  "fresh_world wid lim = \<lparr>w_queue = NewWorkerQueue wid lim [] None, w_ingested = [], w_accepted = [], w_tick = 0\<rparr>"

lemma fresh_world_no_loss: "no_loss (fresh_world wid lim)"
  using NewWorkerQueue_wf [of wid lim "[]"]
  by (simp add: no_loss_def fresh_world_def NewWorkerQueue_def loadFromCache_def Let_def)

section \<open>Properties\<close>

text \<open>C4. Delivery from worker to master is at least once: whatever the order of
  discoveries, pulls, pushes and changes of the master address, and whatever requests and
  replies the links lose, every record the worker accepted is still in its queue or was
  acknowledged, as often as it was accepted, and every acknowledged record with a usable
  hash was handed to the master's ingest function.\<close>

theorem delivery_at_least_once:
  assumes "length es < 2 ^ 64 - 1"
  shows "let w = snd (foldl (cl_step su) (p, fresh_world wid lim) es) in
     mset (w_accepted w) = mset (map rec_Metadata (items (w_queue w))) + mset (acked_log (w_queue w))
   \<and> (\<forall>md \<in> set (w_accepted w). valid_hash md \<longrightarrow>
        md \<in> rec_Metadata ` set (items (w_queue w)) \<or> md \<in> set (w_ingested w))"
proof -
  let ?w = "snd (foldl (cl_step su) (p, fresh_world wid lim) es)"
  have "nextID (w_queue (fresh_world wid lim)) = 0"
    by (simp add: fresh_world_def NewWorkerQueue_def loadFromCache_def Let_def)
  then have nl: "no_loss ?w"
    using cl_run_no_loss [OF fresh_world_no_loss, of wid lim es su p] assms by simp
  then have "set (w_accepted ?w) = rec_Metadata ` set (items (w_queue ?w)) \<union> set (acked_log (w_queue ?w))"
    unfolding no_loss_def by (metis set_map set_mset_mset set_mset_union)
  with nl show ?thesis by (auto simp: no_loss_def Let_def)
qed

definition sample_setup :: Setup where
  "sample_setup = \<lparr>su_links = (\<lambda>n. if n = 1 then ReplyLost else Works), su_token = ''t'', su_maxBatch = 16,
     su_stores = (\<lambda>_. True)\<rparr>"

theorem delivery_at_least_once_witness:
  "let w = snd (foldl (cl_step sample_setup)
      (\<lparr>mp_workers = [''http://w''], mp_token = ''t'', mp_status = Map.empty\<rparr>, fresh_world ''w'' 10)
      [Discover sample_md, Pull ''http://w''])
   in mset (w_accepted w) = mset (map rec_Metadata (items (w_queue w))) + mset (acked_log (w_queue w))"
  using delivery_at_least_once [of "[Discover sample_md, Pull ''http://w'']" sample_setup
      "\<lparr>mp_workers = [''http://w''], mp_token = ''t'', mp_status = Map.empty\<rparr>" "''w''" 10]
  by (simp add: Let_def)

text \<open>The master acknowledges what it pulls whether or not it could take it in: with an
  ingest function that refuses everything, a pull over working links still acknowledges
  the whole batch and the worker forgets it, so a record the master failed to store is
  gone.\<close>

theorem pull_acks_refused_records:
  assumes "wq_wf (w_queue w)" and "items (w_queue w) \<noteq> []" and "\<forall>n. su_links su n = Works"
    and "su_token su = token" and "token \<noteq> []" and "\<forall>md. \<not> su_stores su md"
    and "b = b_Items (takeBatch (if su_maxBatch su < 1 \<or> su_maxBatch su > 64 then 16 else su_maxBatch su) (w_queue w))"
    and "pullBatch (worker_client su) worker token p w = (r, p', w')"
  shows "items (w_queue w) = b @ items (w_queue w') \<and> b \<noteq> []
    \<and> acked_log (w_queue w') = acked_log (w_queue w) @ map rec_Metadata b \<and> (\<exists>again. r = Inr again)"
proof -
  let ?B = "takeBatch (if su_maxBatch su < 1 \<or> su_maxBatch su > 64 then 16 else su_maxBatch su) (w_queue w)"
  let ?w1 = "w\<lparr>w_tick := w_tick w + 1\<rparr>"
  have g: "worker_get su (worker @ QueuePath) token w = (GetReply 200 (Some ?B), ?w1)"
    using assms(3-5) by (simp add: worker_get_def queue_Handler_def bearer_def Let_def)
  have ne: "b \<noteq> []" using takeBatch_nonempty [OF assms(2)] assms(7) by simp
  define w2 where "w2 = snd (ingest_items (worker_client su) b ?w1)"
  have ing: "ingest_items (worker_client su) b ?w1 = (map rec_ID b, w2)"
    using ingest_items_ids [of "worker_client su" b ?w1] by (metis w2_def prod.collapse)
  have q2: "w_queue w2 = w_queue w" using ingest_items_world [of su b ?w1] by (auto simp: w2_def)
  let ?w3 = "w2\<lparr>w_tick := w_tick w2 + 1, w_queue := Ack (map rec_ID b) (w_queue w2)\<rparr>"
  have post: "worker_post su (worker @ QueuePath) token (map rec_ID b) w2 = (PostReply 200, ?w3)"
    using assms(3-5) by (simp add: worker_post_def queue_Handler_def bearer_def Let_def)
  have w': "w' = ?w3" "\<exists>again. r = Inr again"
    using assms(8) g ing post ne assms(7) by (auto simp: pullBatch_def)
  have "items (w_queue w) = b @ items (Ack (map rec_ID b) (w_queue w))"
    unfolding assms(7) by (rule wq.fetched_or_kept [OF assms(1)])
  moreover have "acked_log (Ack (map rec_ID b) (w_queue w)) = acked_log (w_queue w) @ map rec_Metadata b"
    using ack_batch_log [OF assms(1,7)] .
  ultimately show ?thesis using w' ne q2 by simp
qed

definition refusing_setup :: Setup where
  "refusing_setup = \<lparr>su_links = (\<lambda>_. Works), su_token = ''t'', su_maxBatch = 1, su_stores = (\<lambda>_. False)\<rparr>"

definition sample_world :: World where
  "sample_world = \<lparr>w_queue = sample_queue, w_ingested = [], w_accepted = [], w_tick = 0\<rparr>"

theorem pull_acks_refused_records_witness:
  "\<exists>r p' w'. pullBatch (worker_client refusing_setup) ''http://w'' ''t''
       \<lparr>mp_workers = [], mp_token = ''t'', mp_status = Map.empty\<rparr> sample_world = (r, p', w')
     \<and> length (acked_log (w_queue w')) = length (acked_log sample_queue) + 1"
proof -
  let ?p = "\<lparr>mp_workers = [], mp_token = ''t'', mp_status = Map.empty\<rparr>"
  have a: "wq_wf (w_queue sample_world)" "items (w_queue sample_world) \<noteq> []"
    "\<forall>n. su_links refusing_setup n = Works" "su_token refusing_setup = ''t''" "''t'' \<noteq> []"
    "\<forall>md. \<not> su_stores refusing_setup md"
    using sample_queue_wf by (simp_all add: sample_world_def refusing_setup_def sample_queue_items)
  obtain r p' w' where r: "pullBatch (worker_client refusing_setup) ''http://w'' ''t'' ?p sample_world = (r, p', w')"
    by (metis prod_cases3)
  have "b_Items (takeBatch 1 (w_queue sample_world)) = take 1 (items sample_queue)"
    by (simp add: takeBatch_def sample_world_def sample_queue_items)
  moreover have "acked_log (w_queue w') = acked_log sample_queue
      @ map rec_Metadata (b_Items (takeBatch 1 (w_queue sample_world)))"
    using pull_acks_refused_records [OF a refl r]
    by (simp add: refusing_setup_def sample_world_def)
  ultimately show ?thesis using r by (auto simp: sample_queue_items)
qed

text \<open>Only the cluster token opens the queue and the flush endpoint: a request without it,
  and every request when no token is configured, is answered \<open>401\<close> and changes neither the
  queue nor the master's store; with it a worker's whole push is acknowledged, and exactly
  its records with a 20- or 32-byte hash are taken in.\<close>

theorem cluster_token_required:
  assumes "token = [] \<or> bearer auth \<noteq> token"
  shows "queue_Handler token mb auth meth gz body q = (Unauthorized, q)
    \<and> masterFlushHandler c token auth meth batch w = (FlushUnauthorized, w)
    \<and> (tok \<noteq> [] \<longrightarrow> (\<exists>mds. masterFlushHandler (worker_client su) tok (''Bearer '' @ tok) POST (Some b) w0
         = (FlushAck (map rec_ID (b_Items b)), w0\<lparr>w_ingested := w_ingested w0 @ mds\<rparr>)
        \<and> set mds = {md \<in> rec_Metadata ` set (b_Items b). valid_hash md}))"
proof -
  obtain mds where "snd (ingest_items (worker_client su) (b_Items b) w0) = w0\<lparr>w_ingested := w_ingested w0 @ mds\<rparr>"
    "set mds = {md \<in> rec_Metadata ` set (b_Items b). valid_hash md}"
    using ingest_items_world by blast
  then show ?thesis
    using assms flush_items_ids [of "worker_client su" "b_Items b" w0]
      flush_items_world [of "worker_client su" "b_Items b" w0]
    by (auto simp: queue_Handler_def masterFlushHandler_def bearer_def split: prod.splits)
qed

theorem cluster_token_required_witness:
  "fst (queue_Handler ''secret'' 16 ''Bearer wrong'' GET False None sample_queue) = Unauthorized"
  by (simp add: bearer_def cluster_token_required [THEN conjunct1])

end
