(* ===== verification/Metadata_Sink.thy ===== *)
theory Metadata_Sink
  imports Indexing_Service Worker_Queue "HOL-Library.Multiset"
begin

text \<open>
  The metadata sink, \<open>dhtc-client/sink.go\<close>: it starts one download per info hash, hands
  the next peer to a new download when one fails, and delivers metadata through a channel
  of ten places. The goroutines of \<open>download\<close> are part of the state: one entry per info
  hash with the peer it talks to and how far it got (spawned, past the check for
  termination, holding a slot of the semaphore). The download itself, \<open>Client.Do\<close>, ends in
  a success or an error, which are events here. A step that has to wait, for a mutex, the
  semaphore or room in the channel, is not enabled and gives \<open>None\<close>.
\<close>

section \<open>State\<close>

datatype phase = Spawned | Queued | Active

record Sink =
  maxNLeeches :: int
  maxConcurrentDownloads :: nat
  incomingInfoHashes :: "(bytes \<times> AddrPort list) list"
  incomingFamilies :: "bytes \<rightharpoonup> nat"
  incomingPeers :: "bytes \<rightharpoonup> AddrPort set"
  terminated :: bool
  drain :: "Metadata list"
  flushing :: "Metadata option"
  downloads :: "(bytes \<times> AddrPort \<times> phase) list"
  sk_accepted :: "bytes list"
  sk_delivered :: "Metadata list"
  sk_discarded :: "bytes list"

text \<open>
  \<open>flushing\<close> is the metadata a \<open>flush\<close> holding \<open>drainMx\<close> is about to send; the three last
  fields record the calls that returned \<open>true\<close>, everything sent to the channel and the calls
  of \<open>onDiscard\<close>.
\<close>

definition drain_capacity :: nat where
  "drain_capacity = 10"

definition NewSink :: "int \<Rightarrow> nat \<Rightarrow> Sink" where
  "NewSink maxLeeches maxConcurrent =
    \<lparr>maxNLeeches = maxLeeches, maxConcurrentDownloads = maxConcurrent, incomingInfoHashes = [],
     incomingFamilies = Map.empty, incomingPeers = Map.empty, terminated = False, drain = [],
     flushing = None, downloads = [], sk_accepted = [], sk_delivered = [], sk_discarded = []\<rparr>"

section \<open>Operations\<close>

fun unique_loop :: "AddrPort set \<Rightarrow> AddrPort list \<Rightarrow> AddrPort set \<Rightarrow> AddrPort list" where
  "unique_loop existing [] seen = []"
| "unique_loop existing (peer # ps) seen =
     (if \<not> AddrPort_IsValid peer \<or> AP_Port peer = 0 then unique_loop existing ps seen
      else if peer \<in> existing then unique_loop existing ps seen
      else if peer \<in> seen then unique_loop existing ps seen
      else peer # unique_loop existing ps (insert peer seen))"

definition uniqueValidPeers :: "AddrPort list \<Rightarrow> AddrPort set \<Rightarrow> AddrPort list" where
  "uniqueValidPeers peers existing = unique_loop existing peers {}"

definition peers_of :: "Sink \<Rightarrow> bytes \<Rightarrow> AddrPort list" where
  "peers_of ms key = (case map_of (incomingInfoHashes ms) key of None \<Rightarrow> [] | Some ps \<Rightarrow> ps)"

definition Sink_Sink :: "IndexingResult \<Rightarrow> Sink \<Rightarrow> bool \<times> Sink" where
  "Sink_Sink res ms =
    (if terminated ms then (False, ms)
     else if int (length (incomingInfoHashes ms)) \<ge> maxNLeeches ms then (False, ms)
     else
       let key = ir_infoHash res;
           peerAddrs = uniqueValidPeers (ir_peerAddrs res) {}
       in if map_of (incomingInfoHashes ms) key \<noteq> None then (False, ms)
          else case peerAddrs of
            [] \<Rightarrow> (False, ms)
          | peer # others \<Rightarrow>
              (True, ms\<lparr>incomingInfoHashes := AList.update key others (incomingInfoHashes ms),
                        incomingFamilies := (incomingFamilies ms)(key \<mapsto> ir_family res),
                        incomingPeers := (incomingPeers ms)(key \<mapsto> set peerAddrs),
                        downloads := downloads ms @ [(key, peer, Spawned)],
                        sk_accepted := sk_accepted ms @ [key]\<rparr>))"

definition AddPeers :: "IndexingResult \<Rightarrow> Sink \<Rightarrow> bool \<times> Sink" where
  "AddPeers res ms =
    (if terminated ms then (False, ms)
     else
       let key = ir_infoHash res in
       if map_of (incomingInfoHashes ms) key = None then (False, ms)
       else
         let known = (case incomingPeers ms key of None \<Rightarrow> {} | Some s \<Rightarrow> s);
             peers = uniqueValidPeers (ir_peerAddrs res) known
         in if length peers = 0 then (False, ms)
            else (True, ms\<lparr>incomingPeers := (incomingPeers ms)(key \<mapsto> known \<union> set peers),
                           incomingInfoHashes := AList.update key (peers_of ms key @ peers) (incomingInfoHashes ms)\<rparr>))"

text \<open>\<open>onPeers\<close>: peers from a peer exchange are appended as they come.\<close>

definition onPeers :: "bytes \<Rightarrow> AddrPort list \<Rightarrow> Sink \<Rightarrow> Sink" where
  "onPeers key peers ms =
    (if map_of (incomingInfoHashes ms) key = None then ms
     else ms\<lparr>incomingInfoHashes := AList.update key (peers_of ms key @ peers) (incomingInfoHashes ms)\<rparr>)"

definition forget :: "bytes \<Rightarrow> Sink \<Rightarrow> Sink" where
  "forget key ms = ms\<lparr>incomingInfoHashes := AList.delete key (incomingInfoHashes ms),
     incomingFamilies := (incomingFamilies ms)(key := None),
     incomingPeers := (incomingPeers ms)(key := None)\<rparr>"

text \<open>
  \<open>flush\<close> up to the channel send: under \<open>drainMx\<close>, it drops the metadata of a terminated
  sink and otherwise forgets the hash and is ready to send.
\<close>

definition flush_begin :: "Metadata \<Rightarrow> Sink \<Rightarrow> Sink option" where
  "flush_begin result ms =
    (if flushing ms \<noteq> None then None
     else
       let key = md_InfoHash result;
           ms1 = ms\<lparr>downloads := AList.delete key (downloads ms)\<rparr>
       in if terminated ms then Some ms1
          else
            let fam = (case incomingFamilies ms key of None \<Rightarrow> 0 | Some f \<Rightarrow> f)
            in Some ((forget key ms1)\<lparr>flushing := Some (result\<lparr>md_Family := int fam\<rparr>)\<rparr>))"

text \<open>The send \<open>ms.drain <- result\<close>, after which the mutex and the slot are released.\<close>

definition flush_send :: "Sink \<Rightarrow> Sink option" where
  "flush_send ms =
    (case flushing ms of
       None \<Rightarrow> None
     | Some md \<Rightarrow>
         if length (drain ms) \<ge> drain_capacity then None
         else Some (ms\<lparr>drain := drain ms @ [md], flushing := None, sk_delivered := sk_delivered ms @ [md]\<rparr>))"

text \<open>\<open>onLeechError\<close> for the download of \<open>key\<close>, which ends with it.\<close>

definition onLeechError :: "bytes \<Rightarrow> Sink \<Rightarrow> Sink" where
  "onLeechError key ms =
    (let ms1 = ms\<lparr>downloads := AList.delete key (downloads ms)\<rparr> in
     if terminated ms then ms1
     else case peers_of ms1 key of
       peer # others \<Rightarrow>
         ms1\<lparr>incomingInfoHashes := AList.update key others (incomingInfoHashes ms1),
             downloads := downloads ms1 @ [(key, peer, Spawned)]\<rparr>
     | [] \<Rightarrow> (forget key ms1)\<lparr>sk_discarded := sk_discarded ms1 @ [key]\<rparr>)"

definition phase_of :: "Sink \<Rightarrow> bytes \<Rightarrow> phase option" where
  "phase_of ms key = map_option snd (map_of (downloads ms) key)"

definition set_phase :: "bytes \<Rightarrow> phase \<Rightarrow> Sink \<Rightarrow> Sink" where
  "set_phase key ph ms = ms\<lparr>downloads := map (\<lambda>(k, peer, p). (k, peer, if k = key then ph else p)) (downloads ms)\<rparr>"

text \<open>Slots of the semaphore in use: active downloads and the one that is flushing.\<close>

definition slots :: "Sink \<Rightarrow> nat" where
  "slots ms = length (filter (\<lambda>(k, peer, p). p = Active) (downloads ms)) + (if flushing ms = None then 0 else 1)"

text \<open>\<open>download\<close>: the check for termination, then the wait for a slot.\<close>

definition download_check :: "bytes \<Rightarrow> Sink \<Rightarrow> Sink option" where
  "download_check key ms =
    (if phase_of ms key \<noteq> Some Spawned then None
     else if terminated ms then Some (ms\<lparr>downloads := AList.delete key (downloads ms)\<rparr>)
     else Some (set_phase key Queued ms))"

definition download_acquire :: "bytes \<Rightarrow> Sink \<Rightarrow> Sink option" where
  "download_acquire key ms =
    (if phase_of ms key \<noteq> Some Queued \<or> slots ms \<ge> maxConcurrentDownloads ms then None
     else Some (set_phase key Active ms))"

text \<open>\<open>Terminate\<close> needs \<open>drainMx\<close>, so it waits for a \<open>flush\<close> in its channel send.\<close>

definition Sink_Terminate :: "Sink \<Rightarrow> Sink option" where
  "Sink_Terminate ms = (if flushing ms \<noteq> None then None else Some (ms\<lparr>terminated := True\<rparr>))"

text \<open>The consumer of \<open>Drain()\<close> takes the oldest metadata.\<close>

definition drain_receive :: "Sink \<Rightarrow> (Metadata \<times> Sink) option" where
  "drain_receive ms = (case drain ms of [] \<Rightarrow> None | md # mds \<Rightarrow> Some (md, ms\<lparr>drain := mds\<rparr>))"

datatype sk_event =
    SkSink IndexingResult
  | SkAddPeers IndexingResult
  | SkCheck bytes
  | SkAcquire bytes
  | SkPeers bytes "AddrPort list"
  | SkSuccess Metadata
  | SkSend
  | SkError bytes
  | SkReceive
  | SkTerminate

text \<open>A step of the sink: \<open>None\<close> when the event is not enabled.\<close>

fun sk_step :: "Sink \<Rightarrow> sk_event \<Rightarrow> Sink option" where
  "sk_step ms (SkSink res) = Some (snd (Sink_Sink res ms))"
| "sk_step ms (SkAddPeers res) = Some (snd (AddPeers res ms))"
| "sk_step ms (SkCheck key) = download_check key ms"
| "sk_step ms (SkAcquire key) = download_acquire key ms"
| "sk_step ms (SkPeers key peers) = (if phase_of ms key = Some Active then Some (onPeers key peers ms) else None)"
| "sk_step ms (SkSuccess md) = (if phase_of ms (md_InfoHash md) = Some Active then flush_begin md ms else None)"
| "sk_step ms SkSend = flush_send ms"
| "sk_step ms (SkError key) = (if phase_of ms key = Some Active then Some (onLeechError key ms) else None)"
| "sk_step ms SkReceive = map_option snd (drain_receive ms)"
| "sk_step ms SkTerminate = Sink_Terminate ms"

definition sk_run_step :: "Sink \<Rightarrow> sk_event \<Rightarrow> Sink" where
  "sk_run_step ms e = (case sk_step ms e of None \<Rightarrow> ms | Some ms' \<Rightarrow> ms')"

section \<open>Invariant\<close>

definition keys_of :: "('k \<times> 'v) list \<Rightarrow> 'k list" where
  "keys_of al = map fst al"

lemma keys_update: "keys_of (AList.update k v al) = (if k \<in> set (keys_of al) then keys_of al else keys_of al @ [k])"
  by (simp add: keys_of_def update_keys)

lemma keys_delete: "keys_of (AList.delete k al) = removeAll k (keys_of al)"
  by (simp add: keys_of_def delete_keys)

lemma keys_append [simp]: "keys_of (xs @ ys) = keys_of xs @ keys_of ys"
  by (simp add: keys_of_def)

lemma keys_simps [simp]: "keys_of [] = []" "keys_of ((k, v) # al) = k # keys_of al"
  by (simp_all add: keys_of_def)

lemma map_of_keys: "map_of al k = None \<longleftrightarrow> k \<notin> set (keys_of al)"
  by (simp add: map_of_eq_None_iff keys_of_def)

text \<open>
  While the sink runs there is exactly one download for each incoming hash, and every
  accepted hash is in one place: being downloaded, being sent, delivered, or discarded.
\<close>

definition sk_inv :: "Sink \<Rightarrow> bool" where
  "sk_inv ms \<longleftrightarrow>
    distinct (keys_of (incomingInfoHashes ms)) \<and> distinct (keys_of (downloads ms))
    \<and> (\<not> terminated ms \<longrightarrow> set (keys_of (downloads ms)) = set (keys_of (incomingInfoHashes ms))
         \<and> mset (sk_accepted ms) = mset (keys_of (downloads ms))
             + mset (map md_InfoHash (case flushing ms of None \<Rightarrow> [] | Some md \<Rightarrow> [md]))
             + mset (map md_InfoHash (sk_delivered ms)) + mset (sk_discarded ms))
    \<and> int (length (incomingInfoHashes ms)) \<le> max 0 (maxNLeeches ms)
    \<and> slots ms \<le> maxConcurrentDownloads ms
    \<and> length (drain ms) \<le> drain_capacity"

lemma NewSink_inv: "sk_inv (NewSink maxLeeches maxConcurrent)"
  by (simp add: sk_inv_def NewSink_def slots_def)

lemma length_keys [simp]: "length (keys_of al) = length al"
  by (simp add: keys_of_def)

lemma length_delete_le: "length (AList.delete k al) \<le> length al"
  by (simp add: AList.delete_eq)

lemma length_update_known: "k \<in> set (keys_of al) \<Longrightarrow> length (AList.update k v al) = length al"
  using keys_update [of k v al] by (metis length_keys)

definition active_count :: "(bytes \<times> AddrPort \<times> phase) list \<Rightarrow> nat" where
  "active_count ds = length (filter (\<lambda>(k, peer, p). p = Active) ds)"

lemma slots_eq: "slots ms = active_count (downloads ms) + (if flushing ms = None then 0 else 1)"
  by (simp add: slots_def active_count_def)

lemma active_count_simps [simp]:
  "active_count [] = 0"
  "active_count ((k, peer, p) # ds) = (if p = Active then 1 else 0) + active_count ds"
  "active_count (xs @ ys) = active_count xs + active_count ys"
  by (auto simp: active_count_def)

lemma active_count_delete_le: "active_count (AList.delete k ds) \<le> active_count ds"
  by (induction ds) (auto simp: AList.delete_eq)

lemma delete_absent: "k \<notin> set (keys_of ds) \<Longrightarrow> AList.delete k ds = ds"
  by (simp add: keys_of_def)

lemma delete_Cons [simp]:
  "AList.delete k ((k', v) # ds) = (if k' = k then AList.delete k ds else (k', v) # AList.delete k ds)"
  by (auto simp: AList.delete_eq)

lemma active_count_delete:
  "distinct (keys_of ds) \<Longrightarrow> map_of ds k = Some (peer, p) \<Longrightarrow>
   active_count ds = active_count (AList.delete k ds) + (if p = Active then 1 else 0)"
proof (induction ds)
  case Nil
  then show ?case by simp
next
  case (Cons d ds)
  obtain k' pe' p' where d: "d = (k', pe', p')" by (cases d)
  show ?case
    using Cons by (cases "k' = k") (auto simp: d delete_absent)
qed

definition rephase :: "bytes \<Rightarrow> phase \<Rightarrow> (bytes \<times> AddrPort \<times> phase) list \<Rightarrow> (bytes \<times> AddrPort \<times> phase) list" where
  "rephase key ph ds = map (\<lambda>(k, peer, p). (k, peer, if k = key then ph else p)) ds"

lemma rephase_simps [simp]:
  "rephase key ph [] = []"
  "rephase key ph ((k, peer, p) # ds) = (k, peer, if k = key then ph else p) # rephase key ph ds"
  by (simp_all add: rephase_def)

lemma keys_rephase [simp]: "keys_of (rephase key ph ds) = keys_of ds"
  by (induction ds) auto

lemma rephase_absent: "key \<notin> set (keys_of ds) \<Longrightarrow> rephase key ph ds = ds"
  by (induction ds) auto

lemma active_count_rephase:
  "distinct (keys_of ds) \<Longrightarrow> map_of ds key = Some (peer, p) \<Longrightarrow>
   active_count (rephase key ph ds) + (if p = Active then 1 else 0) = active_count ds + (if ph = Active then 1 else 0)"
proof (induction ds)
  case Nil
  then show ?case by simp
next
  case (Cons d ds)
  obtain k' pe' p' where d: "d = (k', pe', p')" by (cases d)
  show ?case
    using Cons by (cases "k' = key") (auto simp: d rephase_absent)
qed

lemma set_phase_eq: "set_phase key ph ms = ms\<lparr>downloads := rephase key ph (downloads ms)\<rparr>"
  by (simp add: set_phase_def rephase_def)

lemma phase_of_Some: "phase_of ms key = Some p \<longleftrightarrow> (\<exists>peer. map_of (downloads ms) key = Some (peer, p))"
  by (auto simp: phase_of_def)

lemma mset_removeAll_distinct:
  "distinct xs \<Longrightarrow> x \<in> set xs \<Longrightarrow> mset xs = add_mset x (mset (removeAll x xs))"
  by (simp add: distinct_remove1_removeAll [symmetric])

section \<open>Every operation keeps it\<close>

lemma phase_key: "phase_of ms key = Some p \<Longrightarrow> key \<in> set (keys_of (downloads ms))"
  by (metis map_of_keys option.distinct(1) phase_of_Some)

lemma Sink_inv [inv_keep]:
  assumes "sk_inv ms"
  shows "sk_inv (snd (Sink_Sink res ms))"
proof (cases "fst (Sink_Sink res ms)")
  case False
  then have "snd (Sink_Sink res ms) = ms"
    by (auto simp: Sink_Sink_def Let_def split: if_splits list.splits)
  then show ?thesis using assms by simp
next
  case True
  let ?k = "ir_infoHash res"
  obtain peer others where p: "uniqueValidPeers (ir_peerAddrs res) {} = peer # others"
    and nt: "\<not> terminated ms" and room: "int (length (incomingInfoHashes ms)) < maxNLeeches ms"
    and new: "?k \<notin> set (keys_of (incomingInfoHashes ms))"
    using True by (auto simp: Sink_Sink_def Let_def map_of_keys split: if_splits list.splits)
  have "length (AList.update ?k others (incomingInfoHashes ms)) = Suc (length (incomingInfoHashes ms))"
    using keys_update [of ?k others "incomingInfoHashes ms"] new
    by (metis length_append_singleton length_keys)
  then show ?thesis
    using assms p nt room new
    by (auto simp: sk_inv_def Sink_Sink_def Let_def map_of_keys keys_update slots_eq)
qed

lemma AddPeers_inv [inv_keep]: "sk_inv ms \<Longrightarrow> sk_inv (snd (AddPeers res ms))"
  by (auto simp: sk_inv_def AddPeers_def Let_def map_of_keys keys_update slots_eq length_update_known)

lemma onPeers_inv [inv_keep]: "sk_inv ms \<Longrightarrow> sk_inv (onPeers key peers ms)"
  by (auto simp: sk_inv_def onPeers_def map_of_keys keys_update slots_eq length_update_known)

lemma phase_change_inv:
  assumes "sk_inv ms" and "phase_of ms key = Some p" and "p \<noteq> Active"
    and "ph = Active \<Longrightarrow> slots ms < maxConcurrentDownloads ms"
  shows "sk_inv (set_phase key ph ms)"
proof -
  obtain peer where m: "map_of (downloads ms) key = Some (peer, p)"
    using assms(2) by (auto simp: phase_of_Some)
  have "active_count (rephase key ph (downloads ms)) = active_count (downloads ms) + (if ph = Active then 1 else 0)"
    using active_count_rephase [OF _ m, of ph] assms(1,3) by (simp add: sk_inv_def)
  then show ?thesis
    using assms(1,4) by (auto simp: sk_inv_def set_phase_eq slots_eq split: if_splits)
qed

lemma drop_download_inv:
  assumes "sk_inv ms" and "terminated ms"
  shows "sk_inv (ms\<lparr>downloads := AList.delete key (downloads ms)\<rparr>)"
  using assms active_count_delete_le [of key "downloads ms"]
  by (auto simp: sk_inv_def keys_delete slots_eq distinct_removeAll)

lemma flush_begin_inv [inv_keep]:
  assumes inv: "sk_inv ms" and ph: "phase_of ms (md_InfoHash md) = Some Active" and f: "flush_begin md ms = Some ms'"
  shows "sk_inv ms'"
proof (cases "terminated ms")
  case True
  then show ?thesis using f drop_download_inv [OF inv True] by (auto simp: flush_begin_def split: if_splits)
next
  case False
  let ?k = "md_InfoHash md"
  obtain peer where m: "map_of (downloads ms) ?k = Some (peer, Active)"
    using ph by (auto simp: phase_of_Some)
  have fl: "flushing ms = None" using f by (auto simp: flush_begin_def split: if_splits)
  have d: "distinct (keys_of (downloads ms))" "?k \<in> set (keys_of (downloads ms))"
    using inv phase_key [OF ph] by (auto simp: sk_inv_def)
  have ac: "active_count (downloads ms) = Suc (active_count (AList.delete ?k (downloads ms)))"
    using active_count_delete [OF d(1) m] by simp
  show ?thesis
    using inv False f fl ac length_delete_le [of ?k "incomingInfoHashes ms"] mset_removeAll_distinct [OF d]
    by (auto simp: sk_inv_def flush_begin_def forget_def Let_def keys_delete slots_eq distinct_removeAll)
qed

lemma flush_send_inv [inv_keep]: "sk_inv ms \<Longrightarrow> flush_send ms = Some ms' \<Longrightarrow> sk_inv ms'"
  by (auto simp: sk_inv_def flush_send_def slots_eq drain_capacity_def split: option.splits if_splits)

lemma onLeechError_inv [inv_keep]:
  assumes inv: "sk_inv ms" and ph: "phase_of ms key = Some Active"
  shows "sk_inv (onLeechError key ms)"
proof (cases "terminated ms")
  case True
  then show ?thesis using drop_download_inv [OF inv True] by (simp add: onLeechError_def)
next
  case False
  have d: "distinct (keys_of (downloads ms))" "key \<in> set (keys_of (downloads ms))"
    "key \<in> set (keys_of (incomingInfoHashes ms))"
    using inv phase_key [OF ph] False by (auto simp: sk_inv_def)
  note facts = active_count_delete_le [of key "downloads ms"] mset_removeAll_distinct [OF d(1,2)]
    length_delete_le [of key "incomingInfoHashes ms"]
  show ?thesis
  proof (cases "peers_of ms key")
    case Nil
    then show ?thesis
      using inv False facts
      by (auto simp: sk_inv_def onLeechError_def forget_def Let_def peers_of_def keys_delete slots_eq
          distinct_removeAll)
  next
    case (Cons peer others)
    then show ?thesis
      using inv False facts d
      by (auto simp: sk_inv_def onLeechError_def Let_def peers_of_def keys_delete keys_update slots_eq
          distinct_removeAll length_update_known)
  qed
qed

lemma sk_step_inv:
  assumes "sk_inv ms" and "sk_step ms e = Some ms'"
  shows "sk_inv ms'"
proof (cases e)
  case (SkCheck key)
  then show ?thesis
    using assms drop_download_inv [OF assms(1)] phase_change_inv [OF assms(1), of key Spawned Queued]
    by (auto simp: download_check_def split: if_splits)
next
  case (SkAcquire key)
  then show ?thesis
    using assms phase_change_inv [OF assms(1), of key Queued Active]
    by (auto simp: download_acquire_def split: if_splits)
next
  case SkReceive
  then show ?thesis
    using assms by (auto simp: drain_receive_def sk_inv_def slots_eq split: list.splits)
next
  case SkTerminate
  then show ?thesis
    using assms by (auto simp: Sink_Terminate_def sk_inv_def slots_eq split: if_splits)
next
  case (SkSink res)
  then show ?thesis using assms(2) Sink_inv [OF assms(1), of res] by simp
next
  case (SkAddPeers res)
  then show ?thesis using assms(2) AddPeers_inv [OF assms(1), of res] by simp
next
  case (SkPeers key peers)
  then show ?thesis using assms(2) onPeers_inv [OF assms(1), of key peers] by (simp split: if_splits)
next
  case (SkSuccess md)
  then show ?thesis using assms(2) flush_begin_inv [OF assms(1)] by (simp split: if_splits)
next
  case SkSend
  then show ?thesis using assms(2) flush_send_inv [OF assms(1)] by simp
next
  case (SkError key)
  then show ?thesis using assms(2) onLeechError_inv [OF assms(1), of key] by (simp split: if_splits)
qed

interpretation sink: step_system sk_run_step sk_inv
  by unfold_locales (auto simp: sk_run_step_def split: option.splits dest: sk_step_inv)

section \<open>Termination\<close>

definition stalled :: "Metadata list \<Rightarrow> Metadata \<Rightarrow> Sink \<Rightarrow> bool" where
  "stalled mds md ms \<longleftrightarrow> flushing ms = Some md \<and> drain ms = mds \<and> length mds = drain_capacity"

lemma Sink_frame [simp]:
  "flushing (snd (Sink_Sink res ms)) = flushing ms" "drain (snd (Sink_Sink res ms)) = drain ms"
  "flushing (snd (AddPeers res ms)) = flushing ms" "drain (snd (AddPeers res ms)) = drain ms"
  "flushing (onPeers key peers ms) = flushing ms" "drain (onPeers key peers ms) = drain ms"
  "flushing (onLeechError key ms) = flushing ms" "drain (onLeechError key ms) = drain ms"
  "flushing (set_phase key ph ms) = flushing ms" "drain (set_phase key ph ms) = drain ms"
  by (auto simp: Sink_Sink_def AddPeers_def onPeers_def onLeechError_def forget_def set_phase_def Let_def
      split: list.splits)

lemma stalled_step:
  assumes "stalled mds md ms" and "e \<noteq> SkReceive"
  shows "stalled mds md (sk_run_step ms e)"
proof -
  have none: "flush_begin md' ms = None" "flush_send ms = None" "Sink_Terminate ms = None" for md'
    using assms(1) by (simp_all add: stalled_def flush_begin_def flush_send_def Sink_Terminate_def)
  have upd: "stalled mds md (ms\<lparr>downloads := ds\<rparr>)" for ds
    using assms(1) by (simp add: stalled_def)
  have frame: "stalled mds md ms'" if "flushing ms' = flushing ms" "drain ms' = drain ms" for ms'
    using assms(1) that by (simp add: stalled_def)
  have "stalled mds md ms'" if s: "sk_step ms e = Some ms'" for ms'
  proof (cases e)
    case (SkCheck key)
    then show ?thesis
      using s upd frame [of ms'] by (auto simp: download_check_def split: if_splits)
  next
    case (SkAcquire key)
    then show ?thesis
      using s frame [of ms'] by (auto simp: download_acquire_def split: if_splits)
  next
    case (SkSuccess md')
    then show ?thesis using s none by (simp split: if_splits)
  qed (use s none assms(2) frame [of ms'] in \<open>auto split: if_splits\<close>)
  then show ?thesis
    using assms(1) by (simp add: sk_run_step_def split: option.splits)
qed

lemma stalled_run:
  "stalled mds md ms \<Longrightarrow> SkReceive \<notin> set es \<Longrightarrow> stalled mds md (foldl sk_run_step ms es)"
proof (induction es arbitrary: ms)
  case Nil
  then show ?case by simp
next
  case (Cons e es)
  have "e \<noteq> SkReceive" using Cons.prems(2) by force
  then show ?case using Cons.IH [OF stalled_step [OF Cons.prems(1)]] Cons.prems(2) by simp
qed

definition over :: "Metadata list \<Rightarrow> bytes list \<Rightarrow> Sink \<Rightarrow> bool" where
  "over dl dc ms \<longleftrightarrow> terminated ms \<and> flushing ms = None \<and> sk_delivered ms = dl \<and> sk_discarded ms = dc"

interpretation after: step_system sk_run_step "over dl dc" for dl dc
proof
  fix ms e assume "over dl dc ms"
  then show "over dl dc (sk_run_step ms e)"
    by (cases e) (auto simp: over_def sk_run_step_def Sink_Sink_def AddPeers_def onPeers_def onLeechError_def
        flush_begin_def flush_send_def download_check_def download_acquire_def set_phase_def
        Sink_Terminate_def drain_receive_def Let_def split: option.splits list.splits)
qed

section \<open>A sink with a full channel\<close>

definition one_peer :: IndexingResult where
  "one_peer = \<lparr>ir_infoHash = replicate 20 1, ir_peerAddrs = [AddrPort (IP4 1) 6881], ir_family = 4\<rparr>"

definition round_begin :: "sk_event list" where
  "round_begin = [SkSink one_peer, SkCheck (replicate 20 1), SkAcquire (replicate 20 1), SkSuccess sample_md]"

definition after_rounds :: "nat \<Rightarrow> Sink" where
  "after_rounds n = (NewSink 1 1)\<lparr>drain := replicate n sample_md, sk_delivered := replicate n sample_md,
     sk_accepted := replicate n (replicate 20 1)\<rparr>"

lemma sample_md_sel [simp]: "md_InfoHash sample_md = replicate 20 1" "sample_md\<lparr>md_Family := 4\<rparr> = sample_md"
  by (simp_all add: sample_md_def)

lemma round_begin_run:
  "foldl sk_run_step (after_rounds n) round_begin =
    (after_rounds n)\<lparr>flushing := Some sample_md, sk_accepted := replicate (Suc n) (replicate 20 1)\<rparr>"
  by (simp add: round_begin_def after_rounds_def NewSink_def sk_run_step_def one_peer_def Sink_Sink_def
      uniqueValidPeers_def AddrPort_IsValid_def Addr_IsValid_def download_check_def download_acquire_def
      phase_of_def set_phase_def slots_def flush_begin_def forget_def Let_def replicate_append_same
      del: replicate.simps)
    (simp add: replicate_append_same [symmetric])

lemma round_run:
  assumes "n < 10"
  shows "foldl sk_run_step (after_rounds n) (round_begin @ [SkSend]) = after_rounds (Suc n)"
  using assms unfolding foldl_append round_begin_run
  by (simp add: sk_run_step_def flush_send_def drain_capacity_def after_rounds_def NewSink_def
      replicate_append_same)

lemma rounds_run: "n \<le> 10 \<Longrightarrow>
  foldl sk_run_step (NewSink 1 1) (concat (replicate n (round_begin @ [SkSend]))) = after_rounds n"
proof (induction n)
  case 0
  show ?case by (simp add: after_rounds_def NewSink_def)
next
  case (Suc n)
  have "replicate (Suc n) (round_begin @ [SkSend]) = replicate n (round_begin @ [SkSend]) @ [round_begin @ [SkSend]]"
    by (simp only: replicate_append_same replicate_Suc)
  then have "concat (replicate (Suc n) (round_begin @ [SkSend]))
      = concat (replicate n (round_begin @ [SkSend])) @ (round_begin @ [SkSend])"
    by simp
  then show ?case using Suc round_run [of n] by (simp only: foldl_append Suc_leD Suc_le_lessD)
qed

definition full_sink :: Sink where
  "full_sink = foldl sk_run_step (NewSink 1 1) (concat (replicate 10 (round_begin @ [SkSend])) @ round_begin)"

lemma full_sink_stalled: "stalled (replicate 10 sample_md) sample_md full_sink"
  unfolding full_sink_def foldl_append rounds_run [OF order_refl] round_begin_run
  by (simp add: stalled_def after_rounds_def drain_capacity_def)

lemma full_sink_running: "\<not> terminated full_sink"
  unfolding full_sink_def foldl_append rounds_run [OF order_refl] round_begin_run
  by (simp add: after_rounds_def NewSink_def)

section \<open>Properties\<close>

text \<open>C2. The sink loses no hash and keeps its bounds, in every interleaving of results,
  downloads, peers, successes, failures and deliveries: while it has not been terminated,
  each accepted hash is in exactly one place, as often as it was accepted (in download,
  being sent, delivered, or discarded), the hashes in download are those it still collects
  peers for, each with one download; at most \<open>maxNLeeches\<close> hashes are collected, at most
  \<open>maxConcurrentDownloads\<close> downloads run, and the channel holds at most ten.\<close>

theorem sink_conserves_hashes:
  "let ms = foldl sk_run_step (NewSink maxLeeches maxConcurrent) es in
     (\<not> terminated ms \<longrightarrow>
        mset (sk_accepted ms) = mset (keys_of (downloads ms))
          + mset (map md_InfoHash (case flushing ms of None \<Rightarrow> [] | Some md \<Rightarrow> [md]))
          + mset (map md_InfoHash (sk_delivered ms)) + mset (sk_discarded ms)
        \<and> set (keys_of (downloads ms)) = set (keys_of (incomingInfoHashes ms)))
   \<and> distinct (keys_of (downloads ms))
   \<and> int (length (incomingInfoHashes ms)) \<le> max 0 (maxNLeeches ms)
   \<and> slots ms \<le> maxConcurrentDownloads ms
   \<and> length (drain ms) \<le> 10"
  using sink.run_keeps [OF NewSink_inv, of maxLeeches maxConcurrent es]
  by (auto simp: sk_inv_def Let_def drain_capacity_def)

theorem sink_conserves_hashes_witness:
  "mset (sk_accepted full_sink) = mset (keys_of (downloads full_sink))
      + mset (map md_InfoHash (case flushing full_sink of None \<Rightarrow> [] | Some md \<Rightarrow> [md]))
      + mset (map md_InfoHash (sk_delivered full_sink)) + mset (sk_discarded full_sink)
   \<and> length (drain full_sink) \<le> 10"
  using sink_conserves_hashes [of 1 1 "concat (replicate 10 (round_begin @ [SkSend])) @ round_begin"]
    full_sink_running
  unfolding full_sink_def [symmetric] by (simp add: Let_def)

text \<open>A sink whose channel is full cannot be terminated by its own consumer: while a
  download waits to send its metadata, \<open>Terminate\<close> waits for it, and no other event but a
  receive from the channel ends the wait. The crawl loop is the only receiver and calls
  \<open>Terminate\<close> after it has stopped receiving.\<close>

theorem terminate_waits_for_receiver:
  assumes "flushing ms = Some md" and "length (drain ms) = 10" and "SkReceive \<notin> set es"
  shows "Sink_Terminate (foldl sk_run_step ms es) = None \<and> drain (foldl sk_run_step ms es) = drain ms"
proof -
  have "stalled (drain ms) md (foldl sk_run_step ms es)"
    using stalled_run [of "drain ms" md ms es] assms by (simp add: stalled_def drain_capacity_def)
  then show ?thesis by (simp add: stalled_def Sink_Terminate_def)
qed

theorem terminate_waits_for_receiver_witness:
  "Sink_Terminate (foldl sk_run_step full_sink [SkTerminate, SkSend]) = None"
  using terminate_waits_for_receiver [of full_sink sample_md "[SkTerminate, SkSend]"] full_sink_stalled
  by (simp add: stalled_def)

text \<open>A terminated sink neither delivers nor discards anything any more, whatever its
  remaining downloads do: a hash that is in download when the sink is terminated is never
  reported to \<open>onDiscard\<close>, so the crawler's cache of known hashes keeps it.\<close>

theorem terminated_sink_strands:
  assumes "Sink_Terminate ms = Some ms'"
  shows "sk_delivered (foldl sk_run_step ms' es) = sk_delivered ms
    \<and> sk_discarded (foldl sk_run_step ms' es) = sk_discarded ms"
proof -
  have "over (sk_delivered ms) (sk_discarded ms) ms'"
    using assms by (auto simp: over_def Sink_Terminate_def split: if_splits)
  from after.run_keeps [OF this, of es] show ?thesis by (simp add: over_def)
qed

theorem terminated_sink_strands_witness:
  "sk_discarded (foldl sk_run_step (((after_rounds 0)\<lparr>downloads := [(replicate 20 1, AddrPort (IP4 1) 6881, Active)]\<rparr>)
       \<lparr>terminated := True\<rparr>) [SkError (replicate 20 1)]) = []"
  using terminated_sink_strands [of "(after_rounds 0)\<lparr>downloads := [(replicate 20 1, AddrPort (IP4 1) 6881, Active)]\<rparr>"
      "((after_rounds 0)\<lparr>downloads := [(replicate 20 1, AddrPort (IP4 1) 6881, Active)]\<rparr>)\<lparr>terminated := True\<rparr>"
      "[SkError (replicate 20 1)]"]
  by (simp add: Sink_Terminate_def after_rounds_def NewSink_def)

end
