(* ===== verification/Sha256.thy ===== *)
theory Sha256
  imports Sha1
begin

text \<open>
  \<open>sha256.Sum256\<close> of Go's \<open>crypto/sha256\<close>, with which \<open>dhtc-client/client.go\<close> checks the
  metadata of torrents whose info hash has 32 bytes: the function of FIPS 180-4. The padding
  and the block length are those of SHA-1.
\<close>

text \<open>
  The round constants are the first 32 bits of the fractional parts of the cube roots of the
  first 64 primes, the initial state those of the square roots of the first 8: \<open>frac_root k p\<close>
  is the \<open>k\<close>-th root of \<open>p\<close> times \<open>2 ^ 32\<close>, cut to 32 bits. \<open>root_bits\<close> finds an integer root
  from its highest bit down.
\<close>

fun root_bits :: "nat \<Rightarrow> nat \<Rightarrow> nat \<Rightarrow> nat \<Rightarrow> nat" where
  "root_bits k n 0 r = r"
| "root_bits k n (Suc b) r = root_bits k n b (if (r + 2 ^ b) ^ k \<le> n then r + 2 ^ b else r)"

definition frac_root :: "nat \<Rightarrow> nat \<Rightarrow> 32 word" where
  "frac_root k p = of_nat (root_bits k (p * 2 ^ (32 * k)) 40 0)"

definition sha256_primes :: "nat list" where
  "sha256_primes = filter (\<lambda>p. list_all (\<lambda>d. p mod d \<noteq> 0) [2..<p]) [2..<312]"

definition sha256_K :: "32 word list" where
  "sha256_K = map (frac_root 3) sha256_primes"

definition sha256_H :: "32 word list" where
  "sha256_H = map (frac_root 2) [2, 3, 5, 7, 11, 13, 17, 19]"

definition sha256_extend_word :: "32 word list \<Rightarrow> 32 word" where
  "sha256_extend_word ws =
    (let l = length ws; x = ws ! (l - 15); y = ws ! (l - 2);
         s0 = word_rotr 7 x XOR word_rotr 18 x XOR drop_bit 3 x;
         s1 = word_rotr 17 y XOR word_rotr 19 y XOR drop_bit 10 y
     in ws ! (l - 16) + s0 + ws ! (l - 7) + s1)"

fun sha256_extend :: "nat \<Rightarrow> 32 word list \<Rightarrow> 32 word list" where
  "sha256_extend 0 ws = ws"
| "sha256_extend (Suc n) ws = sha256_extend n (ws @ [sha256_extend_word ws])"

definition sha256_round :: "32 word list \<Rightarrow> 32 word \<times> 32 word \<Rightarrow> 32 word list" where
  "sha256_round s kw =
    (let a = s ! 0; b = s ! 1; c = s ! 2; e = s ! 4; f = s ! 5; g = s ! 6;
         s1 = word_rotr 6 e XOR word_rotr 11 e XOR word_rotr 25 e;
         ch = (e AND f) XOR ((NOT e) AND g);
         t1 = s ! 7 + s1 + ch + fst kw + snd kw;
         s0 = word_rotr 2 a XOR word_rotr 13 a XOR word_rotr 22 a;
         maj = (a AND b) XOR (a AND c) XOR (b AND c)
     in [t1 + s0 + maj, a, b, c, s ! 3 + t1, e, f, g])"

definition sha256_block :: "32 word list \<Rightarrow> bytes \<Rightarrow> 32 word list" where
  "sha256_block h block =
    map2 (+) h (foldl sha256_round h
      (zip sha256_K (sha256_extend 48 (map be_word (chunks 4 16 block)))))"

definition sha256_Sum256 :: "bytes \<Rightarrow> bytes" where
  "sha256_Sum256 m =
    (let p = sha1_pad m
     in concat (map (word_be 4) (foldl sha256_block sha256_H
          (chunks 64 (length p div 64) p))))"

lemma length_sha256_round [simp]: "length (sha256_round s kw) = 8"
  by (simp add: sha256_round_def Let_def)

lemma length_foldl_sha256_round: "length s = 8 \<Longrightarrow> length (foldl sha256_round s kws) = 8"
  by (induction kws arbitrary: s) simp_all

lemma length_foldl_sha256_block: "length h = 8 \<Longrightarrow> length (foldl sha256_block h bs) = 8"
  by (induction bs arbitrary: h) (simp_all add: sha256_block_def length_foldl_sha256_round)

lemma length_concat_word_be: "length (concat (map (word_be n) ws)) = n * length ws"
  by (induction ws) simp_all

lemma length_sha256_Sum256 [simp]: "length (sha256_Sum256 m) = 32"
  by (simp add: sha256_Sum256_def Let_def length_concat_word_be length_foldl_sha256_block sha256_H_def)

end
