(* ===== verification/Client.thy ===== *)
theory Client
  imports Worker_Queue Netip Sha256
begin

text \<open>
  The metadata download, \<open>dhtc-client/client.go\<close> with the peer lists of
  \<open>dhtc-client/util.go\<close>: one connection to one peer, the BitTorrent and the extension
  handshake, the request of all pieces, the transfer loop and the checks on what arrived.
  A connection is the bytes the peer sends before it ends (by the peer or by the deadline)
  and a script of what its \<open>Write\<close> calls return; the bencode package and the \<open>metainfo\<close>
  package are the record \<open>Lib\<close> of their functions. \<open>Panic\<close> is a Go panic: \<open>Do\<close> runs in a
  goroutine of its own and nothing in the repository recovers, so it ends the process.
\<close>

section \<open>Data\<close>

record rootDict =
  rd_UTMetadata :: int
  rd_UTPex :: int
  rd_MetadataSize :: int

record extDict =
  ed_MsgType :: int
  ed_Piece :: int

record pexMsg =
  px_Added :: bytes
  px_Added6 :: bytes

text \<open>The fields of \<open>metainfo.Info\<close> and \<open>metainfo.FileInfo\<close> the client reads.\<close>

record FileInfo =
  fi_Length :: int
  fi_Path :: "string list"

record Info =
  in_Name :: string
  in_Length :: int
  in_PieceLength :: int
  in_Pieces :: bytes
  in_Files :: "FileInfo list"

text \<open>
  \<open>dec_ext\<close> is \<open>bencode.NewDecoder(buf).Decode\<close> with the bytes it leaves unread in the
  buffer; \<open>unm_root\<close>, \<open>unm_pex\<close> and \<open>unm_info\<close> are \<open>bencode.Unmarshal\<close> at the three types,
  \<open>mar_ext\<close> is \<open>bencode.Marshal\<close>; the others are methods of \<open>metainfo\<close>.
\<close>

record Lib =
  unm_root :: "bytes \<Rightarrow> rootDict option"
  unm_pex :: "bytes \<Rightarrow> pexMsg option"
  unm_info :: "bytes \<Rightarrow> Info option"
  dec_ext :: "bytes \<Rightarrow> (extDict \<times> bytes) option"
  mar_ext :: "extDict \<Rightarrow> bytes option"
  TotalLength :: "Info \<Rightarrow> int"
  NumPieces :: "Info \<Rightarrow> int"
  DisplayPath :: "FileInfo \<Rightarrow> Info \<Rightarrow> string"

datatype client_error =
    DialError
  | SetLingerError
  | NoDelayError
  | SetDeadlineError
  | WriteError
  | ReadError
  | CorruptHandshake
  | PeerInfohashMismatch
  | NoExtensionProtocol
  | MessageTooLong
  | RootDictError
  | BadMetadataSize
  | BadUtMetadata
  | ExtDictError
  | PeerRejected
  | PieceTooLong
  | PieceShortButIncomplete
  | ReceivedTooMuch
  | InfohashMismatch
  | InfoError
  | PiecesLength
  | ZeroPieceLength
  | PieceCount
  | NegativeFileSize

datatype call = OnSuccess Metadata | OnError client_error | OnPeers bytes "AddrPort list"

datatype 'a result = Val 'a | Err client_error | Panic

record Conn =
  rx :: bytes
  tx :: bytes
  wr :: "(nat \<times> bool) list"
  close_ok :: bool

text \<open>
  \<open>wr\<close> lists what the next \<open>Write\<close> calls return, the number of bytes written and whether
  the call succeeded; after them every call writes all it was given. \<open>calls\<close> are the event
  handlers called so far. Lengths are Go \<open>uint\<close>s: they stay below \<open>MaxMetadataSize\<close> plus one
  piece, far from the end of the type.
\<close>

record Client =
  infoHash :: bytes
  peerAddr :: AddrPort
  clientID :: bytes
  conn :: Conn
  utMetadata :: byte
  utPex :: byte
  metadataReceived :: nat
  metadataSize :: nat
  metadata :: bytes
  connClosed :: bool
  calls :: "call list"

text \<open>What the operating system answers while a connection is made.\<close>

record Dialer =
  dial :: "string \<Rightarrow> AddrPort \<Rightarrow> Conn option"
  linger_ok :: bool
  nodelay_ok :: bool
  deadline_ok :: bool

definition MaxMetadataSize :: nat where
  "MaxMetadataSize = 10 * 1024 * 1024"

definition piece_size :: nat where
  "piece_size = 16384"

definition no_conn :: Conn where
  "no_conn = \<lparr>rx = [], tx = [], wr = [], close_ok = True\<rparr>"

definition NewClient :: "bytes \<Rightarrow> AddrPort \<Rightarrow> bytes \<Rightarrow> Client" where
  "NewClient ih addr cid =
    \<lparr>infoHash = ih, peerAddr = addr, clientID = go_copy (replicate 20 0) cid, conn = no_conn,
     utMetadata = 0, utPex = 0, metadataReceived = 0, metadataSize = 0, metadata = [],
     connClosed = False, calls = []\<rparr>"

section \<open>Computations of a client\<close>

type_synonym 'a client = "Client \<Rightarrow> 'a result \<times> Client"

definition cbind :: "'a client \<Rightarrow> ('a \<Rightarrow> 'b client) \<Rightarrow> 'b client" where
  "cbind f g c =
    (case f c of
       (Val x, c') \<Rightarrow> g x c'
     | (Err e, c') \<Rightarrow> (Err e, c')
     | (Panic, c') \<Rightarrow> (Panic, c'))"

definition creturn :: "'a \<Rightarrow> 'a client" where
  "creturn x c = (Val x, c)"

definition guard :: "bool \<Rightarrow> client_error \<Rightarrow> unit client" where
  "guard b e c = ((if b then Val () else Err e), c)"

definition emit :: "call \<Rightarrow> Client \<Rightarrow> Client" where
  "emit k c = c\<lparr>calls := calls c @ [k]\<rparr>"

definition ascii :: "string \<Rightarrow> bytes" where
  "ascii s = map (\<lambda>ch. of_nat (of_char ch)) s"

section \<open>Reading and writing\<close>

fun write_loop :: "(nat \<times> bool) list \<Rightarrow> bytes \<Rightarrow> bool \<times> bytes \<times> (nat \<times> bool) list" where
  "write_loop script [] = (True, [], script)"
| "write_loop [] b = (True, b, [])"
| "write_loop ((n, ok) # script) b =
     (if \<not> ok then (False, take n b, script)
      else case write_loop script (drop n b) of (r, out, s') \<Rightarrow> (r, take n b @ out, s'))"

definition writeAll :: "bytes \<Rightarrow> unit client" where
  "writeAll b c =
    (case write_loop (wr (conn c)) b of
       (ok, out, script) \<Rightarrow>
         ((if ok then Val () else Err WriteError),
          c\<lparr>conn := (conn c)\<lparr>tx := tx (conn c) @ out, wr := script\<rparr>\<rparr>))"

definition split_exactly :: "nat \<Rightarrow> bytes \<Rightarrow> client_error + bytes \<times> bytes" where
  "split_exactly n s = (if length s < n then Inl ReadError else Inr (take n s, drop n s))"

definition split_message :: "bytes \<Rightarrow> client_error + bytes \<times> bytes" where
  "split_message s =
    ebind (split_exactly 4 s) (\<lambda>(lengthB, s1).
      let rLength = be_nat lengthB
      in if rLength > MaxMetadataSize then Inl MessageTooLong else split_exactly rLength s1)"

lemma split_exactly_less: "split_exactly n s = Inr (b, s') \<Longrightarrow> length s = n + length s' \<and> length b = n"
  by (auto simp: split_exactly_def split: if_splits)

lemma split_message_less: "split_message s = Inr (m, s') \<Longrightarrow> length s' < length s"
  by (auto simp: split_message_def ebind_def split_exactly_def Let_def split: sum.splits if_splits)

function split_ex_message :: "bytes \<Rightarrow> client_error + bytes \<times> bytes" where
  "split_ex_message s =
    (case split_message s of
       Inl e \<Rightarrow> Inl e
     | Inr (m, s') \<Rightarrow>
         if length m < 2 then split_ex_message s'
         else if m ! 0 = 20 then Inr (m, s')
         else split_ex_message s')"
  by pat_completeness auto
termination
  by (relation "measure length") (auto dest: split_message_less)

declare split_ex_message.simps [simp del]

lemma split_ex_message_less:
  "split_ex_message s = Inr (m, s') \<Longrightarrow> length s' < length s \<and> 2 \<le> length m \<and> m ! 0 = 20"
proof (induction s rule: split_ex_message.induct)
  case (1 s)
  show ?case
    using "1.prems" "1.IH" split_message_less [of s]
    by (subst (asm) split_ex_message.simps) (force split: sum.splits prod.splits if_splits)
qed

definition receiving :: "(bytes \<Rightarrow> client_error + bytes \<times> bytes) \<Rightarrow> bytes client" where
  "receiving f c =
    (case f (rx (conn c)) of
       Inl e \<Rightarrow> (Err e, c)
     | Inr (b, s) \<Rightarrow> (Val b, c\<lparr>conn := (conn c)\<lparr>rx := s\<rparr>\<rparr>))"

definition readExactly :: "nat \<Rightarrow> bytes client" where
  "readExactly n = receiving (split_exactly n)"

definition readMessage :: "bytes client" where
  "readMessage = receiving split_message"

definition readExMessage :: "bytes client" where
  "readExMessage = receiving split_ex_message"

definition toBigEndian :: "nat \<Rightarrow> nat \<Rightarrow> bytes option" where
  "toBigEndian i n = (if n = 1 \<or> n = 2 \<or> n = 4 then Some (nat_be n i) else None)"

section \<open>Peers from peer exchange\<close>

definition parsePeers :: "bytes \<Rightarrow> AddrPort list" where
  "parsePeers s =
    List.map_filter
      (\<lambda>e. case AddrFromSlice (take 4 e) of
             None \<Rightarrow> None
           | Some ip \<Rightarrow> Some (AddrPort (Unmap ip) (be_word (drop 4 e))))
      (chunks 6 (length s div 6) s)"

definition parsePeers6 :: "bytes \<Rightarrow> AddrPort list" where
  "parsePeers6 s =
    List.map_filter
      (\<lambda>e. case AddrFromSlice (take 16 e) of
             None \<Rightarrow> None
           | Some ip \<Rightarrow> Some (AddrPort ip (be_word (drop 16 e))))
      (chunks 18 (length s div 18) s)"

definition handlePex :: "Lib \<Rightarrow> bytes \<Rightarrow> Client \<Rightarrow> Client" where
  "handlePex L payload c =
    (case unm_pex L payload of
       None \<Rightarrow> c
     | Some msg \<Rightarrow>
         let peers = parsePeers (px_Added msg) @ parsePeers6 (px_Added6 msg)
         in if peers \<noteq> [] then emit (OnPeers (infoHash c) peers) c else c)"

text \<open>
  \<open>randomDigit\<close> draws from \<open>rand.Intn(9)\<close>, so the digits are 0 to 8; the draws are the
  argument.
\<close>

definition randomID :: "nat list \<Rightarrow> bytes" where
  "randomID draws =
    ascii ''-MC0008-'' @ map (\<lambda>d. of_nat (d + 48)) (take 12 draws)"

section \<open>Connection and handshakes\<close>

definition closeConn :: "unit client" where
  "closeConn c =
    (if connClosed c then (Val (), c)
     else if \<not> close_ok (conn c) then (Panic, c)
     else (Val (), c\<lparr>connClosed := True\<rparr>))"

text \<open>
  When setting an option of the socket fails, \<open>connect\<close> closes the socket without noting it
  in \<open>connClosed\<close>, and a failing \<open>Close\<close> panics (zerolog's \<open>Panic().Msg\<close>).
\<close>

definition connect :: "Dialer \<Rightarrow> unit client" where
  "connect d c =
    (let network = (if Is4 (AP_Addr (peerAddr c)) then ''tcp4'' else ''tcp6'')
     in case dial d network (peerAddr c) of
          None \<Rightarrow> (Err DialError, c)
        | Some cn \<Rightarrow>
            let c1 = c\<lparr>conn := cn\<rparr>;
                fail = (\<lambda>e. ((if close_ok cn then Err e else Panic), c1))
            in if \<not> linger_ok d then fail SetLingerError
               else if \<not> nodelay_ok d then fail NoDelayError
               else if \<not> deadline_ok d then fail SetDeadlineError
               else (Val (), c1))"

definition short_hash :: "bytes \<Rightarrow> bytes" where
  "short_hash ih = (if length ih = 32 then take 20 ih else ih)"

definition lHandshake :: "Client \<Rightarrow> bytes" where
  "lHandshake c =
    [19] @ ascii ''BitTorrent protocol'' @ [0, 0, 0, 0, 0, 0x10, 0, 0x01]
      @ go_copy (replicate 20 0) (short_hash (infoHash c)) @ go_copy (replicate 20 0) (clientID c)"

definition check_handshake :: "bytes \<Rightarrow> unit client" where
  "check_handshake r c =
    cbind (guard (take 20 r = [19] @ ascii ''BitTorrent protocol'') CorruptHandshake) (\<lambda>_.
    cbind (guard (take 20 (drop 28 r) = short_hash (infoHash c)) PeerInfohashMismatch) (\<lambda>_.
    guard (r ! 25 AND 0x10 \<noteq> 0) NoExtensionProtocol)) c"

definition doBtHandshake :: "unit client" where
  "doBtHandshake =
    cbind (\<lambda>c. writeAll (lHandshake c) c) (\<lambda>_.
    cbind (readExactly 68) check_handshake)"

text \<open>
  An extension message that is not the extension handshake makes \<open>doExHandshake\<close> return
  \<open>errors.Wrap(err, ...)\<close> of an \<open>err\<close> that is nil at that point: \<open>Wrap\<close> of nil is nil, so the
  handshake counts as done and nothing of the client is set.
\<close>

definition exHandshake :: bytes where
  "exHandshake = [0, 0, 0, 0x25, 0x14, 0] @ ascii ''d1:md11:ut_metadatai1e6:ut_pexi2eee''"

definition doExHandshake :: "Lib \<Rightarrow> unit client" where
  "doExHandshake L =
    cbind (writeAll exHandshake) (\<lambda>_.
    cbind readExMessage (\<lambda>msg.
      if msg ! 1 \<noteq> 0 then creturn ()
      else case unm_root L (drop 2 msg) of
        None \<Rightarrow> (\<lambda>c. (Err RootDictError, c))
      | Some r \<Rightarrow>
          cbind (guard (0 < rd_MetadataSize r \<and> rd_MetadataSize r < int MaxMetadataSize) BadMetadataSize) (\<lambda>_.
          cbind (guard (0 < rd_UTMetadata r \<and> rd_UTMetadata r < 255) BadUtMetadata) (\<lambda>_ c.
            (Val (), c\<lparr>utMetadata := of_int (rd_UTMetadata r), utPex := of_int (rd_UTPex r),
                       metadataSize := nat (rd_MetadataSize r),
                       metadata := replicate (nat (rd_MetadataSize r)) 0\<rparr>)))))"

section \<open>Requests\<close>

definition nPieces :: "nat \<Rightarrow> nat" where
  "nPieces n = (n + piece_size - 1) div piece_size"

definition requestPiece :: "Lib \<Rightarrow> nat \<Rightarrow> unit client" where
  "requestPiece L piece c =
    (case mar_ext L \<lparr>ed_MsgType = 0, ed_Piece = int piece\<rparr> of
       None \<Rightarrow> (Panic, c)
     | Some dump \<Rightarrow>
         (case (toBigEndian (2 + length dump) 4, toBigEndian (unat (utMetadata c)) 1) of
            (Some l, Some ut) \<Rightarrow> writeAll (l @ [0x14] @ ut @ dump) c
          | _ \<Rightarrow> (Panic, c)))"

fun requestPieces :: "Lib \<Rightarrow> nat list \<Rightarrow> unit client" where
  "requestPieces L [] c = (Val (), c)"
| "requestPieces L (p # ps) c = cbind (requestPiece L p) (\<lambda>_. requestPieces L ps) c"

definition requestAllPieces :: "Lib \<Rightarrow> unit client" where
  "requestAllPieces L c = requestPieces L [0..<nPieces (metadataSize c)] c"

section \<open>Transfer\<close>

text \<open>
  \<open>copy(c.metadata[lo:hi], piece)\<close>: the slice expression panics unless
  \<open>0 \<le> lo \<le> hi \<le> cap\<close>; the slice was made with its capacity equal to its length.
\<close>

definition store_piece :: "int \<Rightarrow> bytes \<Rightarrow> bytes \<Rightarrow> bytes option" where
  "store_piece piece data md =
    (let lo = int64 (piece * 16384); hi = int64 (lo + int (length data))
     in if 0 \<le> lo \<and> lo \<le> hi \<and> hi \<le> int (length md)
        then Some (take (nat lo) md @ go_copy (take (nat hi - nat lo) (drop (nat lo) md)) data @ drop (nat hi) md)
        else None)"

definition on_data :: "extDict \<Rightarrow> bytes \<Rightarrow> unit client" where
  "on_data ed data c =
    (if length data > piece_size then (Err PieceTooLong, c)
     else case store_piece (ed_Piece ed) data (metadata c) of
       None \<Rightarrow> (Panic, c)
     | Some md \<Rightarrow>
         let c1 = c\<lparr>metadata := md, metadataReceived := metadataReceived c + length data\<rparr>
         in if length data < piece_size \<and> metadataReceived c1 \<noteq> metadataSize c1
            then (Err PieceShortButIncomplete, c1)
            else if metadataReceived c1 > metadataSize c1 then (Err ReceivedTooMuch, c1)
            else (Val (), c1))"

definition on_message :: "Lib \<Rightarrow> bytes \<Rightarrow> unit client" where
  "on_message L msg c =
    (if msg ! 1 = 1 then
       (case dec_ext L (drop 2 msg) of
          None \<Rightarrow> (Err ExtDictError, c)
        | Some (ed, rest) \<Rightarrow>
            if ed_MsgType ed = 2 then (Err PeerRejected, c)
            else if ed_MsgType ed = 1 then on_data ed rest c
            else (Val (), c))
     else if msg ! 1 = 2 then (Val (), handlePex L (drop 2 msg) c)
     else (Val (), c))"

lemma conn_emit [simp]: "conn (emit k c) = conn c"
  by (simp add: emit_def)

lemma conn_handlePex [simp]: "conn (handlePex L p c) = conn c"
  by (simp add: handlePex_def Let_def split: option.split)

lemma conn_on_data [simp]: "conn (snd (on_data ed d c)) = conn c"
  by (simp add: on_data_def Let_def split: option.split)

lemma conn_on_message [simp]: "conn (snd (on_message L m c)) = conn c"
  by (simp add: on_message_def split: option.split prod.split)

lemma on_message_conn: "on_message L m c = (r, c') \<Longrightarrow> conn c' = conn c"
  using conn_on_message [of L m c] by simp

lemma readExMessage_less:
  "readExMessage c = (Val m, c') \<Longrightarrow> length (rx (conn c')) < length (rx (conn c))"
  by (auto simp: readExMessage_def receiving_def dest!: split_ex_message_less split: sum.splits)

function receive_pieces :: "Lib \<Rightarrow> unit client" where
  "receive_pieces L c =
    (if metadataReceived c < metadataSize c then
       (case readExMessage c of
          (Val m, c1) \<Rightarrow>
            (case on_message L m c1 of
               (Val u, c2) \<Rightarrow> receive_pieces L c2
             | (Err e, c2) \<Rightarrow> (Err e, c2)
             | (Panic, c2) \<Rightarrow> (Panic, c2))
        | (Err e, c1) \<Rightarrow> (Err e, c1)
        | (Panic, c1) \<Rightarrow> (Panic, c1))
     else (Val (), c))"
  by pat_completeness auto
termination
  by (relation "measure (\<lambda>(L, c). length (rx (conn c)))")
    (auto dest!: readExMessage_less [OF sym] on_message_conn [OF sym])

declare receive_pieces.simps [simp del]

section \<open>Checks and the whole download\<close>

definition validateInfo :: "Lib \<Rightarrow> Info \<Rightarrow> client_error option" where
  "validateInfo L info =
    (if in_Pieces info \<noteq> [] \<and> length (in_Pieces info) mod 20 \<noteq> 0 then Some PiecesLength
     else if in_PieceLength info = 0 then
       (if TotalLength L info \<noteq> 0 then Some ZeroPieceLength else None)
     else if in_Pieces info \<noteq> []
       \<and> int64 (go_div (int64 (int64 (TotalLength L info + in_PieceLength info) - 1)) (in_PieceLength info))
           \<noteq> NumPieces L info
     then Some PieceCount
     else None)"

definition info_files :: "Lib \<Rightarrow> Info \<Rightarrow> File list" where
  "info_files L info =
    (if in_Files info = [] then [\<lparr>f_Size = in_Length info, f_Path = in_Name info\<rparr>]
     else map (\<lambda>f. \<lparr>f_Size = fi_Length f, f_Path = DisplayPath L f info\<rparr>) (in_Files info))"

fun total_size :: "uint64 \<Rightarrow> File list \<Rightarrow> uint64 option" where
  "total_size acc [] = Some acc"
| "total_size acc (f # fs) =
     (if f_Size f < 0 then None else total_size (acc + of_int (f_Size f)) fs)"

definition checksum :: "Client \<Rightarrow> bytes" where
  "checksum c = (if length (infoHash c) = 32 then sha256_Sum256 (metadata c) else sha1_Sum (metadata c))"

definition finish :: "Lib \<Rightarrow> int \<Rightarrow> Metadata client" where
  "finish L now =
    cbind closeConn (\<lambda>_ c.
      if checksum c \<noteq> infoHash c then (Err InfohashMismatch, c)
      else case unm_info L (metadata c) of
        None \<Rightarrow> (Err InfoError, c)
      | Some info \<Rightarrow>
          (case validateInfo L info of
             Some e \<Rightarrow> (Err e, c)
           | None \<Rightarrow>
               (case total_size 0 (info_files L info) of
                  None \<Rightarrow> (Err NegativeFileSize, c)
                | Some t \<Rightarrow>
                    (Val \<lparr>md_InfoHash = infoHash c, md_Family = 0, md_Name = in_Name info, md_TotalSize = t,
                          md_DiscoveredOn = now, md_Files = info_files L info\<rparr>, c))))"

definition download_body :: "Lib \<Rightarrow> int \<Rightarrow> Metadata client" where
  "download_body L now =
    cbind doBtHandshake (\<lambda>_.
    cbind (doExHandshake L) (\<lambda>_.
    cbind (requestAllPieces L) (\<lambda>_.
    cbind (receive_pieces L) (\<lambda>_.
    finish L now))))"

text \<open>
  The handler is called where the code calls it, and the deferred \<open>closeConn\<close> runs after it;
  the result is \<open>Val ()\<close> when \<open>Do\<close> returns.
\<close>

definition Client_Do :: "Lib \<Rightarrow> Dialer \<Rightarrow> int \<Rightarrow> unit client" where
  "Client_Do L d now c =
    (case connect d c of
       (Panic, c1) \<Rightarrow> (Panic, c1)
     | (Err e, c1) \<Rightarrow> (Val (), emit (OnError e) c1)
     | (Val u, c1) \<Rightarrow>
         (case download_body L now c1 of
            (Val md, c2) \<Rightarrow> closeConn (emit (OnSuccess md) c2)
          | (Err e, c2) \<Rightarrow> closeConn (emit (OnError e) c2)
          | (Panic, c2) \<Rightarrow> (Panic, snd (closeConn c2))))"

section \<open>Framing\<close>

definition frame :: "bytes \<Rightarrow> bytes" where
  "frame m = nat_be 4 (length m) @ m"

definition is_ex :: "bytes \<Rightarrow> bool" where
  "is_ex m = (2 \<le> length m \<and> m ! 0 = 20)"

lemma split_exactly_append [simp]: "length b = n \<Longrightarrow> split_exactly n (b @ s) = Inr (b, s)"
  by (simp add: split_exactly_def)

lemma be_nat_frame: "n \<le> MaxMetadataSize \<Longrightarrow> be_nat (nat_be 4 n) = n"
  by (simp add: be_nat_nat_be MaxMetadataSize_def)

lemma split_message_frame [simp]:
  "length m \<le> MaxMetadataSize \<Longrightarrow> split_message (frame m @ s) = Inr (m, s)"
  by (simp add: split_message_def frame_def be_nat_frame Let_def)

lemma split_ex_message_frame [simp]:
  "length m \<le> MaxMetadataSize \<Longrightarrow>
    split_ex_message (frame m @ s) = (if is_ex m then Inr (m, s) else split_ex_message s)"
  by (subst split_ex_message.simps) (simp add: is_ex_def)

lemma readExMessage_frame:
  assumes "rx (conn c) = frame m @ s" "length m \<le> MaxMetadataSize" "is_ex m"
  shows "readExMessage c = (Val m, c\<lparr>conn := (conn c)\<lparr>rx := s\<rparr>\<rparr>)"
  using assms by (simp add: readExMessage_def receiving_def)

lemma readExMessage_skip:
  assumes "rx (conn c) = frame x @ s" "length x \<le> MaxMetadataSize" "\<not> is_ex x"
    and "readExMessage (c\<lparr>conn := (conn c)\<lparr>rx := s\<rparr>\<rparr>) = (Val m, c')"
  shows "readExMessage c = (Val m, c')"
  using assms by (auto simp: readExMessage_def receiving_def split: sum.splits)

section \<open>What every step leaves alone\<close>

text \<open>
  Up to its end a download calls no handler but \<open>OnPeers\<close>, always with its own info hash and
  at least one peer, and it never changes the info hash.
\<close>

definition calm :: "Client \<Rightarrow> Client \<Rightarrow> bool" where
  "calm c c' = (infoHash c' = infoHash c
     \<and> (\<exists>ps. calls c' = calls c @ map (OnPeers (infoHash c)) ps \<and> [] \<notin> set ps))"

lemma calm_refl [simp]: "calm c c"
  by (simp add: calm_def exI [of _ "[]"])

lemma calm_trans: "calm a b \<Longrightarrow> calm b c \<Longrightarrow> calm a c"
  unfolding calm_def by (metis (no_types, lifting) Un_iff append.assoc map_append set_append)

lemma calm_upd: "infoHash c' = infoHash c \<Longrightarrow> calls c' = calls c \<Longrightarrow> calm c c'"
  by (simp add: calm_def exI [of _ "[]"])

definition quiet :: "'a client \<Rightarrow> bool" where
  "quiet f = (\<forall>c. calm c (snd (f c)))"

named_theorems quiet_steps \<open>steps of a download that call no handler but OnPeers\<close>

lemma quietD: "quiet f \<Longrightarrow> f c = (r, c') \<Longrightarrow> calm c c'"
  by (metis quiet_def snd_conv)

lemma quiet_cbind [quiet_steps]: "quiet f \<Longrightarrow> (\<And>x. quiet (g x)) \<Longrightarrow> quiet (cbind f g)"
  unfolding quiet_def
proof (intro allI)
  fix c
  assume q: "\<forall>c. calm c (snd (f c))" "\<And>x. \<forall>c. calm c (snd (g x c))"
  obtain r c1 where f: "f c = (r, c1)" by fastforce
  have "calm c c1" using q(1) f by (metis snd_conv)
  then show "calm c (snd (cbind f g c))"
    using q(2) f by (cases r) (auto simp: cbind_def intro: calm_trans)
qed

lemma quiet_const [quiet_steps]: "quiet (creturn x)" "quiet (guard b e)" "quiet (\<lambda>c. (r, c))"
  by (simp_all add: quiet_def creturn_def guard_def)

lemma quiet_writeAll [quiet_steps]: "quiet (writeAll b)" "quiet (\<lambda>c. writeAll (h c) c)"
  by (auto simp: quiet_def writeAll_def split: prod.split intro: calm_upd)

lemma quiet_receiving: "quiet (receiving f)"
  by (auto simp: quiet_def receiving_def split: sum.split intro: calm_upd)

lemma quiet_reads [quiet_steps]: "quiet (readExactly n)" "quiet readMessage" "quiet readExMessage"
  by (simp_all add: readExactly_def readMessage_def readExMessage_def quiet_receiving)

lemma quiet_closeConn [quiet_steps]: "quiet closeConn"
  by (auto simp: quiet_def closeConn_def intro: calm_upd)

lemma quiet_connect [quiet_steps]: "quiet (connect d)"
  by (auto simp: quiet_def connect_def Let_def split: option.split intro: calm_upd)

lemma quiet_doBtHandshake [quiet_steps]: "quiet doBtHandshake"
proof -
  have "quiet (check_handshake r)" for r
    by (simp add: quiet_def check_handshake_def cbind_def guard_def)
  then show ?thesis unfolding doBtHandshake_def by (intro quiet_steps)
qed

lemma quiet_doExHandshake [quiet_steps]: "quiet (doExHandshake L)"
proof -
  have set: "quiet (\<lambda>c. (Val (), c\<lparr>utMetadata := a, utPex := b, metadataSize := n, metadata := m\<rparr>))" for a b n m
    by (auto simp: quiet_def intro: calm_upd)
  show ?thesis
    unfolding doExHandshake_def by (auto split: option.split intro!: quiet_steps set)
qed

lemma quiet_requestAllPieces [quiet_steps]: "quiet (requestAllPieces L)"
proof -
  have one: "quiet (requestPiece L p)" for p
    using quiet_writeAll(1)
    by (auto simp: quiet_def requestPiece_def split: option.split)
  have "calm c (snd (requestPieces L ps c))" for ps c
  proof (induction ps arbitrary: c)
    case (Cons p ps)
    then have "quiet (requestPieces L ps)" by (simp add: quiet_def)
    then have "quiet (cbind (requestPiece L p) (\<lambda>_. requestPieces L ps))" by (intro quiet_cbind one)
    then show ?case by (simp add: quiet_def)
  qed simp
  then show ?thesis by (simp add: quiet_def requestAllPieces_def)
qed

lemma quiet_on_message [quiet_steps]: "quiet (on_message L m)"
proof -
  have "calm c (handlePex L p c)" for p c
    by (auto simp: handlePex_def emit_def calm_def Let_def split: option.split
        intro: exI [of _ "[]"] exI [of _ "[parsePeers _ @ parsePeers6 _]"])
  moreover have "calm c (snd (on_data ed d c))" for ed d c
    by (auto simp: on_data_def Let_def split: option.split intro: calm_upd)
  ultimately show ?thesis
    by (auto simp: quiet_def on_message_def split: option.split)
qed

lemma quiet_receive_pieces [quiet_steps]: "quiet (receive_pieces L)"
proof -
  have "calm c (snd (receive_pieces L c))" for c
  proof (induction c rule: receive_pieces.induct)
    case (1 L c)
    show ?case
    proof (cases "readExMessage c")
      case read: (Pair r c1)
      then have c1: "calm c c1" by (rule quietD [OF quiet_reads(3)])
      show ?thesis
      proof (cases r)
        case (Val m)
        obtain r2 c2 where msg: "on_message L m c1 = (r2, c2)" by fastforce
        then have "calm c c2" using c1 calm_trans quietD [OF quiet_on_message] by blast
        with msg read Val "1.IH" show ?thesis
          by (subst receive_pieces.simps) (auto split: result.split intro: calm_trans)
      qed (use read c1 in \<open>subst receive_pieces.simps, simp\<close>)+
    qed
  qed
  then show ?thesis by (simp add: quiet_def)
qed

lemma quiet_finish [quiet_steps]: "quiet (finish L now)"
  unfolding finish_def
  by (rule quiet_cbind [OF quiet_closeConn]) (auto simp: quiet_def split: option.split)

lemma quiet_download_body: "quiet (download_body L now)"
  unfolding download_body_def by (intro quiet_steps)

section \<open>What a finished download reports\<close>

lemma total_size_Some:
  "total_size acc fs = Some t \<longleftrightarrow> (\<forall>f \<in> set fs. 0 \<le> f_Size f) \<and> t = acc + of_int (sum_list (map f_Size fs))"
  by (induction fs arbitrary: acc) (auto simp: not_less algebra_simps)

text \<open>
  \<open>verified L ih now m md\<close>: the bytes \<open>m\<close> hash to \<open>ih\<close>, are an info dictionary that passes
  \<open>validateInfo\<close>, and \<open>md\<close> is what they say, with the total of non-negative file sizes
  modulo \<open>2 ^ 64\<close>.
\<close>

definition verified :: "Lib \<Rightarrow> bytes \<Rightarrow> int \<Rightarrow> bytes \<Rightarrow> Metadata \<Rightarrow> bool" where
  "verified L ih now m md =
    ((if length ih = 32 then sha256_Sum256 m else sha1_Sum m) = ih
     \<and> (case unm_info L m of
          None \<Rightarrow> False
        | Some info \<Rightarrow>
            validateInfo L info = None
            \<and> (\<forall>f \<in> set (md_Files md). 0 \<le> f_Size f)
            \<and> md = \<lparr>md_InfoHash = ih, md_Family = 0, md_Name = in_Name info,
                    md_TotalSize = of_int (sum_list (map f_Size (info_files L info))),
                    md_DiscoveredOn = now, md_Files = info_files L info\<rparr>))"

lemma finish_Val:
  assumes "finish L now c = (Val md, c')"
  shows "verified L (infoHash c') now (metadata c') md"
  using assms
  by (auto simp: finish_def cbind_def verified_def checksum_def total_size_Some
      split: prod.splits result.splits if_splits option.splits)

lemma cbind_Val: "cbind f g c = (Val y, c') \<longleftrightarrow> (\<exists>x c1. f c = (Val x, c1) \<and> g x c1 = (Val y, c'))"
  by (auto simp: cbind_def split: prod.split result.split)

lemma download_body_Val:
  "download_body L now c = (Val md, c') \<Longrightarrow> verified L (infoHash c') now (metadata c') md"
  by (auto simp: download_body_def cbind_Val dest: finish_Val)

lemma emit_fields [simp]:
  "infoHash (emit k c) = infoHash c" "metadata (emit k c) = metadata c"
  "calls (emit k c) = calls c @ [k]" "connClosed (emit k c) = connClosed c"
  by (simp_all add: emit_def)

lemma closeConn_fields [simp]:
  "calls (snd (closeConn c)) = calls c" "metadata (snd (closeConn c)) = metadata c"
  "infoHash (snd (closeConn c)) = infoHash c" "fst (closeConn c) \<noteq> Err e"
  by (simp_all add: closeConn_def)

lemma NewClient_fields [simp]:
  "infoHash (NewClient ih addr cid) = ih" "calls (NewClient ih addr cid) = []"
  "peerAddr (NewClient ih addr cid) = addr" "connClosed (NewClient ih addr cid) = False"
  "metadataReceived (NewClient ih addr cid) = 0" "metadataSize (NewClient ih addr cid) = 0"
  by (simp_all add: NewClient_def)

text \<open>
  The end of a download as one of three cases: it panicked before a handler was called, or
  it called \<open>OnError\<close> or \<open>OnSuccess\<close> last.
\<close>

lemma Do_ends:
  assumes run: "Client_Do L d now c0 = (r, c)"
  obtains (silent) "r = Panic" "calm c0 c"
  | (failed) c2 e where "calm c0 c2" "infoHash c = infoHash c2" "calls c = calls c2 @ [OnError e]" "r \<noteq> Err e'"
  | (success) c2 md where "calm c0 c2" "infoHash c = infoHash c2" "calls c = calls c2 @ [OnSuccess md]"
      "verified L (infoHash c2) now (metadata c) md" "r \<noteq> Err e'"
proof -
  obtain r1 c1 where conn: "connect d c0 = (r1, c1)" by fastforce
  then have c1: "calm c0 c1" by (rule quietD [OF quiet_connect])
  obtain r2 c2 where body: "download_body L now c1 = (r2, c2)" by fastforce
  then have c2: "calm c0 c2" using calm_trans [OF c1] quietD [OF quiet_download_body] by blast
  show thesis
  proof (cases r1)
    case Panic
    with run conn c1 silent show thesis by (simp add: Client_Do_def)
  next
    case (Err e)
    with run conn c1 failed [of c1 e] show thesis by (auto simp: Client_Do_def)
  next
    case Val
    then show thesis
    proof (cases r2)
      case (Val md)
      then show thesis
        using success [of c2 md] run conn body c2 \<open>r1 = Val _\<close> download_body_Val [of L now c1 md c2]
          closeConn_fields [of "emit (OnSuccess md) c2"]
        by (simp add: Client_Do_def)
    next
      case (Err e)
      then show thesis
        using failed [of c2 e] run conn body c2 \<open>r1 = Val _\<close> closeConn_fields [of "emit (OnError e) c2"]
        by (simp add: Client_Do_def)
    next
      case Panic
      then show thesis
        using silent run conn body c2 \<open>r1 = Val _\<close> closeConn_fields [of c2]
        by (auto simp: Client_Do_def calm_def)
    qed
  qed
qed

text \<open>C22. Every download that returns has called exactly one of \<open>OnSuccess\<close> and \<open>OnError\<close>, as
  its last handler call, for every peer, whatever it sends, and every answer of the operating
  system; before it there are only calls of \<open>OnPeers\<close>, each with this info hash and at least
  one peer. When it is \<open>OnSuccess\<close>, the metadata reported is backed by bytes that hash to the
  info hash and pass \<open>validateInfo\<close>, with no negative file size.\<close>
theorem Do_outcome:
  assumes "Client_Do L d now (NewClient ih addr cid) = (r, c)"
  shows "\<exists>ps k. calls c = map (OnPeers ih) ps @ k \<and> [] \<notin> set ps
    \<and> (r = Panic \<and> k = [] \<or> (\<exists>e. k = [OnError e]) \<or> (\<exists>md. k = [OnSuccess md] \<and> verified L ih now (metadata c) md))
    \<and> (\<forall>e. r \<noteq> Err e)"
proof -
  have r: "r \<noteq> Err e" for e using assms by (cases rule: Do_ends [where e' = e]) auto
  show ?thesis
    using assms
  proof (cases rule: Do_ends [where e' = DialError])
    case silent
    then obtain ps where "calls c = map (OnPeers ih) ps @ []" "[] \<notin> set ps" by (auto simp: calm_def)
    with silent show ?thesis using r by blast
  next
    case failed
    then show ?thesis using r by (auto simp: calm_def)
  next
    case success
    then show ?thesis using r by (auto simp: calm_def)
  qed
qed

section \<open>Storing a piece\<close>

lemma store_piece_out:
  assumes "int64 (p * 16384) < 0 \<or> int (length md) < int64 (p * 16384) + int (length data)"
    and "length data \<le> 16384"
  shows "store_piece p data md = None"
proof -
  let ?lo = "int64 (p * 16384)" and ?hi = "int64 (int64 (p * 16384) + int (length data))"
  have "?hi < ?lo \<or> int (length md) < ?hi" if "0 \<le> ?lo" "int (length md) < ?lo + int (length data)"
  proof (cases "?lo + int (length data) < 2 ^ 63")
    case True
    with that show ?thesis by (simp add: int64_id)
  next
    case False
    then have "?hi = ?lo + int (length data) - 2 ^ 64"
      using int64_range [of "p * 16384"] assms(2) by (intro int64_over) auto
    then show ?thesis using assms(2) by simp
  qed
  with assms(1) show ?thesis by (auto simp: store_piece_def Let_def)
qed

lemma store_piece_in:
  assumes "k * 16384 + length data \<le> length md" and "length md \<le> MaxMetadataSize"
  shows "store_piece (int k) data md =
    Some (take (k * 16384) md @ data @ drop (k * 16384 + length data) md)"
proof -
  have lo: "int64 (int k * 16384) = int (k * 16384)"
    using assms by (intro int64_id [THEN trans]) (simp_all add: MaxMetadataSize_def)
  have hi: "int64 (int (k * 16384) + int (length data)) = int (k * 16384 + length data)"
    using assms by (intro int64_id [THEN trans]) (simp_all add: MaxMetadataSize_def)
  have n: "nat (int (k * 16384 + length data)) = k * 16384 + length data" "nat (int (k * 16384)) = k * 16384"
    by simp_all
  show ?thesis
    unfolding store_piece_def lo hi Let_def n using assms(1) by simp
qed

section \<open>A peer that completes the handshakes\<close>

text \<open>
  \<open>accepts L ih n ut hs x\<close>: \<open>hs\<close> is a BitTorrent handshake for \<open>ih\<close> with the extension bit,
  and \<open>x\<close> an extension handshake that announces \<open>n\<close> bytes of metadata.
\<close>

definition accepts :: "Lib \<Rightarrow> bytes \<Rightarrow> nat \<Rightarrow> bytes \<Rightarrow> bytes \<Rightarrow> bool" where
  "accepts L ih n hs x =
    (length hs = 68 \<and> take 20 hs = [19] @ ascii ''BitTorrent protocol''
     \<and> take 20 (drop 28 hs) = short_hash ih \<and> hs ! 25 AND 0x10 \<noteq> 0
     \<and> length x \<le> MaxMetadataSize \<and> is_ex x \<and> x ! 1 = 0 \<and> 0 < n \<and> n < MaxMetadataSize
     \<and> (case unm_root L (drop 2 x) of
          None \<Rightarrow> False
        | Some r \<Rightarrow> rd_MetadataSize r = int n \<and> 0 < rd_UTMetadata r \<and> rd_UTMetadata r < 255))"

text \<open>A connection on which every write succeeds, and an operating system that sets it up.\<close>

definition serves :: "Dialer \<Rightarrow> bytes \<Rightarrow> bool" where
  "serves d s =
    (linger_ok d \<and> nodelay_ok d \<and> deadline_ok d
     \<and> dial d = (\<lambda>_ _. Some \<lparr>rx = s, tx = [], wr = [], close_ok = True\<rparr>))"

lemma write_loop_all [simp]: "write_loop [] b = (True, b, [])"
  by (cases b) simp_all

lemma writeAll_ok:
  "wr (conn c) = [] \<Longrightarrow> writeAll b c = (Val (), c\<lparr>conn := (conn c)\<lparr>tx := tx (conn c) @ b, wr := []\<rparr>\<rparr>)"
  by (simp add: writeAll_def)

text \<open>The part of the client the transfer works on, the same in two states.\<close>

definition same_transfer :: "Client \<Rightarrow> Client \<Rightarrow> bool" where
  "same_transfer c c' =
    (infoHash c' = infoHash c \<and> calls c' = calls c \<and> connClosed c' = connClosed c
     \<and> close_ok (conn c') = close_ok (conn c) \<and> rx (conn c') = rx (conn c)
     \<and> metadataReceived c' = metadataReceived c \<and> metadataSize c' = metadataSize c \<and> metadata c' = metadata c)"

lemma requestPieces_ok:
  assumes "\<And>e. mar_ext L e \<noteq> None" and "wr (conn c) = []"
  shows "\<exists>c'. requestPieces L ps c = (Val (), c') \<and> same_transfer c c'"
  using assms(2)
proof (induction ps arbitrary: c)
  case Nil
  then show ?case by (simp add: same_transfer_def)
next
  case (Cons p ps)
  obtain dump where "mar_ext L \<lparr>ed_MsgType = 0, ed_Piece = int p\<rparr> = Some dump" using assms(1) by fastforce
  then obtain c1 where "requestPiece L p c = (Val (), c1)" "same_transfer c c1" "wr (conn c1) = []"
    using Cons.prems by (auto simp: requestPiece_def toBigEndian_def writeAll_ok same_transfer_def)
  with Cons.IH [of c1] show ?case by (auto simp: cbind_def same_transfer_def)
qed

lemma download_body_accepted:
  assumes "accepts L (infoHash c) n hs x" and "rx (conn c) = hs @ frame x @ s" and "wr (conn c) = []"
    and "\<And>e. mar_ext L e \<noteq> None"
  shows "\<exists>c'. download_body L now c = cbind (receive_pieces L) (\<lambda>_. finish L now) c'
    \<and> same_transfer (c\<lparr>conn := (conn c)\<lparr>rx := s\<rparr>, metadataSize := n, metadata := replicate n 0\<rparr>) c'"
proof -
  note acc = assms(1) [unfolded accepts_def]
  let ?c1 = "c\<lparr>conn := (conn c)\<lparr>rx := frame x @ s, tx := tx (conn c) @ lHandshake c, wr := []\<rparr>\<rparr>"
  have bt: "doBtHandshake c = (Val (), ?c1)"
    using acc assms(2,3)
    by (simp add: doBtHandshake_def cbind_def writeAll_ok readExactly_def receiving_def check_handshake_def guard_def)
  obtain r where r: "unm_root L (drop 2 x) = Some r" "rd_MetadataSize r = int n" "0 < rd_UTMetadata r"
    "rd_UTMetadata r < 255" using acc by (auto split: option.splits)
  then obtain c2 where ex: "doExHandshake L ?c1 = (Val (), c2)" "wr (conn c2) = []"
    "same_transfer (c\<lparr>conn := (conn c)\<lparr>rx := s\<rparr>, metadataSize := n, metadata := replicate n 0\<rparr>) c2"
    using acc by (simp add: doExHandshake_def cbind_def writeAll_ok readExMessage_frame guard_def same_transfer_def)
  obtain c3 where "requestAllPieces L c2 = (Val (), c3)" "same_transfer c2 c3"
    using requestPieces_ok [OF assms(4) ex(2)] unfolding requestAllPieces_def by blast
  with bt ex show ?thesis
    by (intro exI [of _ c3]) (auto simp: download_body_def cbind_def same_transfer_def)
qed

lemma Do_accepted:
  assumes "accepts L ih n hs x" and "serves d (hs @ frame x @ s)" and "\<And>e. mar_ext L e \<noteq> None"
  obtains c1 where "Client_Do L d now (NewClient ih addr cid) =
      (case cbind (receive_pieces L) (\<lambda>_. finish L now) c1 of
            (Val md, c2) \<Rightarrow> closeConn (emit (OnSuccess md) c2)
          | (Err e, c2) \<Rightarrow> closeConn (emit (OnError e) c2)
          | (Panic, c2) \<Rightarrow> (Panic, snd (closeConn c2)))"
    "infoHash c1 = ih" "calls c1 = []" "\<not> connClosed c1" "close_ok (conn c1)" "rx (conn c1) = s"
    "metadataReceived c1 = 0" "metadataSize c1 = n" "metadata c1 = replicate n 0"
proof -
  let ?cn = "\<lparr>rx = hs @ frame x @ s, tx = [], wr = [], close_ok = True\<rparr>"
  let ?c = "NewClient ih addr cid\<lparr>conn := ?cn\<rparr>"
  have conn: "connect d (NewClient ih addr cid) = (Val (), ?c)"
    using assms(2) by (simp add: connect_def serves_def)
  obtain c' where "download_body L now ?c = cbind (receive_pieces L) (\<lambda>_. finish L now) c'"
    "same_transfer (?c\<lparr>conn := (conn ?c)\<lparr>rx := s\<rparr>, metadataSize := n, metadata := replicate n 0\<rparr>) c'"
    using download_body_accepted [of L ?c n hs x s now] assms(1,3) by auto
  then show thesis
    using conn that [of c'] by (simp add: Client_Do_def same_transfer_def)
qed

text \<open>A peer can end the whole process: after the handshakes, one \<open>ut_metadata\<close> data message
  of at most 16 KiB whose range does not lie inside the announced metadata (a piece number
  that is negative or too large, or data that runs past the end) makes the download panic,
  before any check of the number of bytes received, and no handler is called.\<close>
theorem Do_piece_out_of_range:
  assumes "accepts L ih n hs x" and "serves d (hs @ frame x @ frame y @ s)" and "\<And>e. mar_ext L e \<noteq> None"
    and "is_ex y" "length y \<le> MaxMetadataSize" "y ! 1 = 1" "dec_ext L (drop 2 y) = Some (ed, data)"
    and "ed_MsgType ed = 1" "length data \<le> piece_size"
    and "int64 (ed_Piece ed * 16384) < 0 \<or> int n < int64 (ed_Piece ed * 16384) + int (length data)"
  shows "fst (Client_Do L d now (NewClient ih addr cid)) = Panic
    \<and> calls (snd (Client_Do L d now (NewClient ih addr cid))) = []"
proof -
  obtain c1 where c1: "Client_Do L d now (NewClient ih addr cid) =
      (case cbind (receive_pieces L) (\<lambda>_. finish L now) c1 of
            (Val md, c2) \<Rightarrow> closeConn (emit (OnSuccess md) c2)
          | (Err e, c2) \<Rightarrow> closeConn (emit (OnError e) c2)
          | (Panic, c2) \<Rightarrow> (Panic, snd (closeConn c2)))"
    and rest: "calls c1 = []" "rx (conn c1) = frame y @ s"
    "metadataReceived c1 = 0" "metadataSize c1 = n" "metadata c1 = replicate n 0"
    by (rule Do_accepted [OF assms(1-3), of now addr cid])
  have "store_piece (ed_Piece ed) data (replicate n 0) = None"
    using assms(10) store_piece_out [of "ed_Piece ed" "replicate n 0" data] assms(9)
    by (simp add: piece_size_def)
  moreover have "0 < n" using assms(1) by (simp add: accepts_def)
  ultimately have "receive_pieces L c1 = (Panic, c1\<lparr>conn := (conn c1)\<lparr>rx := s\<rparr>\<rparr>)"
    using rest assms(4-9)
    by (subst receive_pieces.simps) (simp add: readExMessage_frame on_message_def on_data_def)
  then show ?thesis using c1 rest by (simp add: cbind_def)
qed

section \<open>A peer that sends the metadata in order\<close>

definition ut_metadata :: "Lib \<Rightarrow> bytes \<Rightarrow> (extDict \<times> bytes) option option" where
  "ut_metadata L x = (if is_ex x \<and> x ! 1 = 1 then Some (dec_ext L (drop 2 x)) else None)"

text \<open>
  \<open>in_order L m k xs\<close>: among the messages \<open>xs\<close> the data messages carry the pieces of \<open>m\<close> from
  number \<open>k\<close> on, in order; every other message may stand between them, keep-alives, ordinary
  messages, peer exchange and \<open>ut_metadata\<close> messages that are neither data nor a reject.
\<close>

fun in_order :: "Lib \<Rightarrow> bytes \<Rightarrow> nat \<Rightarrow> bytes list \<Rightarrow> bool" where
  "in_order L m k [] = (length m \<le> k * piece_size)"
| "in_order L m k (x # xs) =
     (length x \<le> MaxMetadataSize
      \<and> (case ut_metadata L x of
           None \<Rightarrow> in_order L m k xs
         | Some None \<Rightarrow> False
         | Some (Some (ed, data)) \<Rightarrow>
             if ed_MsgType ed = 1 then
               k * piece_size < length m \<and> ed_Piece ed = int k
               \<and> data = take piece_size (drop (k * piece_size) m) \<and> in_order L m (Suc k) xs
             else ed_MsgType ed \<noteq> 2 \<and> in_order L m k xs))"

text \<open>The client after \<open>k\<close> pieces of \<open>m\<close>.\<close>

definition holds_pieces :: "bytes \<Rightarrow> nat \<Rightarrow> Client \<Rightarrow> bool" where
  "holds_pieces m k c =
    (metadataSize c = length m \<and> metadataReceived c = min (k * piece_size) (length m)
     \<and> metadata c = take (k * piece_size) m @ replicate (length m - k * piece_size) 0
     \<and> close_ok (conn c) \<and> \<not> connClosed c)"

lemma on_data_piece:
  assumes "holds_pieces m k c" and "k * piece_size < length m" and "length m < MaxMetadataSize"
    and "ed_Piece ed = int k"
  shows "\<exists>c'. on_data ed (take piece_size (drop (k * piece_size) m)) c = (Val (), c')
    \<and> holds_pieces m (Suc k) c' \<and> conn c' = conn c"
proof -
  let ?d = "take piece_size (drop (k * piece_size) m)"
  let ?md = "take (k * 16384) m @ replicate (length m - k * 16384) 0"
  have len: "length ?d = min piece_size (length m - k * piece_size)" by simp
  have "length ?md = length m" using assms(2) by (simp add: piece_size_def)
  then have "store_piece (int k) ?d ?md = Some (take (k * 16384) ?md @ ?d @ drop (k * 16384 + length ?d) ?md)"
    using assms(2,3) by (intro store_piece_in) (simp_all add: piece_size_def)
  also have "take (k * 16384) ?md @ ?d @ drop (k * 16384 + length ?d) ?md
      = take (Suc k * piece_size) m @ replicate (length m - Suc k * piece_size) 0"
    using assms(2) take_add [of "k * 16384" 16384 m]
    by (simp add: piece_size_def add.commute min_def)
  finally have store: "store_piece (int k) ?d ?md =
      Some (take (Suc k * piece_size) m @ replicate (length m - Suc k * piece_size) 0)" .
  show ?thesis
    using assms(1,2,4) store len
    by (auto simp: on_data_def holds_pieces_def piece_size_def Let_def min_def)
qed

lemma on_message_other:
  assumes "is_ex x" and "case ut_metadata L x of None \<Rightarrow> True | Some None \<Rightarrow> False
    | Some (Some (ed, data)) \<Rightarrow> ed_MsgType ed \<noteq> 1 \<and> ed_MsgType ed \<noteq> 2" and "holds_pieces m k c"
  shows "\<exists>c'. on_message L x c = (Val (), c') \<and> holds_pieces m k c' \<and> conn c' = conn c"
  using assms
  by (auto simp: ut_metadata_def on_message_def handlePex_def emit_def holds_pieces_def Let_def
      split: if_splits option.splits)

lemma receive_complete:
  assumes "holds_pieces m k c" and "length m \<le> k * piece_size"
  shows "receive_pieces L c = (Val (), c) \<and> metadata c = m"
  using assms by (subst receive_pieces.simps) (simp add: holds_pieces_def)

lemma receive_in_order:
  assumes "in_order L m k xs" and "holds_pieces m k c" and "length m < MaxMetadataSize"
    and "rx (conn c) = concat (map frame xs) @ s"
  shows "\<exists>c' k'. receive_pieces L c = (Val (), c') \<and> holds_pieces m k' c' \<and> metadata c' = m"
  using assms(1,2,4)
proof (induction xs arbitrary: k c)
  case Nil
  then show ?case using receive_complete [of m k c L] by auto
next
  case (Cons x xs)
  let ?c1 = "c\<lparr>conn := (conn c)\<lparr>rx := concat (map frame xs) @ s\<rparr>\<rparr>"
  have len: "length x \<le> MaxMetadataSize" and rx: "rx (conn c) = frame x @ concat (map frame xs) @ s"
    using Cons.prems by simp_all
  have h1: "holds_pieces m k ?c1" using Cons.prems(2) by (simp add: holds_pieces_def)
  show ?case
  proof (cases "length m \<le> k * piece_size")
    case True
    then show ?thesis using receive_complete [OF Cons.prems(2)] Cons.prems(2) by blast
  next
    case more_left: False
    then have pending: "metadataReceived c < metadataSize c" using Cons.prems(2) by (simp add: holds_pieces_def)
    show ?thesis
    proof (cases "is_ex x")
      case False
      then have "in_order L m k xs" using Cons.prems(1) by (simp add: ut_metadata_def)
      then obtain c' k' where rec: "receive_pieces L ?c1 = (Val (), c')" "holds_pieces m k' c' \<and> metadata c' = m"
        using Cons.IH [OF _ h1] by auto
      have "metadataReceived ?c1 < metadataSize ?c1" using pending by simp
      with rec(1) obtain y c2 where y: "readExMessage ?c1 = (Val y, c2)"
        by (subst (asm) receive_pieces.simps) (auto split: prod.splits result.splits)
      with rec(1) pending have "receive_pieces L c = (Val (), c')"
        using readExMessage_skip [OF rx len False y]
        by (subst receive_pieces.simps, subst (asm) receive_pieces.simps) simp
      with rec(2) show ?thesis by blast
    next
      case True
      have "\<exists>c2 k2. on_message L x ?c1 = (Val (), c2) \<and> holds_pieces m k2 c2 \<and> conn c2 = conn ?c1
        \<and> in_order L m k2 xs"
      proof (cases "\<exists>ed data. ut_metadata L x = Some (Some (ed, data)) \<and> ed_MsgType ed = 1")
        case data: True
        then obtain ed where ed: "dec_ext L (drop 2 x) = Some (ed, take piece_size (drop (k * piece_size) m))"
          "x ! 1 = 1" "ed_MsgType ed = 1" "ed_Piece ed = int k" "in_order L m (Suc k) xs"
          using Cons.prems(1) by (auto simp: ut_metadata_def split: if_splits)
        then show ?thesis
          using on_data_piece [OF h1 _ assms(3) ed(4)] more_left by (auto simp: on_message_def not_le)
      next
        case other: False
        then have "in_order L m k xs" and "case ut_metadata L x of None \<Rightarrow> True | Some None \<Rightarrow> False
          | Some (Some (ed, data)) \<Rightarrow> ed_MsgType ed \<noteq> 1 \<and> ed_MsgType ed \<noteq> 2"
          using Cons.prems(1) by (auto split: option.splits if_splits)
        then show ?thesis using on_message_other [OF True _ h1] by blast
      qed
      then obtain c2 k2 where c2: "on_message L x ?c1 = (Val (), c2)" "holds_pieces m k2 c2"
        "conn c2 = conn ?c1" "in_order L m k2 xs" by blast
      then have "receive_pieces L c = receive_pieces L c2"
        using pending readExMessage_frame [OF rx len True] by (subst receive_pieces.simps) simp
      then show ?thesis using Cons.IH [OF c2(4,2)] c2(3) by simp
    qed
  qed
qed

lemma finish_ok:
  assumes "close_ok (conn c)" and "checksum c = infoHash c" and "unm_info L (metadata c) = Some info"
    and "validateInfo L info = None" and "\<forall>f \<in> set (info_files L info). 0 \<le> f_Size f"
  shows "\<exists>md c'. finish L now c = (Val md, c') \<and> connClosed c' \<and> metadata c' = metadata c"
proof -
  obtain t where "total_size 0 (info_files L info) = Some t" using assms(5) by (simp add: total_size_Some)
  moreover obtain c1 where "closeConn c = (Val (), c1)" "connClosed c1" "infoHash c1 = infoHash c"
    "metadata c1 = metadata c" using assms(1) by (cases "connClosed c") (simp_all add: closeConn_def)
  ultimately show ?thesis
    using assms by (auto simp: finish_def cbind_def checksum_def split: if_splits)
qed

text \<open>The download completes: from a peer that answers both handshakes and sends the pieces
  in order, with any other messages between them, \<open>Do\<close> returns with the connection closed,
  having called \<open>OnSuccess\<close> last, with exactly what the bytes sent say, whenever these hash to
  the info hash and are a valid info dictionary.\<close>
theorem Do_in_order:
  assumes "accepts L ih (length m) hs x" and "serves d (hs @ frame x @ concat (map frame xs) @ s)"
    and "\<And>e. mar_ext L e \<noteq> None" and "in_order L m 0 xs"
    and "(if length ih = 32 then sha256_Sum256 m else sha1_Sum m) = ih"
    and "unm_info L m = Some info" and "validateInfo L info = None"
    and "\<forall>f \<in> set (info_files L info). 0 \<le> f_Size f"
  shows "\<exists>c ps md. Client_Do L d now (NewClient ih addr cid) = (Val (), c) \<and> connClosed c
    \<and> calls c = map (OnPeers ih) ps @ [OnSuccess md] \<and> metadata c = m \<and> verified L ih now m md"
proof -
  obtain c1 where c1: "Client_Do L d now (NewClient ih addr cid) =
      (case cbind (receive_pieces L) (\<lambda>_. finish L now) c1 of
            (Val md, c2) \<Rightarrow> closeConn (emit (OnSuccess md) c2)
          | (Err e, c2) \<Rightarrow> closeConn (emit (OnError e) c2)
          | (Panic, c2) \<Rightarrow> (Panic, snd (closeConn c2)))"
    and ih: "infoHash c1 = ih" and cs: "calls c1 = []" and rx: "rx (conn c1) = concat (map frame xs) @ s"
    and h: "\<not> connClosed c1" "close_ok (conn c1)" "metadataReceived c1 = 0" "metadataSize c1 = length m"
      "metadata c1 = replicate (length m) 0"
    by (rule Do_accepted [OF assms(1-3), of now addr cid])
  have "holds_pieces m 0 c1" using h by (simp add: holds_pieces_def)
  moreover have "length m < MaxMetadataSize" using assms(1) by (simp add: accepts_def)
  ultimately obtain c2 k where c2: "receive_pieces L c1 = (Val (), c2)" "holds_pieces m k c2" "metadata c2 = m"
    using receive_in_order [OF assms(4)] rx by blast
  have calm2: "calm c1 c2" using quietD [OF quiet_receive_pieces c2(1)] .
  then have "infoHash c2 = ih" using ih by (simp add: calm_def)
  then obtain md c3 where c3: "finish L now c2 = (Val md, c3)" "connClosed c3" "metadata c3 = m"
    using finish_ok [of c2 L info now] assms(5-8) c2 by (auto simp: checksum_def holds_pieces_def)
  then have "calm c1 c3" using calm_trans [OF calm2] quietD [OF quiet_finish] by blast
  then obtain ps where "calls c3 = map (OnPeers ih) ps" "infoHash c3 = ih"
    using cs ih by (auto simp: calm_def)
  moreover have "Client_Do L d now (NewClient ih addr cid) = (Val (), emit (OnSuccess md) c3)"
    using c1 c2(1) c3 by (simp add: cbind_def closeConn_def)
  ultimately show ?thesis using finish_Val [OF c3(1)] c3 by auto
qed

section \<open>Concrete downloads\<close>

text \<open>
  A library in which a dictionary is written by its numbers alone, enough to run the three
  theorems on a torrent of one file whose metadata has two bytes.
\<close>

definition sample_lib :: Lib where
  "sample_lib = \<lparr>
    unm_root = (\<lambda>b. case b of [n, ut] \<Rightarrow> Some \<lparr>rd_UTMetadata = int (unat ut), rd_UTPex = 2, rd_MetadataSize = int (unat n)\<rparr> | _ \<Rightarrow> None),
    unm_pex = (\<lambda>b. Some \<lparr>px_Added = b, px_Added6 = []\<rparr>),
    unm_info = (\<lambda>b. Some \<lparr>in_Name = ''t'', in_Length = 40, in_PieceLength = 32, in_Pieces = replicate 40 0, in_Files = []\<rparr>),
    dec_ext = (\<lambda>b. case b of t # p # rest \<Rightarrow> Some (\<lparr>ed_MsgType = int (unat t), ed_Piece = int (unat p)\<rparr>, rest) | _ \<Rightarrow> None),
    mar_ext = (\<lambda>e. Some [of_int (ed_MsgType e), of_int (ed_Piece e)]),
    TotalLength = in_Length, NumPieces = (\<lambda>i. int (length (in_Pieces i) div 20)),
    DisplayPath = (\<lambda>f _. concat (fi_Path f))\<rparr>"

definition sample_metadata :: bytes where
  "sample_metadata = [7, 9]"

definition sample_handshake :: "bytes \<Rightarrow> bytes" where
  "sample_handshake ih = [19] @ ascii ''BitTorrent protocol'' @ [0, 0, 0, 0, 0, 0x10, 0, 0] @ short_hash ih @ replicate 20 0"

definition sample_dialer :: "bytes \<Rightarrow> Dialer" where
  "sample_dialer s =
    \<lparr>dial = (\<lambda>_ _. Some \<lparr>rx = s, tx = [], wr = [], close_ok = True\<rparr>), linger_ok = True, nodelay_ok = True,
     deadline_ok = True\<rparr>"

definition sample_session :: "bytes list \<Rightarrow> Dialer" where
  "sample_session xs =
    sample_dialer (sample_handshake (sha1_Sum sample_metadata) @ frame [20, 0, 2, 3] @ concat (map frame xs) @ [])"

lemma sample_accepts: "accepts sample_lib (sha1_Sum sample_metadata) 2 (sample_handshake (sha1_Sum sample_metadata)) [20, 0, 2, 3]"
  by (simp add: accepts_def sample_lib_def sample_handshake_def short_hash_def ascii_def is_ex_def MaxMetadataSize_def)

lemma sample_serves: "serves (sample_session xs)
    (sample_handshake (sha1_Sum sample_metadata) @ frame [20, 0, 2, 3] @ concat (map frame xs) @ [])"
  by (simp add: serves_def sample_session_def sample_dialer_def)

lemma sample_mar: "mar_ext sample_lib e \<noteq> None"
  by (simp add: sample_lib_def)

definition sample_info :: Info where
  "sample_info = \<lparr>in_Name = ''t'', in_Length = 40, in_PieceLength = 32, in_Pieces = replicate 40 0, in_Files = []\<rparr>"

lemma sample_info_ok: "unm_info sample_lib m = Some sample_info" "validateInfo sample_lib sample_info = None"
    "info_files sample_lib sample_info = [\<lparr>f_Size = 40, f_Path = ''t''\<rparr>]"
  by (simp_all add: sample_lib_def sample_info_def validateInfo_def info_files_def int64_def)

theorem Do_in_order_witness:
  "\<exists>c ps md. Client_Do sample_lib (sample_session [[], [5, 1], [20, 1, 0, 0], [20, 1, 1, 0, 7, 9]]) 100
      (NewClient (sha1_Sum sample_metadata) (AddrPort (IP4 1) 6881) []) = (Val (), c) \<and> connClosed c
    \<and> calls c = map (OnPeers (sha1_Sum sample_metadata)) ps @ [OnSuccess md] \<and> metadata c = sample_metadata
    \<and> verified sample_lib (sha1_Sum sample_metadata) 100 sample_metadata md"
proof (rule Do_in_order [OF _ sample_serves sample_mar _ _ sample_info_ok(1,2)])
  show "accepts sample_lib (sha1_Sum sample_metadata) (length sample_metadata)
      (sample_handshake (sha1_Sum sample_metadata)) [20, 0, 2, 3]"
    using sample_accepts by (simp add: sample_metadata_def numeral_2_eq_2)
  show "in_order sample_lib sample_metadata 0 [[], [5, 1], [20, 1, 0, 0], [20, 1, 1, 0, 7, 9]]"
    by (simp add: ut_metadata_def is_ex_def sample_lib_def sample_metadata_def MaxMetadataSize_def piece_size_def)
  show "(if length (sha1_Sum sample_metadata) = 32 then sha256_Sum256 sample_metadata else sha1_Sum sample_metadata)
      = sha1_Sum sample_metadata" by simp
qed (simp add: sample_info_ok(3))

theorem Do_piece_out_of_range_witness:
  "fst (Client_Do sample_lib (sample_session [[20, 1, 1, 1]]) 100
      (NewClient (sha1_Sum sample_metadata) (AddrPort (IP4 1) 6881) [])) = Panic
    \<and> calls (snd (Client_Do sample_lib (sample_session [[20, 1, 1, 1]]) 100
      (NewClient (sha1_Sum sample_metadata) (AddrPort (IP4 1) 6881) []))) = []"
proof (rule Do_piece_out_of_range [OF sample_accepts _ sample_mar])
  show "serves (sample_session [[20, 1, 1, 1]])
      (sample_handshake (sha1_Sum sample_metadata) @ frame [20, 0, 2, 3] @ frame [20, 1, 1, 1] @ [])"
    using sample_serves [of "[[20, 1, 1, 1]]"] by simp
  show "dec_ext sample_lib (drop 2 [20, 1, 1, 1]) = Some (\<lparr>ed_MsgType = 1, ed_Piece = 1\<rparr>, [])"
    by (simp add: sample_lib_def)
qed (simp_all add: is_ex_def MaxMetadataSize_def int64_def)

theorem Do_outcome_witness:
  "\<exists>ps k. calls (snd (Client_Do sample_lib (sample_session [[20, 1, 1, 0, 7, 9]]) 100
          (NewClient (sha1_Sum sample_metadata) (AddrPort (IP4 1) 6881) []))) = map (OnPeers (sha1_Sum sample_metadata)) ps @ k
    \<and> [] \<notin> set ps
    \<and> (fst (Client_Do sample_lib (sample_session [[20, 1, 1, 0, 7, 9]]) 100
          (NewClient (sha1_Sum sample_metadata) (AddrPort (IP4 1) 6881) [])) = Panic \<and> k = []
       \<or> (\<exists>e. k = [OnError e])
       \<or> (\<exists>md. k = [OnSuccess md] \<and> verified sample_lib (sha1_Sum sample_metadata) 100
            (metadata (snd (Client_Do sample_lib (sample_session [[20, 1, 1, 0, 7, 9]]) 100
              (NewClient (sha1_Sum sample_metadata) (AddrPort (IP4 1) 6881) [])))) md))
    \<and> (\<forall>e. fst (Client_Do sample_lib (sample_session [[20, 1, 1, 0, 7, 9]]) 100
          (NewClient (sha1_Sum sample_metadata) (AddrPort (IP4 1) 6881) [])) \<noteq> Err e)"
  by (rule Do_outcome) (rule surjective_pairing)

end
