(* ===== verification/Hex.thy ===== *)
theory Hex
  imports Prelude
begin

text \<open>
  Go's \<open>encoding/hex\<close>, in which info hashes are stored in the database and node identifiers in
  the routing-table file.
\<close>

text \<open>\<open>hex.DecodeString\<close>: an even number of hexadecimal digits, of either case.\<close>

definition hex_digit :: "char \<Rightarrow> nat option" where
  "hex_digit ch =
    (let v = (of_char ch :: nat)
     in if 48 \<le> v \<and> v \<le> 57 then Some (v - 48)
        else if 97 \<le> v \<and> v \<le> 102 then Some (v - 87)
        else if 65 \<le> v \<and> v \<le> 70 then Some (v - 55)
        else None)"

fun hex_DecodeString :: "string \<Rightarrow> bytes option" where
  "hex_DecodeString [] = Some []"
| "hex_DecodeString [a] = None"
| "hex_DecodeString (a # b # s) =
     (case (hex_digit a, hex_digit b, hex_DecodeString s) of
        (Some x, Some y, Some r) \<Rightarrow> Some (of_nat (16 * x + y) # r)
      | _ \<Rightarrow> None)"

definition hex_char :: "nat \<Rightarrow> char" where
  "hex_char n = char_of (if n < 10 then n + 48 else n + 87)"

definition hex_EncodeToString :: "bytes \<Rightarrow> string" where
  "hex_EncodeToString bs = concat (map (\<lambda>b. [hex_char (unat b div 16), hex_char (unat b mod 16)]) bs)"

lemma hex_digit_char: "n < 16 \<Longrightarrow> hex_digit (hex_char n) = Some n"
  by (simp add: hex_digit_def hex_char_def Let_def)

lemma hex_roundtrip: "hex_DecodeString (hex_EncodeToString bs) = Some bs"
proof (induction bs)
  case Nil
  then show ?case by (simp add: hex_EncodeToString_def)
next
  case (Cons b bs)
  have "unat b div 16 < 16" using unat_byte_less [of b] by (simp add: less_mult_imp_div_less del: unat_byte_less)
  moreover have "16 * (unat b div 16) + unat b mod 16 = unat b" by simp
  ultimately show ?case
    using Cons.IH by (simp add: hex_EncodeToString_def hex_digit_char)
qed

lemma hex_inj: "hex_EncodeToString a = hex_EncodeToString b \<longleftrightarrow> a = b"
  using hex_roundtrip by (metis option.inject)

end
