(* ===== verification/Cache.thy ===== *)
theory Cache
  imports Hex "HOL-Library.AList"
begin

text \<open>
  The process-wide set of known info hashes, \<open>cache/cache.go\<close>: the crawl loop asks it before
  it hands a hash to the metadata sink, and entries of a worker expire after the master has
  acknowledged the record. The package's variables are one record; a Go map with its length
  is an association list with distinct keys. The order in which Go walks a map is not
  specified: the entry evicted when the map is full is chosen by an argument.
\<close>

section \<open>State and operations\<close>

record Cache =
  infoHashCache :: "bytes set"
  infoHashExpiry :: "(bytes \<times> instant) list"

definition empty_cache :: Cache where
  "empty_cache = \<lparr>infoHashCache = {}, infoHashExpiry = []\<rparr>"

definition maxExpiringInfoHashes :: nat where
  "maxExpiringInfoHashes = 100000"

definition InfoHashCacheContains :: "bytes \<Rightarrow> Cache \<Rightarrow> bool" where
  "InfoHashCacheContains h c = (h \<in> infoHashCache c)"

definition InfoHashCacheRemove :: "bytes \<Rightarrow> Cache \<Rightarrow> Cache" where
  "InfoHashCacheRemove h c =
    c\<lparr>infoHashExpiry := AList.delete h (infoHashExpiry c), infoHashCache := infoHashCache c - {h}\<rparr>"

definition expired :: "instant \<Rightarrow> bytes \<Rightarrow> Cache \<Rightarrow> bool" where
  "expired now h c = (case map_of (infoHashExpiry c) h of None \<Rightarrow> False | Some t \<Rightarrow> \<not> t > now)"

definition InfoHashCacheAdd :: "instant \<Rightarrow> bytes \<Rightarrow> Cache \<Rightarrow> bool \<times> Cache" where
  "InfoHashCacheAdd now h c =
    (let c1 = (if expired now h c then InfoHashCacheRemove h c else c)
     in (h \<notin> infoHashCache c1, c1\<lparr>infoHashCache := insert h (infoHashCache c1)\<rparr>))"

definition drop_expired :: "instant \<Rightarrow> Cache \<Rightarrow> Cache" where
  "drop_expired now c =
    \<lparr>infoHashCache = infoHashCache c - fst ` set (filter (\<lambda>(h, t). \<not> t > now) (infoHashExpiry c)),
     infoHashExpiry = filter (\<lambda>(h, t). t > now) (infoHashExpiry c)\<rparr>"

text \<open>\<open>pick\<close> says which entry the loop over the map meets first.\<close>

definition evict_one :: "nat \<Rightarrow> Cache \<Rightarrow> Cache" where
  "evict_one pick c =
    (if infoHashExpiry c = [] then c
     else InfoHashCacheRemove (fst (infoHashExpiry c ! (pick mod length (infoHashExpiry c)))) c)"

definition InfoHashCacheExpireAfter :: "instant \<Rightarrow> nat \<Rightarrow> bytes \<Rightarrow> duration \<Rightarrow> Cache \<Rightarrow> Cache" where
  "InfoHashCacheExpireAfter now pick h ttl c =
    (if h \<notin> infoHashCache c then c
     else
       let c1 = (if length (infoHashExpiry c) \<ge> maxExpiringInfoHashes then drop_expired now c else c);
           c2 = (if length (infoHashExpiry c1) \<ge> maxExpiringInfoHashes then evict_one pick c1 else c1)
       in c2\<lparr>infoHashExpiry := AList.update h (now + ttl) (infoHashExpiry c2)\<rparr>)"

text \<open>The database's \<open>GetAllInfoHashes\<close> answers \<open>None\<close> when it fails.\<close>

definition PopulateInfoHashCacheFromDatabase :: "instant \<Rightarrow> string list option \<Rightarrow> Cache \<Rightarrow> Cache" where
  "PopulateInfoHashCacheFromDatabase now all c =
    (case all of
       None \<Rightarrow> c
     | Some ihs \<Rightarrow>
         foldl (\<lambda>c ih. case hex_DecodeString ih of None \<Rightarrow> c | Some h \<Rightarrow> snd (InfoHashCacheAdd now h c)) c ihs)"

section \<open>Invariant\<close>

text \<open>
  At most \<open>maxExpiringInfoHashes\<close> hashes have an expiry. (That they are contained is not an
  invariant: a full map may evict the very hash whose expiry is being recorded.)
\<close>

definition cache_inv :: "Cache \<Rightarrow> bool" where
  "cache_inv c \<longleftrightarrow> distinct (map fst (infoHashExpiry c)) \<and> length (infoHashExpiry c) \<le> maxExpiringInfoHashes"

lemma empty_cache_fields [simp]: "infoHashCache empty_cache = {}" "infoHashExpiry empty_cache = []"
  by (simp_all add: empty_cache_def)

lemma empty_cache_inv: "cache_inv empty_cache"
  by (simp add: cache_inv_def empty_cache_def)

lemma length_AList_delete: "length (AList.delete k al) \<le> length al"
  by (simp add: AList.delete_eq)

lemma length_AList_update: "length (AList.update k v al) \<le> Suc (length al)"
  by (induction al) auto

lemma Remove_inv [inv_keep]: "cache_inv c \<Longrightarrow> cache_inv (InfoHashCacheRemove h c)"
  using le_trans [OF length_AList_delete [of h "infoHashExpiry c"]]
  by (simp add: cache_inv_def InfoHashCacheRemove_def distinct_delete)

lemma Add_inv [inv_keep]: "cache_inv c \<Longrightarrow> cache_inv (snd (InfoHashCacheAdd now h c))"
  using Remove_inv [of c h] by (auto simp: InfoHashCacheAdd_def cache_inv_def Let_def)

lemma evict_one_length:
  assumes "infoHashExpiry c \<noteq> []"
  shows "length (infoHashExpiry (evict_one pick c)) < length (infoHashExpiry c)"
proof -
  let ?e = "infoHashExpiry c ! (pick mod length (infoHashExpiry c))"
  have "?e \<in> set (infoHashExpiry c)" using assms by (intro nth_mem) simp
  then have "length (filter (\<lambda>(k', _). fst ?e \<noteq> k') (infoHashExpiry c)) < length (infoHashExpiry c)"
    by (intro length_filter_less [of ?e]) auto
  then show ?thesis using assms by (simp add: evict_one_def InfoHashCacheRemove_def AList.delete_eq)
qed

lemma ExpireAfter_inv [inv_keep]:
  assumes "cache_inv c"
  shows "cache_inv (InfoHashCacheExpireAfter now pick h ttl c)"
proof -
  define c1 where "c1 = (if length (infoHashExpiry c) \<ge> maxExpiringInfoHashes then drop_expired now c else c)"
  define c2 where "c2 = (if length (infoHashExpiry c1) \<ge> maxExpiringInfoHashes then evict_one pick c1 else c1)"
  have "cache_inv (drop_expired now c)"
    using assms le_trans [OF length_filter_le [of _ "infoHashExpiry c"]]
    by (simp add: cache_inv_def drop_expired_def distinct_map_filter)
  then have c1: "cache_inv c1" using assms by (simp add: c1_def)
  then have c2: "cache_inv c2" by (simp add: c2_def evict_one_def Remove_inv)
  have "length (infoHashExpiry c2) < maxExpiringInfoHashes"
  proof (cases "length (infoHashExpiry c1) \<ge> maxExpiringInfoHashes")
    case True
    then have "infoHashExpiry c1 \<noteq> []" by (auto simp: maxExpiringInfoHashes_def)
    with True c1 show ?thesis using evict_one_length [of c1 pick] by (simp add: c2_def cache_inv_def)
  qed (simp add: c2_def)
  then have "cache_inv (c2\<lparr>infoHashExpiry := AList.update h (now + ttl) (infoHashExpiry c2)\<rparr>)"
    using c2 le_trans [OF length_AList_update [of h "now + ttl" "infoHashExpiry c2"], of maxExpiringInfoHashes]
    by (simp add: cache_inv_def distinct_update)
  then show ?thesis
    using assms unfolding InfoHashCacheExpireAfter_def Let_def c1_def [symmetric] c2_def [symmetric] by simp
qed

section \<open>What an addition answers\<close>

lemma Add_contains: "h \<in> infoHashCache (snd (InfoHashCacheAdd now h c))"
  by (simp add: InfoHashCacheAdd_def Let_def)

lemma Add_answer: "fst (InfoHashCacheAdd now h c) \<longleftrightarrow> h \<notin> infoHashCache c \<or> expired now h c"
  by (simp add: InfoHashCacheAdd_def InfoHashCacheRemove_def Let_def)

lemma Add_other: "k \<noteq> h \<Longrightarrow> k \<in> infoHashCache (snd (InfoHashCacheAdd now h c)) \<longleftrightarrow> k \<in> infoHashCache c"
  by (simp add: InfoHashCacheAdd_def InfoHashCacheRemove_def Let_def)

lemma Remove_releases: "infoHashCache (InfoHashCacheRemove h c) = infoHashCache c - {h}"
  by (simp add: InfoHashCacheRemove_def)

text \<open>With no expiries, the cache is the set of hashes added and not removed.\<close>

lemma no_expiry [simp]:
  "infoHashExpiry c = [] \<Longrightarrow> infoHashExpiry (snd (InfoHashCacheAdd now h c)) = []"
  "infoHashExpiry c = [] \<Longrightarrow> infoHashExpiry (InfoHashCacheRemove h c) = []"
  "infoHashExpiry c = [] \<Longrightarrow> fst (InfoHashCacheAdd now h c) \<longleftrightarrow> h \<notin> infoHashCache c"
  "infoHashExpiry c = [] \<Longrightarrow> infoHashCache (snd (InfoHashCacheAdd now h c)) = insert h (infoHashCache c)"
  by (simp_all add: InfoHashCacheAdd_def InfoHashCacheRemove_def expired_def Let_def)

section \<open>The cache over time\<close>

datatype ca_event =
    CaAdd instant bytes
  | CaRemove bytes
  | CaExpire instant nat bytes duration
  | CaPopulate instant "string list option"

fun ca_step :: "Cache \<Rightarrow> ca_event \<Rightarrow> Cache" where
  "ca_step c (CaAdd now h) = snd (InfoHashCacheAdd now h c)"
| "ca_step c (CaRemove h) = InfoHashCacheRemove h c"
| "ca_step c (CaExpire now pick h ttl) = InfoHashCacheExpireAfter now pick h ttl c"
| "ca_step c (CaPopulate now all) = PopulateInfoHashCacheFromDatabase now all c"

lemma Populate_inv [inv_keep]: "cache_inv c \<Longrightarrow> cache_inv (PopulateInfoHashCacheFromDatabase now all c)"
proof -
  have "cache_inv c \<Longrightarrow> cache_inv (foldl (\<lambda>c ih. case hex_DecodeString ih of None \<Rightarrow> c
      | Some h \<Rightarrow> snd (InfoHashCacheAdd now h c)) c ihs)" for ihs c
    by (induction ihs arbitrary: c) (auto split: option.split intro: Add_inv)
  then show "cache_inv c \<Longrightarrow> ?thesis"
    by (simp add: PopulateInfoHashCacheFromDatabase_def split: option.split)
qed

interpretation known: step_system ca_step cache_inv
proof
  fix c e assume "cache_inv c"
  then show "cache_inv (ca_step c e)" by (cases e) (simp_all add: inv_keep)
qed

end
