(* ===== verification/Crawl_Loop.thy ===== *)
theory Crawl_Loop
  imports Cache Metadata_Sink
begin

text \<open>
  The crawl loop of \<open>ui/crawler.go\<close> (\<open>crawl\<close>): it takes results from the DHT manager, lets the
  cache of known hashes decide between a new download (\<open>Sink\<close>) and more peers (\<open>AddPeers\<close>),
  takes finished metadata from the sink's channel, and terminates the sink when it is
  stopped. The loop's goroutine, the download goroutines of the sink, and the
  acknowledgements of a worker's queue, which set expiries in the cache, run interleaved:
  each call into the cache or the sink is a step of its own, and the loop's place between
  two calls is part of the state. The sink's callback \<open>onDiscard\<close> removes a hash from the
  cache.
\<close>

section \<open>State and steps\<close>

datatype crawl_pc =
    Selecting
  | Adding IndexingResult
  | Merging IndexingResult
  | Releasing bytes
  | Stopping
  | Ended

record Crawl =
  cr_cache :: Cache
  cr_sink :: Sink
  cr_pc :: crawl_pc
  discovered :: uint64
  downloadSucceeded :: uint64
  cr_handled :: "Metadata list"

definition crawl_begin :: "Cache \<Rightarrow> int \<Rightarrow> nat \<Rightarrow> Crawl" where
  "crawl_begin cache maxLeeches maxConcurrent =
    \<lparr>cr_cache = cache, cr_sink = NewSink maxLeeches maxConcurrent, cr_pc = Selecting, discovered = 0,
     downloadSucceeded = 0, cr_handled = []\<rparr>"

text \<open>\<open>case result := <-trawlingManager.Output()\<close>, up to the answer of the cache.\<close>

definition on_output :: "instant \<Rightarrow> IndexingResult \<Rightarrow> Crawl \<Rightarrow> Crawl" where
  "on_output now res cr =
    (case InfoHashCacheAdd now (ir_infoHash res) (cr_cache cr) of
       (fresh, cache') \<Rightarrow>
         cr\<lparr>discovered := discovered cr + 1, cr_cache := cache',
            cr_pc := (if fresh then Adding res else Merging res)\<rparr>)"

text \<open>The call into the sink that follows, and the removal of a hash the sink refused.\<close>

definition loop_call :: "Crawl \<Rightarrow> Crawl" where
  "loop_call cr =
    (case cr_pc cr of
       Adding res \<Rightarrow>
         (case Sink_Sink res (cr_sink cr) of
            (accepted, ms) \<Rightarrow>
              cr\<lparr>cr_sink := ms, cr_pc := (if accepted then Selecting else Releasing (ir_infoHash res))\<rparr>)
     | Merging res \<Rightarrow> cr\<lparr>cr_sink := snd (AddPeers res (cr_sink cr)), cr_pc := Selecting\<rparr>
     | Releasing h \<Rightarrow> cr\<lparr>cr_cache := InfoHashCacheRemove h (cr_cache cr), cr_pc := Selecting\<rparr>
     | _ \<Rightarrow> cr)"

text \<open>
  \<open>case md := <-metadataSink.Drain()\<close>. \<open>answer\<close> is what \<open>onMetadata\<close> returns, \<open>None\<close> when there
  is no such function; \<open>no_database\<close> is \<open>m.database == nil\<close>, the mode of a worker.
\<close>

definition on_drain :: "bool \<Rightarrow> bool option \<Rightarrow> Crawl \<Rightarrow> Crawl" where
  "on_drain no_database answer cr =
    (case drain_receive (cr_sink cr) of
       None \<Rightarrow> cr
     | Some (md, ms) \<Rightarrow>
         let cr1 = cr\<lparr>cr_sink := ms, downloadSucceeded := downloadSucceeded cr + 1,
                      cr_handled := cr_handled cr @ [md]\<rparr>
         in if no_database \<and> answer = Some False
            then cr1\<lparr>cr_cache := InfoHashCacheRemove (md_InfoHash md) (cr_cache cr1)\<rparr>
            else cr1)"

text \<open>
  A step of a download goroutine; the sink calls \<open>onDiscard\<close> for what it discards.
\<close>

definition background :: "sk_event \<Rightarrow> bool" where
  "background e = (case e of SkCheck _ \<Rightarrow> True | SkAcquire _ \<Rightarrow> True | SkPeers _ _ \<Rightarrow> True
     | SkSuccess _ \<Rightarrow> True | SkSend \<Rightarrow> True | SkError _ \<Rightarrow> True | _ \<Rightarrow> False)"

definition on_download :: "sk_event \<Rightarrow> Crawl \<Rightarrow> Crawl" where
  "on_download e cr =
    (let ms = cr_sink cr; ms' = sk_run_step ms e
     in cr\<lparr>cr_sink := ms',
           cr_cache := foldl (\<lambda>c h. InfoHashCacheRemove h c) (cr_cache cr)
             (drop (length (sk_discarded ms)) (sk_discarded ms'))\<rparr>)"

text \<open>The deferred \<open>metadataSink.Terminate()\<close>, which may have to wait.\<close>

definition on_terminate :: "Crawl \<Rightarrow> Crawl" where
  "on_terminate cr =
    (case Sink_Terminate (cr_sink cr) of
       None \<Rightarrow> cr
     | Some ms \<Rightarrow> cr\<lparr>cr_sink := ms, cr_pc := Ended\<rparr>)"

datatype cr_event =
    CrOutput instant IndexingResult
  | CrCall
  | CrDrain "bool option"
  | CrStop
  | CrTerminate
  | CrDownload sk_event
  | CrExpire instant nat bytes duration

fun cr_step :: "bool \<Rightarrow> Crawl \<Rightarrow> cr_event \<Rightarrow> Crawl" where
  "cr_step nodb cr (CrOutput now res) = (if cr_pc cr = Selecting then on_output now res cr else cr)"
| "cr_step nodb cr CrCall = loop_call cr"
| "cr_step nodb cr (CrDrain answer) = (if cr_pc cr = Selecting then on_drain nodb answer cr else cr)"
| "cr_step nodb cr CrStop = (if cr_pc cr = Selecting then cr\<lparr>cr_pc := Stopping\<rparr> else cr)"
| "cr_step nodb cr CrTerminate = (if cr_pc cr = Stopping then on_terminate cr else cr)"
| "cr_step nodb cr (CrDownload e) = (if background e then on_download e cr else cr)"
| "cr_step nodb cr (CrExpire now pick h ttl) =
     cr\<lparr>cr_cache := InfoHashCacheExpireAfter now pick h ttl (cr_cache cr)\<rparr>"

section \<open>Where a hash is\<close>

text \<open>The hashes the sink has accepted and not discarded, in download, in a send, or sent.\<close>

definition places :: "Sink \<Rightarrow> bytes list" where
  "places ms = keys_of (downloads ms)
     @ map md_InfoHash (case flushing ms of None \<Rightarrow> [] | Some md \<Rightarrow> [md]) @ map md_InfoHash (sk_delivered ms)"

fun pending :: "crawl_pc \<Rightarrow> bytes list" where
  "pending (Adding res) = [ir_infoHash res]"
| "pending (Releasing h) = [h]"
| "pending _ = []"

lemma sk_inv_places:
  "sk_inv ms \<Longrightarrow> \<not> terminated ms \<Longrightarrow> mset (sk_accepted ms) = mset (places ms) + mset (sk_discarded ms)"
  by (simp add: sk_inv_def places_def ac_simps)

lemma background_frame:
  assumes "background e" and "sk_step ms e = Some ms'"
  shows "sk_accepted ms' = sk_accepted ms \<and> terminated ms' = terminated ms
    \<and> (\<exists>new. sk_discarded ms' = sk_discarded ms @ new)"
  using assms
  by (cases e) (auto simp: background_def download_check_def download_acquire_def set_phase_def onPeers_def
      flush_begin_def flush_send_def onLeechError_def forget_def Let_def split: if_splits option.splits list.splits)

lemma background_run:
  assumes "background e" and "sk_inv ms"
  shows "sk_inv (sk_run_step ms e) \<and> terminated (sk_run_step ms e) = terminated ms
    \<and> (\<exists>new. sk_discarded (sk_run_step ms e) = sk_discarded ms @ new
         \<and> (\<not> terminated ms \<longrightarrow> mset (places ms) = mset (places (sk_run_step ms e)) + mset new))"
proof (cases "sk_step ms e")
  case None
  then show ?thesis using assms by (simp add: sk_run_step_def)
next
  case (Some ms')
  then have run: "sk_run_step ms e = ms'" by (simp add: sk_run_step_def)
  then have inv: "sk_inv ms'" using sink.step_keeps [OF assms(2)] by metis
  obtain new where new: "sk_discarded ms' = sk_discarded ms @ new" "sk_accepted ms' = sk_accepted ms"
    "terminated ms' = terminated ms" using background_frame [OF assms(1) Some] by blast
  have "mset (places ms) = mset (places ms') + mset new" if "\<not> terminated ms"
    using sk_inv_places [OF assms(2) that] sk_inv_places [OF inv] new that by (simp add: ac_simps)
  with run inv new show ?thesis by blast
qed

lemma Sink_places:
  assumes "sk_inv ms" and "\<not> terminated ms"
  shows "if fst (Sink_Sink res ms)
    then mset (places (snd (Sink_Sink res ms))) = add_mset (ir_infoHash res) (mset (places ms))
    else snd (Sink_Sink res ms) = ms"
proof -
  have "\<not> fst (Sink_Sink res ms) \<Longrightarrow> snd (Sink_Sink res ms) = ms"
    by (auto simp: Sink_Sink_def Let_def split: if_splits list.splits)
  moreover have "fst (Sink_Sink res ms) \<Longrightarrow>
      mset (places (snd (Sink_Sink res ms))) = add_mset (ir_infoHash res) (mset (places ms))"
    by (auto simp: Sink_Sink_def Let_def places_def split: if_splits list.splits)
  ultimately show ?thesis by simp
qed

lemma AddPeers_frame [simp]:
  "places (snd (AddPeers res ms)) = places ms" "terminated (snd (AddPeers res ms)) = terminated ms"
  by (auto simp: AddPeers_def places_def Let_def)

lemma Sink_terminated [simp]: "terminated (snd (Sink_Sink res ms)) = terminated ms"
  by (auto simp: Sink_Sink_def Let_def split: list.splits)

lemma sk_event_inv:
  "sk_inv ms \<Longrightarrow> sk_inv (snd (Sink_Sink res ms))" "sk_inv ms \<Longrightarrow> sk_inv (snd (AddPeers res ms))"
  using sink.step_keeps [of ms "SkSink res"] sink.step_keeps [of ms "SkAddPeers res"]
  by (simp_all add: sk_run_step_def)

section \<open>Invariant\<close>

text \<open>
  For a loop with a database and a cache without expiries, both as the main process has
  them: as long as the sink runs, the known hashes are those known at the start and, each
  once, those in the sink's hands, delivered, or between the cache and the sink.
\<close>

definition owned :: "Crawl \<Rightarrow> bytes list" where
  "owned cr = places (cr_sink cr) @ pending (cr_pc cr)"

definition cr_inv :: "bytes set \<Rightarrow> Crawl \<Rightarrow> bool" where
  "cr_inv known0 cr \<longleftrightarrow>
    sk_inv (cr_sink cr) \<and> infoHashExpiry (cr_cache cr) = [] \<and> (cr_pc cr \<noteq> Ended \<longrightarrow> \<not> terminated (cr_sink cr))
    \<and> (\<not> terminated (cr_sink cr) \<longrightarrow>
         distinct (owned cr) \<and> known0 \<inter> set (owned cr) = {}
         \<and> infoHashCache (cr_cache cr) = known0 \<union> set (owned cr))"

lemma crawl_begin_inv:
  "infoHashExpiry cache = [] \<Longrightarrow> cr_inv (infoHashCache cache) (crawl_begin cache maxLeeches maxConcurrent)"
  by (simp add: cr_inv_def crawl_begin_def owned_def places_def NewSink_inv) (simp add: NewSink_def)

lemma removes_cache:
  "infoHashCache (foldl (\<lambda>c h. InfoHashCacheRemove h c) cache hs) = infoHashCache cache - set hs"
  "infoHashExpiry cache = [] \<Longrightarrow> infoHashExpiry (foldl (\<lambda>c h. InfoHashCacheRemove h c) cache hs) = []"
  by (induction hs arbitrary: cache) (auto simp: Remove_releases)

text \<open>A multiset of hashes with no repetition stays so when some of it is given up.\<close>

lemma give_up:
  assumes "distinct (xs @ zs)" and "mset xs = mset ys + mset new"
  shows "distinct (ys @ zs) \<and> set (ys @ zs) = set (xs @ zs) - set new"
proof -
  have m: "mset (xs @ zs) = mset ((ys @ zs) @ new)" using assms(2) by (simp add: ac_simps)
  then have "distinct ((ys @ zs) @ new)" using assms(1) mset_eq_imp_distinct_iff by blast
  moreover have "set (xs @ zs) = set ((ys @ zs) @ new)" using m by (rule mset_eq_setD)
  ultimately show ?thesis by auto
qed

lemma on_download_inv:
  assumes "cr_inv known0 cr" and "background e"
  shows "cr_inv known0 (on_download e cr)"
proof -
  let ?ms = "cr_sink cr" and ?ms' = "sk_run_step (cr_sink cr) e"
  have inv: "sk_inv ?ms" using assms(1) by (simp add: cr_inv_def)
  obtain new where new: "sk_discarded ?ms' = sk_discarded ?ms @ new" "sk_inv ?ms'"
    "terminated ?ms' = terminated ?ms"
    "\<not> terminated ?ms \<Longrightarrow> mset (places ?ms) = mset (places ?ms') + mset new"
    using background_run [OF assms(2) inv] by blast
  have "distinct (places ?ms' @ pending (cr_pc cr))
      \<and> set (places ?ms' @ pending (cr_pc cr)) = set (owned cr) - set new" if run: "\<not> terminated ?ms"
  proof -
    have "distinct (places ?ms @ pending (cr_pc cr))"
      using assms(1) run unfolding cr_inv_def owned_def by blast
    from give_up [OF this new(4) [OF run]] show ?thesis by (simp only: owned_def)
  qed
  moreover have "known0 \<inter> set new = {}" if "\<not> terminated ?ms"
  proof -
    have "set new \<subseteq> set (owned cr)"
      using mset_eq_setD [of "places ?ms" "places ?ms' @ new"] new(4) [OF that] by (auto simp: owned_def)
    moreover have "known0 \<inter> set (owned cr) = {}" using assms(1) that unfolding cr_inv_def by blast
    ultimately show ?thesis by blast
  qed
  ultimately show ?thesis
    using assms(1) new(1-3) removes_cache
    by (auto simp: cr_inv_def on_download_def owned_def Let_def)
qed

lemma on_output_inv:
  assumes "cr_inv known0 cr" and "cr_pc cr = Selecting"
  shows "cr_inv known0 (on_output now res cr)"
  using assms by (auto simp: cr_inv_def on_output_def owned_def split: prod.split)
    (auto dest: sym [of "(_, _)"] simp: prod_eq_iff)

lemma loop_call_inv:
  assumes "cr_inv known0 cr"
  shows "cr_inv known0 (loop_call cr)"
proof (cases "cr_pc cr")
  case (Adding res)
  then have inv: "sk_inv (cr_sink cr)" and run: "\<not> terminated (cr_sink cr)" using assms by (auto simp: cr_inv_def)
  let ?ms = "snd (Sink_Sink res (cr_sink cr))"
  show ?thesis
  proof (cases "fst (Sink_Sink res (cr_sink cr))")
    case True
    then have "mset (places ?ms) = mset (owned cr)"
      using Sink_places [OF inv run, of res] Adding by (simp add: owned_def)
    then have "distinct (places ?ms) = distinct (owned cr)" "set (places ?ms) = set (owned cr)"
      by (rule mset_eq_imp_distinct_iff, rule mset_eq_setD)
    with True Adding assms run sk_event_inv(1) [OF inv] show ?thesis
      by (simp add: cr_inv_def loop_call_def owned_def split_beta)
  next
    case False
    then have "?ms = cr_sink cr" using Sink_places [OF inv run, of res] by simp
    with False Adding assms show ?thesis
      by (simp add: cr_inv_def loop_call_def owned_def split_beta)
  qed
next
  case (Merging res)
  then show ?thesis using assms sk_event_inv(2) by (simp add: cr_inv_def loop_call_def owned_def)
next
  case (Releasing h)
  then show ?thesis using assms by (auto simp: cr_inv_def loop_call_def owned_def Remove_releases)
qed (use assms in \<open>simp_all add: loop_call_def\<close>)

lemma drain_receive_frame:
  assumes "drain_receive ms = Some (md, ms')"
  shows "places ms' = places ms" and "terminated ms' = terminated ms" and "sk_inv ms \<Longrightarrow> sk_inv ms'"
  using assms sink.step_keeps [of ms SkReceive]
  by (auto simp: drain_receive_def places_def sk_run_step_def split: list.splits)

lemma cr_step_inv:
  assumes "cr_inv known0 cr" and "\<forall>now pick h ttl. e \<noteq> CrExpire now pick h ttl"
  shows "cr_inv known0 (cr_step False cr e)"
proof (cases e)
  case (CrDrain answer)
  then show ?thesis
    using assms drain_receive_frame [of "cr_sink cr"]
    by (auto simp: on_drain_def cr_inv_def owned_def Let_def split: option.split)
next
  case CrTerminate
  then show ?thesis
    using assms sink.step_keeps [of "cr_sink cr" SkTerminate]
    by (auto simp: on_terminate_def Sink_Terminate_def cr_inv_def sk_run_step_def)
next
  case CrStop
  then show ?thesis using assms by (auto simp: cr_inv_def owned_def)
qed (use assms on_output_inv loop_call_inv on_download_inv in auto)

definition ordinary :: "cr_event \<Rightarrow> bool" where
  "ordinary e = (case e of CrExpire _ _ _ _ \<Rightarrow> False | _ \<Rightarrow> True)"

interpretation crawl: total_step_system "\<lambda>cr e. Inr (cr_step False cr e)" "cr_inv known0" ordinary for known0
  by unfold_locales (auto simp: ordinary_def intro!: cr_step_inv)

lemma efold_Inr: "efold (\<lambda>s a. Inr (f s a)) s xs = Inr (foldl f s xs)"
  by (induction xs arbitrary: s) simp_all

lemma crawl_run_inv:
  assumes "infoHashExpiry cache = []" and "\<forall>e \<in> set es. ordinary e"
  shows "cr_inv (infoHashCache cache) (foldl (cr_step False) (crawl_begin cache maxLeeches maxConcurrent) es)"
  using crawl.erun_total [OF crawl_begin_inv [OF assms(1)] assms(2)] by (auto simp: efold_Inr)

section \<open>After the end\<close>

text \<open>
  Once the loop has ended, a hash that is still known stays known, and nothing is
  delivered.
\<close>

definition stranded :: "bytes \<Rightarrow> Metadata list \<Rightarrow> bytes list \<Rightarrow> Crawl \<Rightarrow> bool" where
  "stranded h dl dc cr \<longleftrightarrow> cr_pc cr = Ended \<and> over dl dc (cr_sink cr)
     \<and> h \<in> infoHashCache (cr_cache cr) \<and> infoHashExpiry (cr_cache cr) = []"

interpretation ended: total_step_system "\<lambda>cr e. Inr (cr_step False cr e)" "stranded h dl dc" ordinary for h dl dc
proof
  fix cr e assume st: "stranded h dl dc cr" and ord: "ordinary e"
  have "stranded h dl dc (on_download e' cr)" for e'
  proof -
    have "over dl dc (sk_run_step (cr_sink cr) e')" using st after.step_keeps by (simp add: stranded_def)
    then show ?thesis using st by (simp add: stranded_def on_download_def over_def Let_def)
  qed
  with st ord show "\<exists>s'. Inr (cr_step False cr e) = Inr s' \<and> stranded h dl dc s'"
    by (cases e) (auto simp: stranded_def ordinary_def loop_call_def)
qed

lemma terminate_strands:
  assumes "cr_inv known0 cr" and "cr_pc cr = Stopping" and "flushing (cr_sink cr) = None"
    and "h \<in> set (owned cr)"
  shows "stranded h (sk_delivered (cr_sink cr)) (sk_discarded (cr_sink cr)) (cr_step False cr CrTerminate)"
  using assms
  by (auto simp: cr_inv_def stranded_def on_terminate_def Sink_Terminate_def over_def)

end
