(* ===== verification/Crawler_Manager.thy ===== *)
theory Crawler_Manager
  imports Prelude
begin

text \<open>
  The crawler's switch, \<open>ui/crawler.go\<close>: the daily window, the start and stop of a crawl by
  hand, by the schedule and by the auto-stop timer, and the web handlers of
  \<open>ui/crawler_controls.go\<close>, which only call \<open>Start\<close> and \<open>Stop\<close>. Every operation runs under
  the manager's mutex and is one step. A crawl is known by its stop channel, channels by the
  order they were made in; closing a channel twice or a nil channel panics in Go, and the
  operations that close one return \<open>Inl CloseOfClosed\<close> then. Instants are read in a location
  whose clock does not jump (UTC, say), where a day has 24 hours. The configuration is shared
  with the settings page, so that every operation takes the one it finds.
\<close>

section \<open>The daily window\<close>

text \<open>
  \<open>time.Parse("15:04", ...)\<close>: one or two digits of an hour below 24, a colon, two digits of a
  minute below 60, and nothing more.
\<close>

definition digit :: "char \<Rightarrow> nat option" where
  "digit ch = (let v = (of_char ch :: nat) in if 48 \<le> v \<and> v \<le> 57 then Some (v - 48) else None)"

fun getnum :: "bool \<Rightarrow> string \<Rightarrow> (nat \<times> string) option" where
  "getnum fixed [] = None"
| "getnum fixed [a] = (case digit a of None \<Rightarrow> None | Some x \<Rightarrow> if fixed then None else Some (x, []))"
| "getnum fixed (a # b # s) =
     (case (digit a, digit b) of
        (None, _) \<Rightarrow> None
      | (Some x, Some y) \<Rightarrow> Some (10 * x + y, s)
      | (Some x, None) \<Rightarrow> if fixed then None else Some (x, b # s))"

definition time_Parse_15_04 :: "string \<Rightarrow> (nat \<times> nat) option" where
  "time_Parse_15_04 s =
    (case getnum False s of
       Some (h, CHR '':'' # s1) \<Rightarrow>
         (case getnum True s1 of
            Some (m, []) \<Rightarrow> if h < 24 \<and> m < 60 then Some (h, m) else None
          | _ \<Rightarrow> None)
     | _ \<Rightarrow> None)"

definition parseClockMinutes :: "string \<Rightarrow> int option" where
  "parseClockMinutes value =
    (case time_Parse_15_04 (TrimSpace value) of
       None \<Rightarrow> None
     | Some (h, m) \<Rightarrow> Some (int h * 60 + int m))"

definition Day :: duration where
  "Day = 24 * Hour"

definition minute_of_day :: "instant \<Rightarrow> int" where
  "minute_of_day t = (t mod Day) div Minute"

definition in_window :: "int \<Rightarrow> int \<Rightarrow> int \<Rightarrow> bool" where
  "in_window startMinute endMinute minute =
    (if startMinute < endMinute then minute \<ge> startMinute \<and> minute < endMinute
     else minute \<ge> startMinute \<or> minute < endMinute)"

definition scheduleState :: "instant \<Rightarrow> string \<Rightarrow> string \<Rightarrow> bool \<times> instant" where
  "scheduleState now startText endText =
    (case (parseClockMinutes startText, parseClockMinutes endText) of
       (Some startMinute, Some endMinute) \<Rightarrow>
         if startMinute = endMinute then (False, 0)
         else
           let inside = in_window startMinute endMinute (minute_of_day now);
               nextMinute = (if inside then endMinute else startMinute);
               next = now - now mod Day + nextMinute * Minute
           in (inside, if \<not> next > now then next + Day else next)
     | _ \<Rightarrow> (False, 0))"

lemma getnum_less: "getnum fixed s = Some (n, r) \<Longrightarrow> n < 100"
  by (induction fixed s rule: getnum.induct) (auto simp: digit_def Let_def split: if_splits option.splits)

lemma parseClockMinutes_range: "parseClockMinutes s = Some m \<Longrightarrow> 0 \<le> m \<and> m < 1440"
  by (auto simp: parseClockMinutes_def time_Parse_15_04_def split: option.splits list.splits char.splits bool.splits if_splits prod.splits)

lemma Day_eq: "Day = 1440 * Minute" "0 < Day" "0 < Minute"
  by (simp_all add: Day_def duration_defs)

lemma le_div_int_iff: "0 < k \<Longrightarrow> m \<le> a div k \<longleftrightarrow> m * k \<le> a" for k m a :: int
proof
  assume k: "0 < k" and "m \<le> a div k"
  then have "m * k \<le> a div k * k" by simp
  also have "\<dots> \<le> a" using k pos_mod_sign [of k a] by (simp add: minus_mod_eq_div_mult [symmetric])
  finally show "m * k \<le> a" .
next
  assume "0 < k" and "m * k \<le> a"
  then show "m \<le> a div k" using zdiv_mono1 [of "m * k" a k] by simp
qed

text \<open>The window in nanoseconds of the day.\<close>

lemma in_window_ns:
  "in_window a b (minute_of_day t) = in_window (a * Minute) (b * Minute) (t mod Day)"
  using Day_eq(3) by (simp add: in_window_def minute_of_day_def le_div_int_iff not_le [symmetric])

lemma mod_Day_add:
  assumes "0 \<le> d" and "d < Day" shows "(t + d) mod Day = (if t mod Day + d < Day then t mod Day + d else t mod Day + d - Day)"
proof -
  have r: "0 \<le> t mod Day" "t mod Day < Day" using Day_eq(2) by simp_all
  have "(t + d) mod Day = (t mod Day + d) mod Day" by (simp add: mod_add_left_eq)
  also have "\<dots> = (if t mod Day + d < Day then t mod Day + d else t mod Day + d - Day)"
  proof (cases "t mod Day + d < Day")
    case True
    then show ?thesis using r assms by simp
  next
    case False
    have "(t mod Day + d) mod Day = (t mod Day + d - Day) mod Day" by (rule minus_mod_self2 [symmetric])
    also have "\<dots> = t mod Day + d - Day" using r assms False by (intro mod_pos_pos_trivial) linarith+
    finally show ?thesis using False by simp
  qed
  finally show ?thesis .
qed

lemma scheduleState_change:
  assumes "parseClockMinutes startText = Some a" and "parseClockMinutes endText = Some b" and "a \<noteq> b"
    and "scheduleState now startText endText = (inside, next)"
  shows "now < next \<and> next \<le> now + Day
    \<and> (\<forall>t. now \<le> t \<and> t < next \<longrightarrow> fst (scheduleState t startText endText) = inside)
    \<and> fst (scheduleState next startText endText) = (\<not> inside)"
proof -
  define A B r where "A = a * Minute" and "B = b * Minute" and "r = now mod Day"
  have ab: "0 \<le> a" "a < 1440" "0 \<le> b" "b < 1440" using assms(1,2) parseClockMinutes_range by auto
  then have AB: "0 \<le> A" "A < Day" "0 \<le> B" "B < Day" "A \<noteq> B"
    using Day_eq assms(3) mult_strict_right_mono [of a 1440 Minute] mult_strict_right_mono [of b 1440 Minute]
    by (auto simp: A_def B_def)
  have r: "0 \<le> r" "r < Day" using Day_eq(2) by (simp_all add: r_def)
  have fst_state: "fst (scheduleState t startText endText) = in_window A B (t mod Day)" for t
    using assms(1-3) by (simp add: scheduleState_def in_window_ns A_def B_def Let_def)
  define T where "T = (if inside then B else A)"
  define d where "d = (if T > r then T - r else T - r + Day)"
  have ins: "inside = in_window A B r"
    using fst_state [of now] assms(4) by (simp add: r_def)
  have nxt: "next = now + d"
    using assms by (auto simp: scheduleState_def in_window_ns A_def B_def T_def d_def r_def Let_def)
  have d: "0 < d" "d \<le> Day" using AB r by (auto simp: d_def T_def)
  have shift: "(now + e) mod Day = (if r + e < Day then r + e else r + e - Day)" if "0 \<le> e" "e < Day" for e
    using mod_Day_add [OF that] by (simp add: r_def)
  have same: "in_window A B ((now + e) mod Day) = inside" if "0 \<le> e" "e < d" for e
    using shift [of e] that d AB r ins by (auto simp: in_window_def d_def T_def split: if_splits)
  have turn: "in_window A B ((now + d) mod Day) = (\<not> inside)"
  proof (cases "d < Day")
    case True
    then show ?thesis
      using shift [of d] d AB r ins by (auto simp: in_window_def d_def T_def split: if_splits)
  next
    case False
    then have "d = Day" "T = r" using d AB r by (auto simp: d_def T_def split: if_splits)
    then show ?thesis using AB r ins by (auto simp: in_window_def T_def r_def split: if_splits)
  qed
  have "fst (scheduleState t startText endText) = inside" if "now \<le> t" "t < next" for t
    using same [of "t - now"] that nxt by (simp add: fst_state)
  then show ?thesis using d turn by (auto simp: nxt fst_state)
qed

text \<open>C33. The crawl window and its next change: for two valid, different clock times,
  \<open>scheduleState\<close> announces an instant after now, at most a day ahead, up to which the answer
  \<open>inside\<close> stays the same and at which it turns.\<close>
theorem schedule_next_change:
  assumes "parseClockMinutes startText = Some a" and "parseClockMinutes endText = Some b" and "a \<noteq> b"
    and "scheduleState now startText endText = (inside, next)"
  shows "now < next \<and> next \<le> now + Day
    \<and> (\<forall>t. now \<le> t \<and> t < next \<longrightarrow> fst (scheduleState t startText endText) = inside)
    \<and> fst (scheduleState next startText endText) = (\<not> inside)"
  using assms by (rule scheduleState_change)

theorem schedule_next_change_witness:
  "fst (scheduleState (6 * Hour) ''22:00'' '' 7:00 '') \<and> \<not> fst (scheduleState (7 * Hour) ''22:00'' '' 7:00 '')"
proof -
  have p: "parseClockMinutes ''22:00'' = Some 1320" "parseClockMinutes '' 7:00 '' = Some 420"
    by (code_simp, code_simp)
  have s: "scheduleState (6 * Hour) ''22:00'' '' 7:00 '' = (True, 7 * Hour)"
    by (simp add: scheduleState_def p in_window_def minute_of_day_def Day_def duration_defs)
  show ?thesis using schedule_next_change [OF p _ s] s by simp
qed

section \<open>State and operations\<close>

record CrawlerConfig =
  OnlyWebServer :: bool
  CrawlerThreads :: int
  CrawlerAutoStopMinutes :: int
  CrawlerScheduleEnabled :: bool
  CrawlerScheduleStart :: string
  CrawlerScheduleEnd :: string

text \<open>
  Beside the fields of the code: \<open>made\<close> channels so far, those \<open>closed\<close>, in order, the
  \<open>crawls\<close> started, with their threads, and the \<open>timers\<close>, the goroutines of \<open>stopAfter\<close>, each
  with its channel and the instant it fires at.
\<close>

record CrawlerManager =
  stop :: "nat option"
  startedAt :: instant
  autoStopAt :: instant
  threads :: int
  running :: bool
  manualOverride :: bool
  manualRun :: bool
  manualUntil :: instant
  made :: nat
  closed :: "nat list"
  crawls :: "(nat \<times> int) list"
  timers :: "(nat \<times> instant) list"

datatype close_panic = CloseOfClosed

definition NewCrawlerManager :: CrawlerManager where
  "NewCrawlerManager =
    \<lparr>stop = None, startedAt = 0, autoStopAt = 0, threads = 0, running = False, manualOverride = False,
     manualRun = False, manualUntil = 0, made = 0, closed = [], crawls = [], timers = []\<rparr>"

definition setManualOverrideAtLocked :: "CrawlerConfig \<Rightarrow> instant \<Rightarrow> bool \<Rightarrow> CrawlerManager \<Rightarrow> CrawlerManager" where
  "setManualOverrideAtLocked cfg now run m =
    (if \<not> CrawlerScheduleEnabled cfg then m
     else
       let next = snd (scheduleState now (CrawlerScheduleStart cfg) (CrawlerScheduleEnd cfg))
       in if IsZero next then m
          else m\<lparr>manualOverride := True, manualRun := run, manualUntil := next\<rparr>)"

definition startLocked :: "CrawlerConfig \<Rightarrow> instant \<Rightarrow> CrawlerManager \<Rightarrow> bool \<times> CrawlerManager" where
  "startLocked cfg now m =
    (if running m \<or> OnlyWebServer cfg then (False, m)
     else
       let ths = (if CrawlerThreads cfg < 1 then 1 else CrawlerThreads cfg);
           ch = made m;
           m1 = m\<lparr>made := ch + 1, stop := Some ch, running := True, startedAt := now, threads := ths,
                  autoStopAt := 0, crawls := crawls m @ [(ch, ths)]\<rparr>
       in (True,
           if CrawlerAutoStopMinutes cfg > 0
           then let at = now + int64 (CrawlerAutoStopMinutes cfg * Minute)
                in m1\<lparr>autoStopAt := at, timers := timers m1 @ [(ch, at)]\<rparr>
           else m1))"

definition stopLocked :: "CrawlerManager \<Rightarrow> close_panic + bool \<times> CrawlerManager" where
  "stopLocked m =
    (if \<not> running m then Inr (False, m)
     else case stop m of
       None \<Rightarrow> Inl CloseOfClosed
     | Some ch \<Rightarrow>
         if ch \<in> set (closed m) then Inl CloseOfClosed
         else Inr (True, m\<lparr>closed := closed m @ [ch], running := False, stop := None, autoStopAt := 0\<rparr>))"

definition Start :: "CrawlerConfig \<Rightarrow> instant \<Rightarrow> CrawlerManager \<Rightarrow> bool \<times> CrawlerManager" where
  "Start cfg now m = startLocked cfg now (setManualOverrideAtLocked cfg now True m)"

definition Stop :: "CrawlerConfig \<Rightarrow> instant \<Rightarrow> CrawlerManager \<Rightarrow> close_panic + bool \<times> CrawlerManager" where
  "Stop cfg now m = stopLocked (setManualOverrideAtLocked cfg now False m)"

definition ReconcileSchedule :: "CrawlerConfig \<Rightarrow> instant \<Rightarrow> CrawlerManager \<Rightarrow> close_panic + CrawlerManager" where
  "ReconcileSchedule cfg now m =
    (if OnlyWebServer cfg \<or> \<not> CrawlerScheduleEnabled cfg then Inr (m\<lparr>manualOverride := False, manualUntil := 0\<rparr>)
     else if manualOverride m \<and> now < manualUntil m then
       (if manualRun m then Inr (snd (startLocked cfg now m))
        else ebind (stopLocked m) (\<lambda>(_, m'). Inr m'))
     else
       let m1 = m\<lparr>manualOverride := False, manualUntil := 0\<rparr>
       in if fst (scheduleState now (CrawlerScheduleStart cfg) (CrawlerScheduleEnd cfg))
          then Inr (snd (startLocked cfg now m1))
          else ebind (stopLocked m1) (\<lambda>(_, m'). Inr m'))"

text \<open>
  The goroutine of \<open>stopAfter\<close> for channel \<open>ch\<close>: its timer fires, at once when the delay is
  not positive, or it sees its channel closed and returns.
\<close>

definition stopAfter_fires :: "instant \<Rightarrow> nat \<Rightarrow> CrawlerManager \<Rightarrow> close_panic + CrawlerManager" where
  "stopAfter_fires now ch m =
    (if \<exists>(c, at) \<in> set (timers m). c = ch \<and> at \<le> now then
       let m1 = m\<lparr>timers := filter (\<lambda>(c, at). c \<noteq> ch) (timers m)\<rparr>
       in if stop m1 = Some ch then ebind (stopLocked (m1\<lparr>manualRun := False\<rparr>)) (\<lambda>(_, m'). Inr m')
          else Inr m1
     else Inr m)"

definition stopAfter_returns :: "nat \<Rightarrow> CrawlerManager \<Rightarrow> CrawlerManager" where
  "stopAfter_returns ch m =
    (if ch \<in> set (closed m) then m\<lparr>timers := filter (\<lambda>(c, at). c \<noteq> ch) (timers m)\<rparr> else m)"

datatype cm_event =
    CmStart CrawlerConfig instant
  | CmStop CrawlerConfig instant
  | CmReconcile CrawlerConfig instant
  | CmTimer instant nat
  | CmTimerEnds nat

fun cm_step :: "CrawlerManager \<Rightarrow> cm_event \<Rightarrow> close_panic + CrawlerManager" where
  "cm_step m (CmStart cfg now) = Inr (snd (Start cfg now m))"
| "cm_step m (CmStop cfg now) = ebind (Stop cfg now m) (\<lambda>(_, m'). Inr m')"
| "cm_step m (CmReconcile cfg now) = ReconcileSchedule cfg now m"
| "cm_step m (CmTimer now ch) = stopAfter_fires now ch m"
| "cm_step m (CmTimerEnds ch) = Inr (stopAfter_returns ch m)"

section \<open>Invariant\<close>

lemma filter_eq_single: "distinct xs \<Longrightarrow> x \<in> set xs \<Longrightarrow> filter (\<lambda>y. y = x) xs = [x]"
  by (induction xs) (auto simp: filter_empty_conv)

text \<open>
  The manager runs exactly when it holds a channel; that channel is open, every other one
  made so far is closed, and each belongs to one crawl.
\<close>

definition cm_inv :: "CrawlerManager \<Rightarrow> bool" where
  "cm_inv m \<longleftrightarrow>
    (running m \<longleftrightarrow> stop m \<noteq> None) \<and> distinct (closed m)
    \<and> (\<forall>ch. ch < made m \<longleftrightarrow> ch \<in> set (closed m) \<or> stop m = Some ch)
    \<and> (\<forall>ch. stop m = Some ch \<longrightarrow> ch \<notin> set (closed m))
    \<and> map fst (crawls m) = [0..<made m] \<and> (\<forall>c \<in> set (crawls m). 1 \<le> snd c)"

lemma NewCrawlerManager_inv: "cm_inv NewCrawlerManager"
  by (simp add: cm_inv_def NewCrawlerManager_def)

lemma cm_inv_upd [simp]:
  "cm_inv (m\<lparr>manualOverride := a\<rparr>) = cm_inv m" "cm_inv (m\<lparr>manualRun := a\<rparr>) = cm_inv m"
  "cm_inv (m\<lparr>manualUntil := t\<rparr>) = cm_inv m" "cm_inv (m\<lparr>timers := ts\<rparr>) = cm_inv m"
  "cm_inv (m\<lparr>autoStopAt := t\<rparr>) = cm_inv m"
  by (simp_all add: cm_inv_def)

lemma override_inv [simp]: "cm_inv (setManualOverrideAtLocked cfg now run m) = cm_inv m"
  by (simp add: setManualOverrideAtLocked_def Let_def)

lemma startLocked_inv:
  assumes "cm_inv m"
  shows "cm_inv (snd (startLocked cfg now m))"
proof (cases "running m \<or> OnlyWebServer cfg")
  case False
  define ths where "ths = (if CrawlerThreads cfg < 1 then 1 else CrawlerThreads cfg)"
  define m1 where "m1 = m\<lparr>made := made m + 1, stop := Some (made m), running := True, startedAt := now,
    threads := ths, autoStopAt := 0, crawls := crawls m @ [(made m, ths)]\<rparr>"
  have "stop m = None" "\<And>ch. ch < made m \<longleftrightarrow> ch \<in> set (closed m)" using assms False by (auto simp: cm_inv_def)
  then have "cm_inv m1" using assms unfolding cm_inv_def m1_def ths_def by (auto simp: less_Suc_eq)
  moreover have "snd (startLocked cfg now m) = m1 \<or>
      (\<exists>at ts. snd (startLocked cfg now m) = m1\<lparr>autoStopAt := at, timers := ts\<rparr>)"
    using False by (auto simp: startLocked_def m1_def ths_def Let_def)
  ultimately show ?thesis by auto
qed (use assms in \<open>simp add: startLocked_def\<close>)

lemma stopLocked_total:
  assumes "cm_inv m"
  shows "\<exists>r m'. stopLocked m = Inr (r, m') \<and> cm_inv m' \<and> \<not> running m' \<and> stop m' = None"
  using assms by (auto simp: stopLocked_def cm_inv_def)

lemma cm_step_total:
  assumes "cm_inv m"
  shows "\<exists>m'. cm_step m e = Inr m' \<and> cm_inv m'"
proof (cases e)
  case (CmStop cfg now)
  then show ?thesis using stopLocked_total [of "setManualOverrideAtLocked cfg now False m"] assms
    by (auto simp: Stop_def)
next
  case (CmReconcile cfg now)
  then show ?thesis
    using stopLocked_total [of m] stopLocked_total [of "m\<lparr>manualOverride := False, manualUntil := 0\<rparr>"]
      startLocked_inv [of m cfg now] startLocked_inv [of "m\<lparr>manualOverride := False, manualUntil := 0\<rparr>" cfg now] assms
    by (auto simp: ReconcileSchedule_def Let_def)
next
  case (CmTimer now ch)
  then show ?thesis
    using stopLocked_total [of "m\<lparr>timers := filter (\<lambda>(c, at). c \<noteq> ch) (timers m), manualRun := False\<rparr>"] assms
    by (auto simp: stopAfter_fires_def Let_def)
qed (use assms startLocked_inv in \<open>auto simp: Start_def stopAfter_returns_def\<close>)

interpretation switch: total_step_system cm_step cm_inv "\<lambda>_. True"
  by unfold_locales (rule cm_step_total)


section \<open>Override and auto-stop\<close>

lemma override_frame [simp]:
  "running (setManualOverrideAtLocked cfg now run m) = running m"
  "stop (setManualOverrideAtLocked cfg now run m) = stop m"
  "closed (setManualOverrideAtLocked cfg now run m) = closed m"
  by (simp_all add: setManualOverrideAtLocked_def Let_def)

lemma startLocked_running: "running m \<Longrightarrow> startLocked cfg now m = (False, m)"
  by (simp add: startLocked_def)

lemma startLocked_runs: "\<not> OnlyWebServer cfg \<Longrightarrow> running (snd (startLocked cfg now m))"
  by (simp add: startLocked_def Let_def)

lemma startLocked_frame [simp]:
  "manualOverride (snd (startLocked cfg now m)) = manualOverride m"
  "manualRun (snd (startLocked cfg now m)) = manualRun m"
  "manualUntil (snd (startLocked cfg now m)) = manualUntil m"
  by (simp_all add: startLocked_def Let_def)

lemma stopLocked_frame:
  "stopLocked m = Inr (r, m') \<Longrightarrow>
    manualOverride m' = manualOverride m \<and> manualRun m' = manualRun m \<and> manualUntil m' = manualUntil m"
  by (auto simp: stopLocked_def split: if_splits option.splits)

definition overridden :: "bool \<Rightarrow> instant \<Rightarrow> CrawlerManager \<Rightarrow> bool" where
  "overridden run until m \<longleftrightarrow> manualOverride m \<and> manualRun m = run \<and> manualUntil m = until \<and> running m = run"

lemma overridden_reconcile:
  assumes "overridden run until m" and "CrawlerScheduleEnabled cfg" "\<not> OnlyWebServer cfg" and "t < until"
  shows "ReconcileSchedule cfg t m = Inr m"
  using assms by (auto simp: overridden_def ReconcileSchedule_def startLocked_running stopLocked_def)

lemma overridden_reconciles:
  "overridden run until m \<Longrightarrow> CrawlerScheduleEnabled cfg \<Longrightarrow> \<not> OnlyWebServer cfg
    \<Longrightarrow> \<forall>t \<in> set ts. t < until \<Longrightarrow> efold (\<lambda>m t. ReconcileSchedule cfg t m) m ts = Inr m"
  by (induction ts) (simp_all add: overridden_reconcile)

lemma override_set:
  assumes "CrawlerScheduleEnabled cfg" and "snd (scheduleState now (CrawlerScheduleStart cfg) (CrawlerScheduleEnd cfg)) \<noteq> 0"
  shows "setManualOverrideAtLocked cfg now run m = m\<lparr>manualOverride := True, manualRun := run,
    manualUntil := snd (scheduleState now (CrawlerScheduleStart cfg) (CrawlerScheduleEnd cfg))\<rparr>"
  using assms by (simp add: setManualOverrideAtLocked_def Let_def)

lemma reconcile_follows_schedule:
  assumes "cm_inv m" and "CrawlerScheduleEnabled cfg" "\<not> OnlyWebServer cfg" and "\<not> (manualOverride m \<and> t < manualUntil m)"
  shows "\<exists>m'. ReconcileSchedule cfg t m = Inr m' \<and> \<not> manualOverride m' \<and> cm_inv m'
    \<and> running m' = fst (scheduleState t (CrawlerScheduleStart cfg) (CrawlerScheduleEnd cfg))"
proof -
  let ?m1 = "m\<lparr>manualOverride := False, manualUntil := 0\<rparr>"
  obtain r m' where "stopLocked ?m1 = Inr (r, m')" "cm_inv m'" "\<not> running m'"
    using stopLocked_total [of ?m1] assms(1) by auto
  then show ?thesis
    using assms startLocked_runs [of cfg t ?m1] startLocked_inv [of ?m1 cfg t] stopLocked_frame [of ?m1 r m']
    by (auto simp: ReconcileSchedule_def Let_def)
qed

text \<open>A start or stop by hand holds until the window next changes, and no longer: with a
  valid schedule, every check of the schedule before that instant leaves the manager exactly
  as the start or stop left it, and the first check from that instant on lets the schedule
  decide again and ends the override.\<close>
theorem manual_override_holds:
  assumes "cm_inv m" and "CrawlerScheduleEnabled cfg" "\<not> OnlyWebServer cfg" and "0 \<le> t0"
    and "parseClockMinutes (CrawlerScheduleStart cfg) = Some a" "parseClockMinutes (CrawlerScheduleEnd cfg) = Some b"
      "a \<noteq> b"
    and "scheduleState t0 (CrawlerScheduleStart cfg) (CrawlerScheduleEnd cfg) = (inside, next)"
    and "if run then m1 = snd (Start cfg t0 m) else \<exists>r. Stop cfg t0 m = Inr (r, m1)"
    and "\<forall>t \<in> set ts. t < next" and "next \<le> t'"
  shows "running m1 = run \<and> efold (\<lambda>m t. ReconcileSchedule cfg t m) m1 ts = Inr m1
    \<and> (\<exists>m2. ReconcileSchedule cfg t' m1 = Inr m2 \<and> \<not> manualOverride m2
         \<and> running m2 = fst (scheduleState t' (CrawlerScheduleStart cfg) (CrawlerScheduleEnd cfg)))"
proof -
  have "next \<noteq> 0" using scheduleState_change [OF assms(5-8)] assms(4) by simp
  then have set: "setManualOverrideAtLocked cfg t0 run m = m\<lparr>manualOverride := True, manualRun := run, manualUntil := next\<rparr>"
    using override_set [OF assms(2), of t0] assms(8) by simp
  have o: "overridden run next m1 \<and> cm_inv m1"
  proof (cases run)
    case True
    then show ?thesis
      using assms(1,3,9) set startLocked_runs [OF assms(3)] startLocked_inv [of "m\<lparr>manualOverride := True, manualRun := True, manualUntil := next\<rparr>"]
      by (simp add: overridden_def Start_def)
  next
    case False
    then obtain r where "stopLocked (m\<lparr>manualOverride := True, manualRun := False, manualUntil := next\<rparr>) = Inr (r, m1)"
      using assms(9) set by (auto simp: Stop_def)
    then show ?thesis
      using False assms(1) stopLocked_total [of "m\<lparr>manualOverride := True, manualRun := False, manualUntil := next\<rparr>"]
        stopLocked_frame by (fastforce simp: overridden_def)
  qed
  then show ?thesis
    using overridden_reconciles [OF _ assms(2,3,10)] reconcile_follows_schedule [of m1 cfg t', OF _ assms(2,3)] assms(11)
    by (auto simp: overridden_def)
qed

text \<open>The auto-stop does not stop a crawl the schedule started: after the timer of such a
  crawl has fired inside the window, the next check of the schedule, still before the window
  ends, starts a new one.\<close>
theorem auto_stop_restarts:
  assumes "cm_inv m" and "running m" and "\<not> manualOverride m" and "stop m = Some ch"
    and "(ch, at) \<in> set (timers m)" and "at \<le> t"
    and "CrawlerScheduleEnabled cfg" "\<not> OnlyWebServer cfg"
    and "parseClockMinutes (CrawlerScheduleStart cfg) = Some a" "parseClockMinutes (CrawlerScheduleEnd cfg) = Some b"
      "a \<noteq> b"
    and "scheduleState t (CrawlerScheduleStart cfg) (CrawlerScheduleEnd cfg) = (True, next)"
    and "t \<le> t'" "t' < next"
  shows "\<exists>m1 m2. stopAfter_fires t ch m = Inr m1 \<and> \<not> running m1
    \<and> ReconcileSchedule cfg t' m1 = Inr m2 \<and> running m2 \<and> stop m2 = Some (made m)"
proof -
  let ?m = "m\<lparr>timers := filter (\<lambda>(c, at). c \<noteq> ch) (timers m), manualRun := False\<rparr>"
  define m1 where "m1 = ?m\<lparr>closed := closed m @ [ch], running := False, stop := None, autoStopAt := 0\<rparr>"
  have "ch \<notin> set (closed m)" using assms(1,4) by (simp add: cm_inv_def)
  then have fire: "stopAfter_fires t ch m = Inr m1"
    using assms(2-6) by (auto simp: stopAfter_fires_def stopLocked_def m1_def Let_def)
  have ins: "fst (scheduleState t' (CrawlerScheduleStart cfg) (CrawlerScheduleEnd cfg))"
    using scheduleState_change [OF assms(9-12)] assms(13,14) by simp
  have "ReconcileSchedule cfg t' m1 = Inr (snd (startLocked cfg t' (m1\<lparr>manualOverride := False, manualUntil := 0\<rparr>)))"
    using ins assms(3,7,8) by (simp add: ReconcileSchedule_def m1_def Let_def)
  then show ?thesis
    using fire assms(8) by (auto simp: m1_def startLocked_def Let_def)
qed

text \<open>
  A manager at midnight with a window from 22:00 to 7:00 and an auto-stop after 30 minutes.
\<close>

definition night :: CrawlerConfig where
  "night = \<lparr>OnlyWebServer = False, CrawlerThreads = 2, CrawlerAutoStopMinutes = 30, CrawlerScheduleEnabled = True,
    CrawlerScheduleStart = ''22:00'', CrawlerScheduleEnd = ''07:00''\<rparr>"

lemma night_clock: "parseClockMinutes (CrawlerScheduleStart night) = Some 1320"
    "parseClockMinutes (CrawlerScheduleEnd night) = Some 420"
  by (code_simp, code_simp)

lemma night_state: "scheduleState (n * Hour) (CrawlerScheduleStart night) (CrawlerScheduleEnd night) = (True, 7 * Hour)"
  if "n = 1 \<or> n = 2" for n
  using that by (auto simp: scheduleState_def night_clock in_window_def minute_of_day_def Day_def duration_defs)

definition at_one :: CrawlerManager where
  "at_one = snd (startLocked night Hour NewCrawlerManager)"

lemma at_one_eq: "at_one = \<lparr>stop = Some 0, startedAt = Hour, autoStopAt = Hour + 30 * Minute, threads = 2, running = True,
    manualOverride = False, manualRun = False, manualUntil = 0, made = 1, closed = [], crawls = [(0, 2)],
    timers = [(0, Hour + 30 * Minute)]\<rparr>"
  by (simp add: at_one_def startLocked_def NewCrawlerManager_def night_def int64_def duration_defs)

lemma at_one_inv: "cm_inv at_one"
  unfolding at_one_def by (rule startLocked_inv [OF NewCrawlerManager_inv])

theorem manual_override_holds_witness:
  "\<exists>m1. Stop night (1 * Hour) at_one = Inr (True, m1) \<and> \<not> running m1
    \<and> efold (\<lambda>m t. ReconcileSchedule night t m) m1 [2 * Hour, 3 * Hour] = Inr m1"
proof -
  obtain m1 where m1: "Stop night (1 * Hour) at_one = Inr (True, m1)"
    by (simp add: Stop_def stopLocked_def at_one_eq)
  have "running m1 = False \<and> efold (\<lambda>m t. ReconcileSchedule night t m) m1 [2 * Hour, 3 * Hour] = Inr m1
    \<and> (\<exists>m2. ReconcileSchedule night (7 * Hour) m1 = Inr m2 \<and> \<not> manualOverride m2
         \<and> running m2 = fst (scheduleState (7 * Hour) (CrawlerScheduleStart night) (CrawlerScheduleEnd night)))"
  proof (rule manual_override_holds [OF at_one_inv _ _ _ night_clock _ night_state [of 1]])
    show "if False then m1 = snd (Start night (1 * Hour) at_one) else \<exists>r. Stop night (1 * Hour) at_one = Inr (r, m1)"
      using m1 by auto
  qed (simp_all add: duration_defs night_def)
  with m1 show ?thesis by auto
qed

theorem auto_stop_restarts_witness:
  "\<exists>m1 m2. stopAfter_fires (2 * Hour) 0 at_one = Inr m1 \<and> \<not> running m1
    \<and> ReconcileSchedule night (2 * Hour) m1 = Inr m2 \<and> running m2 \<and> stop m2 = Some (made at_one)"
  by (rule auto_stop_restarts [OF at_one_inv _ _ _ _ _ _ _ night_clock _ night_state [of 2],
        where at = "Hour + 30 * Minute"])
    (simp_all add: at_one_eq duration_defs night_def)

end
