(* ===== verification/Transport.thy ===== *)
theory Transport
  imports Codec
begin

text \<open>
  The UDP transport, \<open>dhtc-client/transport.go\<close>: three bounded queues with a sending goroutine
  each, one for \<open>get_peers\<close> queries, one for the other queries, one for replies, and the
  reading goroutine with its back-off. The rate limiter is not part of the repository; what
  the code relies on is that \<open>Wait\<close> for one token with a burst of at least one returns without
  an error if and only if the context is not cancelled. The owner of the context cancels it
  (the DHT manager does, shortly before it terminates its services), and so does \<open>Terminate\<close>:
  \<open>tr_cancelled\<close>. Where a Go \<open>select\<close> has two ready cases the choice is an argument. A packet
  goes out in the step that finds the transport running; \<open>Terminate\<close> is one step, at whose end
  no goroutine runs.
\<close>

section \<open>State\<close>

record sendRequest =
  req_msg :: Message
  req_addr :: AddrPort

datatype lane = GetPeersLane | ControlLane | ResponseLane

text \<open>
  A queue with its goroutine: the requests waiting, the one it has taken and waits for a token
  with, and two logs, the requests accepted into the queue and those written to the socket.
\<close>

record Lane =
  ln_queue :: "sendRequest list"
  ln_busy :: "sendRequest option"
  ln_accepted :: "sendRequest list"
  ln_written :: "sendRequest list"

record Transport =
  tr_network :: string
  tr_laddr :: string
  started :: bool
  tr_done :: bool
  tr_cancelled :: bool
  lanes :: "lane \<Rightarrow> Lane"
  capacity :: "lane \<Rightarrow> int"
  tr_rate :: "lane \<Rightarrow> int option"
  retryDelay :: duration

definition new_lane :: Lane where
  "new_lane = \<lparr>ln_queue = [], ln_busy = None, ln_accepted = [], ln_written = []\<rparr>"

definition Millisecond :: duration where
  "Millisecond = 1000000"

definition limiter_rates :: "int \<Rightarrow> lane \<Rightarrow> int option" where
  "limiter_rates rateLimit l =
    (if rateLimit > 0 then
       let controlRate = (if go_div rateLimit 5 < 1 then 1 else go_div rateLimit 5);
           getPeersRate = (if rateLimit - controlRate < 1 then 1 else rateLimit - controlRate)
       in Some (case l of GetPeersLane \<Rightarrow> getPeersRate | ControlLane \<Rightarrow> controlRate | ResponseLane \<Rightarrow> rateLimit)
     else None)"

definition queue_size :: "int \<Rightarrow> int" where
  "queue_size rateLimit =
    (let n = (if rateLimit > 0 then int64 (rateLimit * 3) else 768) in if n < 1 then 1 else n)"

definition lane_capacity :: "int \<Rightarrow> lane \<Rightarrow> int" where
  "lane_capacity rateLimit l = (case l of GetPeersLane \<Rightarrow> queue_size rateLimit | _ \<Rightarrow> 256)"

definition NewTransport :: "string \<Rightarrow> string \<Rightarrow> int \<Rightarrow> Transport" where
  "NewTransport network laddr rateLimit =
    \<lparr>tr_network = network, tr_laddr = laddr, started = False, tr_done = False, tr_cancelled = False, lanes = (\<lambda>_. new_lane),
     capacity = lane_capacity rateLimit,
     tr_rate = limiter_rates rateLimit, retryDelay = 0\<rparr>"

section \<open>Operations\<close>

text \<open>\<open>Start\<close> panics on a started transport; binding the socket may end the process.\<close>

datatype start_failure = AlreadyStarted | BindFailed

definition Transport_Start :: "bool \<Rightarrow> Transport \<Rightarrow> start_failure + Transport" where
  "Transport_Start bind_ok t =
    (if started t then Inl AlreadyStarted
     else if \<not> bind_ok then Inl BindFailed
     else Inr (t\<lparr>started := True\<rparr>))"

definition Transport_Terminate :: "Transport \<Rightarrow> Transport" where
  "Transport_Terminate t = (if tr_done t then t else t\<lparr>tr_done := True, tr_cancelled := True\<rparr>)"

definition cancel :: "Transport \<Rightarrow> Transport" where
  "cancel t = t\<lparr>tr_cancelled := True\<rparr>"

definition lane_of :: "Message \<Rightarrow> lane" where
  "lane_of msg =
    (if m_Y msg \<noteq> ''q'' then ResponseLane
     else if m_Q msg = ''get_peers'' then GetPeersLane
     else ControlLane)"

definition set_lane :: "lane \<Rightarrow> Lane \<Rightarrow> Transport \<Rightarrow> Transport" where
  "set_lane l q t = t\<lparr>lanes := (lanes t)(l := q)\<rparr>"

definition has_room :: "lane \<Rightarrow> Transport \<Rightarrow> bool" where
  "has_room l t = (int (length (ln_queue (lanes t l))) < capacity t l)"

text \<open>\<open>pick_done\<close>: which of the two cases is taken when both are ready.\<close>

definition WriteMessages :: "bool \<Rightarrow> Message \<Rightarrow> AddrPort \<Rightarrow> Transport \<Rightarrow> bool \<times> Transport" where
  "WriteMessages pick_done msg addr t =
    (let l = lane_of msg; q = lanes t l; r = \<lparr>req_msg = msg, req_addr = addr\<rparr>
     in if tr_done t \<and> (pick_done \<or> \<not> has_room l t) then (False, t)
        else if has_room l t
        then (True, set_lane l (q\<lparr>ln_queue := ln_queue q @ [r], ln_accepted := ln_accepted q @ [r]\<rparr>) t)
        else (False, t))"

text \<open>\<open>sendLoop\<close>, \<open>controlLoop\<close> and \<open>responseLoop\<close>: the goroutine of a queue takes a request.\<close>

definition loop_take :: "lane \<Rightarrow> Transport \<Rightarrow> Transport" where
  "loop_take l t =
    (let q = lanes t l
     in case (ln_busy q, ln_queue q) of
          (None, r # rs) \<Rightarrow> set_lane l (q\<lparr>ln_queue := rs, ln_busy := Some r\<rparr>) t
        | _ \<Rightarrow> t)"

text \<open>
  \<open>sendWithLimiter\<close> and \<open>writeImmediately\<close>: a lane with a limiter drops the request when the
  wait for a token fails; an error of \<open>WriteTo\<close> is only logged, an error of \<open>bencode.Marshal\<close>
  (\<open>mar\<close> gives \<open>None\<close>) panics.
\<close>

definition sendWithLimiter :: "(Message \<Rightarrow> bytes option) \<Rightarrow> lane \<Rightarrow> Transport \<Rightarrow> unit + Transport" where
  "sendWithLimiter mar l t =
    (let q = lanes t l
     in case ln_busy q of
          None \<Rightarrow> Inr t
        | Some r \<Rightarrow>
            if tr_rate t l \<noteq> None \<and> tr_cancelled t then Inr (set_lane l (q\<lparr>ln_busy := None\<rparr>) t)
            else if tr_done t then Inr (set_lane l (q\<lparr>ln_busy := None\<rparr>) t)
            else case mar (req_msg r) of
              None \<Rightarrow> Inl ()
            | Some data \<Rightarrow> Inr (set_lane l (q\<lparr>ln_busy := None, ln_written := ln_written q @ [r]\<rparr>) t))"

text \<open>
  A round of \<open>readMessages\<close>: an error of \<open>ReadFrom\<close> lengthens the wait, anything else resets it;
  the result is the message handed on. \<open>unm\<close> is \<open>bencode.Unmarshal\<close>, the sender's address is
  \<open>None\<close> when it does not parse.
\<close>

definition next_delay :: "duration \<Rightarrow> duration" where
  "next_delay d = (if d = 0 then 10 * Millisecond else if 2 * d > Second then Second else 2 * d)"

definition read_round ::
  "(bytes \<Rightarrow> Message option) \<Rightarrow> (bytes \<times> AddrPort option) option \<Rightarrow> Transport \<Rightarrow> (Message \<times> AddrPort) option \<times> Transport" where
  "read_round unm packet t =
    (case packet of
       None \<Rightarrow> (None, if tr_done t then t else t\<lparr>retryDelay := next_delay (retryDelay t)\<rparr>)
     | Some (data, from) \<Rightarrow>
         let t1 = t\<lparr>retryDelay := 0\<rparr>; buf = take 65507 data
         in if buf = [] then (None, t1)
            else case unm buf of
              None \<Rightarrow> (None, t1)
            | Some msg \<Rightarrow> (map_option (\<lambda>a. (msg, a)) from, t1))"

section \<open>Runs\<close>

datatype tr_event =
    TrWrite bool Message AddrPort
  | TrTake lane
  | TrSend lane
  | TrRead "(bytes \<times> AddrPort option) option"
  | TrCancel
  | TrTerminate

fun tr_step :: "(Message \<Rightarrow> bytes option) \<Rightarrow> (bytes \<Rightarrow> Message option) \<Rightarrow> Transport \<Rightarrow> tr_event \<Rightarrow> unit + Transport" where
  "tr_step mar unm t (TrWrite pick msg addr) = Inr (snd (WriteMessages pick msg addr t))"
| "tr_step mar unm t (TrTake l) = Inr (loop_take l t)"
| "tr_step mar unm t (TrSend l) = sendWithLimiter mar l t"
| "tr_step mar unm t (TrRead packet) = Inr (snd (read_round unm packet t))"
| "tr_step mar unm t TrCancel = Inr (cancel t)"
| "tr_step mar unm t TrTerminate = Inr (Transport_Terminate t)"

text \<open>
  Until the context is cancelled, what a queue accepted is what was written, then the request in
  hand, then those waiting, in this order, and all of it is of the queue's kind; no queue
  outgrows its capacity, and the wait of the reader is 0 or between 10 ms and a second.
\<close>

definition lane_inv :: "bool \<Rightarrow> int \<Rightarrow> lane \<Rightarrow> Lane \<Rightarrow> bool" where
  "lane_inv over cap l q \<longleftrightarrow>
    int (length (ln_queue q)) \<le> cap
    \<and> (\<not> over \<longrightarrow> ln_accepted q = ln_written q @ (case ln_busy q of None \<Rightarrow> [] | Some r \<Rightarrow> [r]) @ ln_queue q)
    \<and> (\<forall>r \<in> set (ln_accepted q). lane_of (req_msg r) = l)"

definition delay_ok :: "duration \<Rightarrow> bool" where
  "delay_ok d \<longleftrightarrow> d = 0 \<or> 10 * Millisecond \<le> d \<and> d \<le> Second"

definition tr_inv :: "int \<Rightarrow> Transport \<Rightarrow> bool" where
  "tr_inv rateLimit t \<longleftrightarrow>
    capacity t = lane_capacity rateLimit
    \<and> (\<forall>l. lane_inv (tr_cancelled t) (capacity t l) l (lanes t l)) \<and> (tr_done t \<longrightarrow> tr_cancelled t)
    \<and> delay_ok (retryDelay t)"

lemma queue_size_pos: "1 \<le> queue_size rateLimit"
  by (simp add: queue_size_def Let_def)

lemma NewTransport_inv: "tr_inv rateLimit (NewTransport network laddr rateLimit)"
  using queue_size_pos [of rateLimit]
  by (auto simp: tr_inv_def NewTransport_def lane_inv_def new_lane_def delay_ok_def lane_capacity_def split: lane.split)

lemma set_lane_inv:
  "tr_inv rl t \<Longrightarrow> lane_inv (tr_cancelled t) (capacity t l) l q \<Longrightarrow> tr_inv rl (set_lane l q t)"
  by (auto simp: tr_inv_def set_lane_def)

lemma tr_inv_lane: "tr_inv rl t \<Longrightarrow> lane_inv (tr_cancelled t) (capacity t l) l (lanes t l)"
  by (auto simp: tr_inv_def)

lemma WriteMessages_inv [inv_keep]: "tr_inv rl t \<Longrightarrow> tr_inv rl (snd (WriteMessages pick msg addr t))"
  using tr_inv_lane [of rl t "lane_of msg"]
  by (auto simp: WriteMessages_def Let_def has_room_def lane_inv_def intro!: set_lane_inv)

lemma loop_take_inv [inv_keep]: "tr_inv rl t \<Longrightarrow> tr_inv rl (loop_take l t)"
  using tr_inv_lane [of rl t l]
  by (auto simp: loop_take_def Let_def lane_inv_def intro!: set_lane_inv split: option.split list.split)

lemma sendWithLimiter_inv:
  assumes "tr_inv rl t" and "\<And>m. mar m \<noteq> None"
  shows "\<exists>t'. sendWithLimiter mar l t = Inr t' \<and> tr_inv rl t'"
proof (cases "ln_busy (lanes t l)")
  case None
  then show ?thesis using assms(1) by (simp add: sendWithLimiter_def)
next
  case (Some r)
  obtain data where "mar (req_msg r) = Some data" using assms(2) by fastforce
  with Some show ?thesis
    using assms(1) tr_inv_lane [OF assms(1), of l]
    by (auto simp: sendWithLimiter_def Let_def lane_inv_def tr_inv_def [of rl t] intro!: set_lane_inv)
qed

lemma read_round_inv [inv_keep]: "tr_inv rl t \<Longrightarrow> tr_inv rl (snd (read_round unm packet t))"
  by (auto simp: read_round_def tr_inv_def next_delay_def delay_ok_def Millisecond_def Second_def Let_def
      split: option.split)

lemma Terminate_inv [inv_keep]: "tr_inv rl t \<Longrightarrow> tr_inv rl (Transport_Terminate t)"
  by (auto simp: Transport_Terminate_def tr_inv_def lane_inv_def)

lemma cancel_inv [inv_keep]: "tr_inv rl t \<Longrightarrow> tr_inv rl (cancel t)"
  by (auto simp: cancel_def tr_inv_def lane_inv_def)

lemma tr_step_total:
  assumes "tr_inv rl t" and "\<And>m. mar m \<noteq> None"
  shows "\<exists>t'. tr_step mar unm t e = Inr t' \<and> tr_inv rl t'"
  using assms sendWithLimiter_inv [OF assms] by (cases e) (auto simp: inv_keep)

interpretation udp: total_step_system "tr_step mar unm" "tr_inv rl" "\<lambda>_. \<forall>m. mar m \<noteq> None" for mar unm rl
  by unfold_locales (use tr_step_total in blast)

section \<open>Properties\<close>


definition flat_mar :: "Message \<Rightarrow> bytes option" where
  "flat_mar m = Some (m_T m)"


text \<open>What a terminated transport has written stays as it is.\<close>

definition silent :: "(lane \<Rightarrow> sendRequest list) \<Rightarrow> Transport \<Rightarrow> bool" where
  "silent w t \<longleftrightarrow> tr_done t \<and> (\<forall>l. ln_written (lanes t l) = w l)"

interpretation terminated: total_step_system "tr_step mar unm" "silent w" "\<lambda>_. True" for mar unm w
proof
  fix t e assume "silent w t"
  then show "\<exists>t'. tr_step mar unm t e = Inr t' \<and> silent w t'"
    by (cases e) (auto simp: silent_def WriteMessages_def loop_take_def sendWithLimiter_def read_round_def
        Transport_Terminate_def cancel_def set_lane_def Let_def split: option.split list.split)
qed

text \<open>Nothing is sent after \<open>Terminate\<close>: from then on no sequence of writes, sends, reads and
  further calls of \<open>Terminate\<close> puts a packet on the socket or panics.\<close>
theorem terminated_transport_silent:
  "\<exists>t'. efold (tr_step mar unm) (Transport_Terminate t) es = Inr t'
    \<and> (\<forall>l. ln_written (lanes t' l) = ln_written (lanes t l))"
proof -
  have "silent (\<lambda>l. ln_written (lanes t l)) (Transport_Terminate t)"
    by (simp add: silent_def Transport_Terminate_def)
  then obtain t' where "efold (tr_step mar unm) (Transport_Terminate t) es = Inr t'"
    "silent (\<lambda>l. ln_written (lanes t l)) t'" using terminated.erun_total by blast
  then show ?thesis by (auto simp: silent_def)
qed

end
