(* ===== verification/Maintenance.thy ===== *)
theory Maintenance
  imports Indexing_Service Hex
begin

text \<open>
  The rest of \<open>dhtc-client/indexingService.go\<close>: the goroutine \<open>index\<close> with its maintenance
  rounds, the resolution of the bootstrap nodes, the routing-table file, and the start and end
  of the service. The name lookup is a parameter, as are the two functions between an
  address-port pair and its text; the content of the file is the list of its entries, \<open>None\<close>
  when it is missing or is not the JSON text of such a list.
\<close>

section \<open>Bootstrap nodes\<close>

text \<open>\<open>net.SplitHostPort\<close>.\<close>

fun last_colon :: "string \<Rightarrow> nat option" where
  "last_colon [] = None"
| "last_colon (ch # s) =
     (case last_colon s of
        Some i \<Rightarrow> Some (Suc i)
      | None \<Rightarrow> if ch = CHR '':'' then Some 0 else None)"

fun index_of :: "char \<Rightarrow> string \<Rightarrow> nat option" where
  "index_of x [] = None"
| "index_of x (ch # s) = (if ch = x then Some 0 else map_option Suc (index_of x s))"

definition SplitHostPort :: "string \<Rightarrow> (string \<times> string) option" where
  "SplitHostPort hp =
    (case last_colon hp of
       None \<Rightarrow> None
     | Some i \<Rightarrow>
         if take 1 hp = ''['' then
           (case index_of (CHR '']'') hp of
              None \<Rightarrow> None
            | Some e \<Rightarrow>
                if Suc e \<noteq> i then None
                else if CHR ''['' \<in> set (drop 1 hp) \<or> CHR '']'' \<in> set (drop (Suc e) hp) then None
                else Some (take (e - 1) (drop 1 hp), drop (Suc i) hp))
         else if CHR '':'' \<in> set (take i hp) \<or> CHR ''['' \<in> set hp \<or> CHR '']'' \<in> set hp then None
         else Some (take i hp, drop (Suc i) hp))"

definition family_mismatch :: "string \<Rightarrow> Addr \<Rightarrow> bool" where
  "family_mismatch net addr = (net = ''udp4'' \<and> \<not> Is4 addr \<or> net = ''udp6'' \<and> Is4 addr)"

definition resolveBootstrapAddresses :: "(string \<Rightarrow> bytes list option) \<Rightarrow> string \<Rightarrow> string \<Rightarrow> AddrPort list option" where
  "resolveBootstrapAddresses lookup net node =
    (case SplitHostPort node of
       None \<Rightarrow> None
     | Some (host, portText) \<Rightarrow>
         (case Atoi portText of
            None \<Rightarrow> None
          | Some port \<Rightarrow>
              (case lookup host of
                 None \<Rightarrow> None
               | Some ips \<Rightarrow>
                   Some (List.map_filter (\<lambda>ip.
                     case AddrFromSlice ip of
                       None \<Rightarrow> None
                     | Some a \<Rightarrow>
                         if family_mismatch net (Unmap a) then None else Some (AddrPort (Unmap a) (of_int port))) ips))))"

definition bootstrap :: "Env \<Rightarrow> (string \<Rightarrow> bytes list option) \<Rightarrow> string list \<Rightarrow> IndexingService \<Rightarrow> IndexingService" where
  "bootstrap env lookup nodes s =
    foldl (\<lambda>s node.
      if is_done s then s
      else
        let (target, s1) = rand_target env s
        in case resolveBootstrapAddresses lookup (network s1) node of
             None \<Rightarrow> s1
           | Some addrs \<Rightarrow>
               foldl (\<lambda>s addr. snd (send env (NewFindNodeQuery (nodeID s) target (want s)) addr s)) s1 addrs)
      s nodes"

section \<open>The routing-table file\<close>

record routingCacheEntry =
  ce_ID :: string
  ce_Address :: string
  ce_LastSeen :: int

record Text =
  show_addr :: "AddrPort \<Rightarrow> string"
  ParseAddrPort :: "string \<Rightarrow> AddrPort option"

definition load_entry :: "Text \<Rightarrow> Env \<Rightarrow> IndexingService \<Rightarrow> routingCacheEntry \<Rightarrow> IndexingService" where
  "load_entry T env s entry =
    (case hex_DecodeString (ce_ID entry) of
       None \<Rightarrow> s
     | Some nid \<Rightarrow>
         if length nid \<noteq> 20 then s
         else case ParseAddrPort T (ce_Address entry) of
           None \<Rightarrow> s
         | Some addr \<Rightarrow>
             let (seen, s1) = (if ce_LastSeen entry \<le> 0 then time_now env s else (time_Unix (ce_LastSeen entry), s))
             in if acceptsAddress (network s1) addr
                then s1\<lparr>routingTable := snd (RoutingTable_Add (routingTable s1) nid addr seen)\<rparr>
                else s1)"

definition loadRoutingTable :: "Text \<Rightarrow> Env \<Rightarrow> routingCacheEntry list option \<Rightarrow> IndexingService \<Rightarrow> IndexingService" where
  "loadRoutingTable T env file s = (case file of None \<Rightarrow> s | Some entries \<Rightarrow> foldl (load_entry T env) s entries)"

definition cache_entry :: "Text \<Rightarrow> routingNode \<Rightarrow> routingCacheEntry" where
  "cache_entry T node =
    \<lparr>ce_ID = hex_EncodeToString (rn_ID node), ce_Address = show_addr T (rn_Addr node), ce_LastSeen = Unix (rn_LastSeen node)\<rparr>"

text \<open>Which of the calls on the temporary file succeed.\<close>

record SaveIO =
  create_ok :: bool
  chmod_ok :: bool
  write_ok :: bool
  sync_ok :: bool
  close_ok :: bool
  rename_ok :: bool

definition saveRoutingTable ::
  "Text \<Rightarrow> string \<Rightarrow> SaveIO \<Rightarrow> RoutingTable \<Rightarrow> routingCacheEntry list option \<Rightarrow> routingCacheEntry list option" where
  "saveRoutingTable T path io table file =
    (if path = '''' then file
     else
       let entries = map (cache_entry T) (RoutingTable_Snapshot table)
       in if \<not> create_ok io then file
          else if chmod_ok io \<and> write_ok io \<and> sync_ok io \<and> close_ok io \<and> rename_ok io then Some entries
          else file)"

section \<open>Maintenance rounds\<close>

text \<open>The service with what only its own goroutine and its start use, and the file.\<close>

record Upkeep =
  svc :: IndexingService
  cachePath :: string
  nextRoutingTableSave :: instant
  up_started :: bool
  cacheFile :: "routingCacheEntry list option"

definition prune_table :: "Env \<Rightarrow> IndexingService \<Rightarrow> IndexingService" where
  "prune_table env s =
    (let (now, s1) = time_now env s
     in s1\<lparr>routingTable := RoutingTable_Prune (routingTable s1) (now - 5 * Minute)\<rparr>)"

definition runMaintenance ::
  "Text \<Rightarrow> Env \<Rightarrow> (string \<Rightarrow> bytes list option) \<Rightarrow> SaveIO \<Rightarrow> string list \<Rightarrow> Upkeep \<Rightarrow> Upkeep" where
  "runMaintenance T env lookup io nodes u =
    (let s0 = svc u;
         len = RoutingTable_Len (routingTable s0);
         s1 = (if len < 8 \<and> nodes \<noteq> [] then bootstrap env lookup nodes s0 else s0);
         s2 = (if len > 0 then prune_table env (findNeighbors env s1) else s1);
         s3 = expireOldGetPeersRequests env (pruneProbeCache env s2)
     in if cachePath u = '''' then u\<lparr>svc := s3\<rparr>
        else
          let (now, s4) = time_now env s3
          in if now < nextRoutingTableSave u then u\<lparr>svc := s4\<rparr>
             else
               let file = saveRoutingTable T (cachePath u) io (routingTable s4) (cacheFile u);
                   (now', s5) = time_now env s4
               in u\<lparr>svc := s5, cacheFile := file, nextRoutingTableSave := now' + Minute\<rparr>)"

datatype up_panic = ServiceStarted | HandlerFault fault

text \<open>\<open>Start\<close>: the first maintenance round is that of the goroutine it starts.\<close>

definition Service_Start :: "Text \<Rightarrow> Env \<Rightarrow> Upkeep \<Rightarrow> up_panic + Upkeep" where
  "Service_Start T env u =
    (if up_started u then Inl ServiceStarted
     else
       let s1 = loadRoutingTable T env (if cachePath u = '''' then None else cacheFile u) (svc u)
       in case Protocol_Start (protocol s1) of
            None \<Rightarrow> Inl ServiceStarted
          | Some p \<Rightarrow> Inr (u\<lparr>up_started := True, svc := s1\<lparr>protocol := p\<rparr>\<rparr>))"

definition Service_Terminate :: "Text \<Rightarrow> SaveIO \<Rightarrow> Upkeep \<Rightarrow> Upkeep" where
  "Service_Terminate T io u =
    (if is_done (svc u) then u
     else
       let s1 = (svc u)\<lparr>is_done := True, protocol := Protocol_Terminate (protocol (svc u))\<rparr>
       in u\<lparr>svc := s1, cacheFile := saveRoutingTable T (cachePath u) io (routingTable s1) (cacheFile u)\<rparr>)"

section \<open>Restoring a saved table\<close>

definition restored :: "routingNode \<Rightarrow> routingNode" where
  "restored n = n\<lparr>rn_LastSeen := time_Unix (Unix (rn_LastSeen n))\<rparr>"

definition adds :: "RoutingTable \<Rightarrow> routingNode list \<Rightarrow> RoutingTable" where
  "adds t ns = foldl (\<lambda>t n. snd (RoutingTable_Add t (rn_ID n) (rn_Addr n) (rn_LastSeen n))) t ns"

lemma restored_fields [simp]: "rn_ID (restored n) = rn_ID n" "rn_Addr (restored n) = rn_Addr n"
  by (simp_all add: restored_def)

lemma bucket_wf_restored: "bucket_wf lid i b \<Longrightarrow> bucket_wf lid i (map restored b)"
  by (simp add: bucket_wf_def comp_def)

text \<open>A node that is new to a bucket with room goes to its front.\<close>

lemma Add_front:
  assumes "length (rn_ID n) = 20" "xorBucketIndex (localID t) (rn_ID n) = int i"
    "AddrPort_IsValid (rn_Addr n)" "AP_Port (rn_Addr n) \<noteq> 0"
    and "rn_ID n \<notin> rn_ID ` set (buckets t ! i)" "length (buckets t ! i) < kBucketSize" "rt_size t < maxNodes t"
  shows "snd (RoutingTable_Add t (rn_ID n) (rn_Addr n) (rn_LastSeen n)) =
    t\<lparr>rt_size := rt_size t + 1, buckets := (buckets t)[i := n # buckets t ! i]\<rparr>"
proof -
  have "bucket_find (rn_ID n) (buckets t ! i) = None" using assms(5) by (simp add: bucket_find_None)
  then show ?thesis using assms by (cases n) (simp add: RoutingTable_Add_def Let_def not_le)
qed

lemma adds_bucket:
  assumes "bucket_wf (localID t) i (ns @ buckets t ! i)" "i < length (buckets t)"
    and "rt_size t + int (length ns) \<le> maxNodes t"
  shows "adds t ns = t\<lparr>rt_size := rt_size t + int (length ns), buckets := (buckets t)[i := rev ns @ buckets t ! i]\<rparr>"
  using assms
proof (induction ns arbitrary: t)
  case Nil
  then show ?case by (simp add: adds_def)
next
  case (Cons n ns)
  let ?t = "t\<lparr>rt_size := rt_size t + 1, buckets := (buckets t)[i := n # buckets t ! i]\<rparr>"
  have add: "snd (RoutingTable_Add t (rn_ID n) (rn_Addr n) (rn_LastSeen n)) = ?t"
    using Cons.prems by (intro Add_front) (auto simp: bucket_wf_def)
  have "bucket_wf (localID ?t) i (ns @ buckets ?t ! i)"
    using Cons.prems(1,2) by (auto simp: bucket_wf_def)
  then have "adds ?t ns = ?t\<lparr>rt_size := rt_size ?t + int (length ns), buckets := (buckets ?t)[i := rev ns @ buckets ?t ! i]\<rparr>"
    using Cons.prems by (intro Cons.IH) auto
  then show ?case using add Cons.prems(2) by (simp add: adds_def)
qed

lemma adds_append: "adds t (xs @ ys) = adds (adds t xs) ys"
  by (simp add: adds_def)

lemma adds_buckets:
  assumes "\<And>i. i < 160 \<Longrightarrow> bucket_wf (localID t) i (bs ! i)" "length bs = 160"
    and "buckets t = replicate 160 []" "rt_size t = 0" "int (length (concat bs)) \<le> maxNodes t"
  shows "k \<le> 160 \<Longrightarrow> adds t (concat (take k bs)) =
    t\<lparr>rt_size := int (length (concat (take k bs))), buckets := map rev (take k bs) @ replicate (160 - k) []\<rparr>"
proof (induction k)
  case 0
  then show ?case using assms(3,4) by (simp add: adds_def)
next
  case (Suc k)
  let ?t = "t\<lparr>rt_size := int (length (concat (take k bs))), buckets := map rev (take k bs) @ replicate (160 - k) []\<rparr>"
  have k: "k < 160" and IH: "adds t (concat (take k bs)) = ?t" using Suc by simp_all
  have split: "take (Suc k) bs = take k bs @ [bs ! k]" using k assms(2) by (simp add: take_Suc_conv_app_nth)
  have here: "buckets ?t ! k = []" using k assms(2) by (simp add: nth_append)
  have "length (concat (take (Suc k) bs)) \<le> length (concat bs)"
    by (metis append_take_drop_id concat_append le_add1 length_append)
  then have room: "rt_size ?t + int (length (bs ! k)) \<le> maxNodes ?t"
    using assms(5) by (simp add: split)
  have "adds ?t (bs ! k) = ?t\<lparr>rt_size := rt_size ?t + int (length (bs ! k)), buckets := (buckets ?t)[k := rev (bs ! k) @ buckets ?t ! k]\<rparr>"
    using assms(1) [OF k] here k assms(2) room by (intro adds_bucket) auto
  moreover have "(buckets ?t)[k := rev (bs ! k)] = map rev (take (Suc k) bs) @ replicate (160 - Suc k) []"
    using k assms(2) by (simp add: list_update_append split replicate_Suc [symmetric] Suc_diff_Suc)
      (simp add: Suc_diff_Suc [symmetric])
  ultimately show ?case using IH here by (simp add: split adds_append)
qed

text \<open>An entry written by \<open>saveRoutingTable\<close> is read back as the node it was written for.\<close>

definition savable :: "Text \<Rightarrow> string \<Rightarrow> routingNode \<Rightarrow> bool" where
  "savable T net n \<longleftrightarrow> length (rn_ID n) = 20 \<and> acceptsAddress net (rn_Addr n)
     \<and> ParseAddrPort T (show_addr T (rn_Addr n)) = Some (rn_Addr n) \<and> 0 < Unix (rn_LastSeen n)"

lemma load_entry_saved:
  "savable T (network s) n \<Longrightarrow> load_entry T env s (cache_entry T n) =
    s\<lparr>routingTable := snd (RoutingTable_Add (routingTable s) (rn_ID (restored n)) (rn_Addr (restored n)) (rn_LastSeen (restored n)))\<rparr>"
  by (simp add: load_entry_def cache_entry_def hex_roundtrip savable_def) (simp add: restored_def)

lemma load_entries_saved:
  "\<forall>n \<in> set ns. savable T (network s) n \<Longrightarrow>
    foldl (load_entry T env) s (map (cache_entry T) ns) = s\<lparr>routingTable := adds (routingTable s) (map restored ns)\<rparr>"
proof (induction ns arbitrary: s)
  case Nil
  then show ?case by (simp add: adds_def)
next
  case (Cons n ns)
  have "foldl (load_entry T env) s (map (cache_entry T) (n # ns)) =
      foldl (load_entry T env) (load_entry T env s (cache_entry T n)) (map (cache_entry T) ns)" by simp
  also have "\<dots> = s\<lparr>routingTable := adds (routingTable s) (map restored (n # ns))\<rparr>"
    using Cons by (simp add: load_entry_saved adds_def)
  finally show ?case .
qed

text \<open>The routing-table file: loading what was saved, into an empty table with the same own
  identifier and limit, restores every node, with its address and its time to the second,
  and puts each bucket in reverse order. A bucket is kept most recent first and a full one
  gives up its last node, so after a restart it is the most recently seen node of a bucket
  that is given up first.\<close>
theorem saved_table_reversed:
  assumes "rt_wf t" and "routingTable s = t\<lparr>buckets := replicate 160 [], rt_size := 0\<rparr>"
    and "\<forall>n \<in> set (RoutingTable_Snapshot t). savable T (network s) n"
    and "path \<noteq> ''''" and "io = \<lparr>create_ok = True, chmod_ok = True, write_ok = True, sync_ok = True, close_ok = True, rename_ok = True\<rparr>"
  shows "routingTable (loadRoutingTable T env (saveRoutingTable T path io t file) s)
    = t\<lparr>buckets := map (\<lambda>b. rev (map restored b)) (buckets t)\<rparr>"
proof -
  let ?bs = "map (map restored) (buckets t)"
  note wf = rt_wfD [OF assms(1)]
  have len: "length (concat ?bs) = length (concat (buckets t))" by (simp add: length_concat comp_def)
  have "saveRoutingTable T path io t file = Some (map (cache_entry T) (RoutingTable_Snapshot t))"
    using assms(4,5) by (simp add: saveRoutingTable_def)
  then have "routingTable (loadRoutingTable T env (saveRoutingTable T path io t file) s)
      = adds (routingTable s) (concat (take 160 ?bs))"
    using load_entries_saved [OF assms(3)] wf(2) by (simp add: loadRoutingTable_def Snapshot_concat map_concat)
  also have "\<dots> = (routingTable s)\<lparr>rt_size := int (length (concat (take 160 ?bs))),
      buckets := map rev (take 160 ?bs) @ replicate (160 - 160) []\<rparr>"
    using wf assms(2) len by (intro adds_buckets) (auto simp: bucket_wf_restored)
  also have "\<dots> = t\<lparr>buckets := map (\<lambda>b. rev (map restored b)) (buckets t)\<rparr>"
    using wf(2,4) assms(2) len by simp
  finally show ?thesis .
qed

section \<open>The service with its upkeep\<close>

lemma rand_target_inv [simp]: "is_inv (snd (rand_target env s)) = is_inv s"
  by (simp add: rand_target_def)

lemma bootstrap_inv [inv_keep]: "is_inv s \<Longrightarrow> is_inv (bootstrap env lookup nodes s)"
  unfolding bootstrap_def
proof (rule foldl_inv)
  fix s node assume s: "is_inv s"
  obtain target s1 where t: "rand_target env s = (target, s1)" by fastforce
  then have s1: "is_inv s1" using s rand_target_inv [of env s] by simp
  have "is_inv (foldl (\<lambda>s addr. snd (send env (NewFindNodeQuery (nodeID s) target (want s)) addr s)) s1 addrs)" for addrs
    using s1 by (intro foldl_inv) simp
  then show "is_inv (if is_done s then s else let (target, s1) = rand_target env s
        in case resolveBootstrapAddresses lookup (network s1) node of None \<Rightarrow> s1
           | Some addrs \<Rightarrow> foldl (\<lambda>s addr. snd (send env (NewFindNodeQuery (nodeID s) target (want s)) addr s)) s1 addrs)"
    using s s1 t by (auto split: option.split)
qed

lemma load_entry_inv: "is_inv s \<Longrightarrow> is_inv (load_entry T env s entry)"
proof -
  assume s: "is_inv s"
  have add: "is_inv (s\<lparr>routingTable := snd (RoutingTable_Add (routingTable s) nid addr seen)\<rparr>)"
    if "is_inv s" "acceptsAddress (network s) addr" for s nid addr seen
    using that rt.all_addrs_add [of "routingTable s" "acceptsAddress (network s)" addr nid seen]
      rt.add_wf [of "routingTable s" nid addr seen] Add_local [of "routingTable s" nid addr seen]
    by (auto simp: is_inv_def)
  obtain now s' where now: "time_now env s = (now, s')" "is_inv s'" "network s' = network s"
    using s by (simp add: time_now_def)
  then show ?thesis
    using s add by (auto simp: load_entry_def Let_def split: option.split)
qed

lemma loadRoutingTable_inv [inv_keep]: "is_inv s \<Longrightarrow> is_inv (loadRoutingTable T env file s)"
  by (auto simp: loadRoutingTable_def split: option.split intro!: foldl_inv load_entry_inv)

lemma prune_table_inv [inv_keep]: "is_inv s \<Longrightarrow> is_inv (prune_table env s)"
  using is_step_inv [of s "PruneTable env"] by (simp add: prune_table_def)

lemma runMaintenance_inv [inv_keep]: "is_inv (svc u) \<Longrightarrow> is_inv (svc (runMaintenance T env lookup io nodes u))"
proof -
  assume u: "is_inv (svc u)"
  define len where "len = RoutingTable_Len (routingTable (svc u))"
  define s1 where "s1 = (if len < 8 \<and> nodes \<noteq> [] then bootstrap env lookup nodes (svc u) else svc u)"
  define s2 where "s2 = (if len > 0 then prune_table env (findNeighbors env s1) else s1)"
  define s3 where "s3 = expireOldGetPeersRequests env (pruneProbeCache env s2)"
  have "is_inv s1" using u by (simp add: s1_def inv_keep)
  then have "is_inv s2" by (simp add: s2_def inv_keep)
  then have "is_inv s3" by (simp add: s3_def inv_keep)
  then show ?thesis
    unfolding runMaintenance_def Let_def len_def [symmetric] s1_def [symmetric] s2_def [symmetric] s3_def [symmetric]
    by (auto simp: time_now_def)
qed

datatype up_event =
    UpService is_event
  | UpMaintain Text Env "string \<Rightarrow> bytes list option" SaveIO "string list"
  | UpTerminate Text SaveIO

fun up_step :: "Upkeep \<Rightarrow> up_event \<Rightarrow> up_panic + Upkeep" where
  "up_step u (UpService e) =
     (case is_step (svc u) e of Inl f \<Rightarrow> Inl (HandlerFault f) | Inr s \<Rightarrow> Inr (u\<lparr>svc := s\<rparr>))"
| "up_step u (UpMaintain T env lookup io nodes) =
     Inr (if is_done (svc u) then u else runMaintenance T env lookup io nodes u)"
| "up_step u (UpTerminate T io) = Inr (Service_Terminate T io u)"

text \<open>
  Messages, probes and token rotations of the protocol; the other steps of the service are
  the maintenance goroutine's.
\<close>

fun outside :: "up_event \<Rightarrow> bool" where
  "outside (UpService (Receive env msg addr)) = admissible_env env"
| "outside (UpService (Probe env addr)) = True"
| "outside (UpService (RotateToken fresh)) = True"
| "outside (UpService _) = False"
| "outside _ = True"

lemma Service_Terminate_inv [inv_keep]: "is_inv (svc u) \<Longrightarrow> is_inv (svc (Service_Terminate T io u))"
  using is_step_inv [of "svc u" Terminate] by (simp add: Service_Terminate_def Let_def)

interpretation upkeep: total_step_system up_step "\<lambda>u. is_inv (svc u)" outside
proof
  fix u :: Upkeep and e assume u: "is_inv (svc u)" and e: "outside e"
  show "\<exists>u'. up_step u e = Inr u' \<and> is_inv (svc u')"
  proof (cases e)
    case (UpService ev)
    then have "admissible_event ev" using e by (cases ev) auto
    then show ?thesis using is_step_inv [OF u, of ev] UpService by auto
  qed (use u inv_keep in auto)
qed

definition new_upkeep :: "string \<Rightarrow> uint64 \<Rightarrow> bytes \<Rightarrow> bytes \<Rightarrow> string \<Rightarrow> routingCacheEntry list option \<Rightarrow> Upkeep" where
  "new_upkeep net maxNeighbors secret nid path file =
    \<lparr>svc = NewIndexingService net (10 * Second) maxNeighbors secret nid True True, cachePath = path,
     nextRoutingTableSave = 0, up_started = False, cacheFile = file\<rparr>"

lemma Service_Start_ok:
  assumes "\<not> up_started u" and "is_inv (svc u)" and "Protocol_Start (protocol (svc u)) \<noteq> None"
  shows "\<exists>u'. Service_Start T env u = Inr u' \<and> is_inv (svc u')"
proof -
  let ?l = "loadRoutingTable T env (if cachePath u = '''' then None else cacheFile u) (svc u)"
  have inv: "is_inv ?l" using assms(2) by (rule loadRoutingTable_inv)
  have entry: "protocol (load_entry T env s e) = protocol s" for s e
    by (auto simp: load_entry_def time_now_def Let_def split: option.split)
  have "protocol (foldl (load_entry T env) s es) = protocol s" for s es
    by (induction es arbitrary: s) (simp_all add: entry)
  then have "protocol ?l = protocol (svc u)" by (simp add: loadRoutingTable_def split: option.split)
  then obtain p where p: "Protocol_Start (protocol ?l) = Some p" using assms(3) by auto
  have "is_inv (?l\<lparr>protocol := p\<rparr>)" using is_step_inv [OF inv, of StartProtocol] p by simp
  with p assms(1) show ?thesis
    by (cases "cachePath u = ''''") (simp_all add: Service_Start_def)
qed

lemma Service_Start_total:
  "\<exists>u. Service_Start T env (new_upkeep net maxNeighbors secret nid path file) = Inr u \<and> is_inv (svc u)"
proof (rule Service_Start_ok)
  show "is_inv (svc (new_upkeep net maxNeighbors secret nid path file))"
    by (simp add: new_upkeep_def NewIndexingService_inv)
qed (simp_all add: new_upkeep_def NewIndexingService_def NewProtocol_def Protocol_Start_def Let_def)

text \<open>C6. A service with its maintenance always runs, whatever the routing-table file holds: it
  starts, and over any sequence of messages, probes, maintenance rounds with any bootstrap
  nodes and any failures of the name lookup and the file system, token rotations and stops,
  every step returns, the routing table is well formed and within its limit, holds only
  addresses of the service's own family, and the request table stays within 8192.\<close>
theorem upkeep_always_runs:
  assumes "\<forall>e \<in> set es. outside e"
  shows "\<exists>u0 u. Service_Start T env (new_upkeep net maxNeighbors secret nid path file) = Inr u0
    \<and> efold up_step u0 es = Inr u \<and> rt_wf (routingTable (svc u))
    \<and> RoutingTable_Len (routingTable (svc u)) \<le> maxNodes (routingTable (svc u))
    \<and> (\<forall>n \<in> set (RoutingTable_Snapshot (routingTable (svc u))). acceptsAddress (network (svc u)) (rn_Addr n))
    \<and> length (getPeersRequests (svc u)) \<le> 8192"
proof -
  obtain u0 where u0: "Service_Start T env (new_upkeep net maxNeighbors secret nid path file) = Inr u0" "is_inv (svc u0)"
    using Service_Start_total by blast
  obtain u where u: "efold up_step u0 es = Inr u" "is_inv (svc u)" using upkeep.erun_total [OF u0(2) assms] by blast
  have "rq_inv (svc u)" "rt_wf (routingTable (svc u))" using u(2) by (simp_all add: is_inv_def)
  then show ?thesis
    using u0(1) u rt_wfD(5) by (auto simp: is_inv_def rt.all_addrs_def RoutingTable_Len_def rq_inv_def rq_core_def maxPendingGetPeersRequests_def)
qed

text \<open>
  A text form of two addresses, for the witnesses.
\<close>

definition sample_text :: Text where
  "sample_text = \<lparr>show_addr = (\<lambda>a. if a = AddrPort (IP4 1) 6881 then ''a'' else ''b''),
    ParseAddrPort = (\<lambda>s. if s = ''a'' then Some (AddrPort (IP4 1) 6881) else if s = ''b'' then Some (AddrPort (IP4 2) 6881) else None)\<rparr>"

definition recent_table :: RoutingTable where
  "recent_table = foldl rt_step (NewRoutingTable (replicate 20 0) 8)
     [EvAdd (replicate 19 0 @ [9]) (AddrPort (IP4 1) 6881) (unix_epoch + 1700000000 * Second),
      EvAdd (replicate 19 0 @ [12]) (AddrPort (IP4 2) 6881) (unix_epoch + 1700000009 * Second + 5)]"

lemma recent_table_wf: "rt_wf recent_table"
  unfolding recent_table_def by (rule table.run_keeps) (rule NewRoutingTable_wf)

definition all_ok :: SaveIO where
  "all_ok = \<lparr>create_ok = True, chmod_ok = True, write_ok = True, sync_ok = True, close_ok = True, rename_ok = True\<rparr>"

definition empty_service :: IndexingService where
  "empty_service = (NewIndexingService ''udp4'' Second 8 [1] (replicate 20 0) True True)
     \<lparr>routingTable := recent_table\<lparr>buckets := replicate 160 [], rt_size := 0\<rparr>\<rparr>"

lemma recent_snapshot: "RoutingTable_Snapshot recent_table =
    [\<lparr>rn_ID = replicate 19 0 @ [12], rn_Addr = AddrPort (IP4 2) 6881, rn_LastSeen = unix_epoch + 1700000009 * Second + 5\<rparr>,
     \<lparr>rn_ID = replicate 19 0 @ [9], rn_Addr = AddrPort (IP4 1) 6881, rn_LastSeen = unix_epoch + 1700000000 * Second\<rparr>]"
  by code_simp

theorem saved_table_reversed_witness:
  "map rn_Addr (RoutingTable_Snapshot (routingTable (loadRoutingTable sample_text still_env
      (saveRoutingTable sample_text ''cache'' all_ok recent_table None) empty_service)))
    = rev (map rn_Addr (RoutingTable_Snapshot recent_table))"
proof -
  have "routingTable (loadRoutingTable sample_text still_env
      (saveRoutingTable sample_text ''cache'' all_ok recent_table None) empty_service)
    = recent_table\<lparr>buckets := map (\<lambda>b. rev (map restored b)) (buckets recent_table)\<rparr>"
  proof (rule saved_table_reversed [OF recent_table_wf])
    show "\<forall>n \<in> set (RoutingTable_Snapshot recent_table). savable sample_text (network empty_service) n"
      by (simp add: recent_snapshot savable_def sample_text_def empty_service_def NewIndexingService_def
          acceptsAddress_def Unix_def unix_epoch_def Second_def Let_def)
  qed (simp_all add: empty_service_def all_ok_def)
  moreover have "concat (map (\<lambda>b. rev (map restored b)) (buckets recent_table)) = rev (map restored (RoutingTable_Snapshot recent_table))"
    by code_simp
  ultimately show ?thesis by (simp add: Snapshot_concat rev_map)
qed

theorem upkeep_always_runs_witness:
  "\<exists>u0 u. Service_Start sample_text still_env (new_upkeep ''udp4'' 100 [1] [2] ''cache'' None) = Inr u0
    \<and> efold up_step u0 [UpMaintain sample_text still_env (\<lambda>_. None) all_ok [''router:6881''], UpTerminate sample_text all_ok] = Inr u
    \<and> rt_wf (routingTable (svc u)) \<and> length (getPeersRequests (svc u)) \<le> 8192"
  using upkeep_always_runs [of "[UpMaintain sample_text still_env (\<lambda>_. None) all_ok [''router:6881''], UpTerminate sample_text all_ok]"
      sample_text still_env "''udp4''" 100 "[1]" "[2]" "''cache''" None] by auto

end
