(* ===== verification/Configuration.thy ===== *)
theory Configuration
  imports Prelude "HOL-Library.Sublist"
begin

text \<open>
  The parts of \<open>config/configuration.go\<close> that compute: the normal forms of the network mode and
  the node role, the search of the command line for the configuration file, and
  \<open>crawlerEndpoints\<close> of \<open>ui/crawler.go\<close>, which turns the mode into the sockets to open. The
  table of command-line flags and the YAML file are data for the packages that read them.
\<close>

section \<open>Normal forms\<close>

definition NormalizeNodeRole :: "string \<Rightarrow> string" where
  "NormalizeNodeRole role =
    (let r = ToLower (TrimSpace role)
     in if r = ''master'' then ''master'' else if r = ''worker'' then ''worker'' else ''standalone'')"

definition NormalizeNetworkMode :: "string \<Rightarrow> string" where
  "NormalizeNetworkMode mode =
    (let m = ToLower (TrimSpace mode)
     in if m = ''dual'' then ''dual'' else if m = ''ipv6'' then ''dual'' else ''ipv4'')"

lemma normal_forms:
  "NormalizeNodeRole ''master'' = ''master''" "NormalizeNodeRole ''worker'' = ''worker''"
  "NormalizeNodeRole ''standalone'' = ''standalone''"
  "NormalizeNetworkMode ''dual'' = ''dual''" "NormalizeNetworkMode ''ipv4'' = ''ipv4''"
  by (code_simp, code_simp, code_simp, code_simp, code_simp)

lemma NormalizeNodeRole_idem: "NormalizeNodeRole (NormalizeNodeRole r) = NormalizeNodeRole r"
proof -
  have "NormalizeNodeRole r \<in> {''master'', ''worker'', ''standalone''}"
    by (simp add: NormalizeNodeRole_def Let_def)
  then show ?thesis using normal_forms(1-3) by auto
qed

lemma NormalizeNetworkMode_idem: "NormalizeNetworkMode (NormalizeNetworkMode m) = NormalizeNetworkMode m"
proof -
  have "NormalizeNetworkMode m \<in> {''dual'', ''ipv4''}" by (simp add: NormalizeNetworkMode_def Let_def)
  then show ?thesis using normal_forms(4,5) by auto
qed

section \<open>The configuration file on the command line\<close>

text \<open>\<open>argumentValue\<close> over \<open>os.Args[1:]\<close>; \<open>strings.TrimPrefix\<close> of a present prefix drops it.\<close>

fun argumentValue :: "string \<Rightarrow> string list \<Rightarrow> string" where
  "argumentValue name [] = ''''"
| "argumentValue name (arg # args) =
     (let pre = ''-'' @ name @ ''=''
      in if prefix pre arg then drop (length pre) arg
         else if arg = ''-'' @ name \<and> args \<noteq> [] then hd args
         else argumentValue name args)"

lemma argumentValue_equals:
  "\<forall>a \<in> set before. \<not> prefix (''-'' @ name @ ''='') a \<and> a \<noteq> ''-'' @ name
    \<Longrightarrow> argumentValue name (before @ (''-'' @ name @ ''='' @ value) # after) = value"
  by (induction before) (auto simp: Let_def)

lemma argumentValue_separate:
  "\<forall>a \<in> set before. \<not> prefix (''-'' @ name @ ''='') a \<and> a \<noteq> ''-'' @ name
    \<Longrightarrow> argumentValue name (before @ (''-'' @ name) # value # after) = value"
proof (induction before)
  case Nil
  have "\<not> prefix (''-'' @ name @ ''='') (''-'' @ name)" using prefix_length_le by fastforce
  then show ?case by (simp add: Let_def)
qed (auto simp: Let_def)

text \<open>The flag package also reads \<open>--config\<close>, which \<open>argumentValue\<close> does not see.\<close>

lemma argumentValue_two_dashes: "argumentValue ''config'' [''--config=dhtc.yml''] = ''''"
  by code_simp

section \<open>Endpoints\<close>

record ListenEndpoint =
  ep_Network :: string
  ep_Address :: string
  ep_CachePath :: string
  ep_Bootstrap :: "string list"

record NetworkConfig =
  NetworkMode :: string
  ListenIPv4 :: string
  ListenIPv6 :: string
  RoutingTableCacheIPv4 :: string
  RoutingTableCacheIPv6 :: string

definition crawlerEndpoints :: "NetworkConfig \<Rightarrow> string list \<Rightarrow> ListenEndpoint list" where
  "crawlerEndpoints cfg bootstrap4 =
    (let v4 = \<lparr>ep_Network = ''udp4'', ep_Address = ListenIPv4 cfg, ep_CachePath = RoutingTableCacheIPv4 cfg, ep_Bootstrap = bootstrap4\<rparr>;
         v6 = \<lparr>ep_Network = ''udp6'', ep_Address = ListenIPv6 cfg, ep_CachePath = RoutingTableCacheIPv6 cfg, ep_Bootstrap = []\<rparr>
     in if NormalizeNetworkMode (NetworkMode cfg) = ''dual'' then [v4, v6] else [v4])"

end
