(* ===== verification/Dht_Manager.thy ===== *)
theory Dht_Manager
  imports Maintenance Configuration
begin

text \<open>
  The DHT manager, \<open>dhtc-client/managers.go\<close>: it runs one indexing service per address family,
  lets the IPv4 service hand IPv6 candidates to the IPv6 service, and collects the results of
  all services in one channel of 1024 places, dropping and counting what does not fit. Where
  a Go \<open>select\<close> has two ready cases the choice is an argument.
\<close>

section \<open>State and operations\<close>

record Manager =
  mg_output :: "IndexingResult list"
  indexingServices :: "Upkeep list"
  mg_done :: bool
  outputDropped :: uint64
  mg_offered :: "IndexingResult list"
  mg_accepted :: "IndexingResult list"
  mg_taken :: "IndexingResult list"

text \<open>
  The three last fields log the results offered, accepted and taken. \<open>rands\<close> are the random
  bytes of each service's token secret and node id.
\<close>

definition output_capacity :: nat where
  "output_capacity = 1024"

definition new_service :: "uint64 \<Rightarrow> ListenEndpoint \<Rightarrow> bytes \<times> bytes \<Rightarrow> (string \<Rightarrow> routingCacheEntry list option) \<Rightarrow> Upkeep" where
  "new_service maxNeighbors ep rands files =
    \<lparr>svc = NewIndexingService (ep_Network ep) (10 * Second) maxNeighbors (fst rands) (snd rands) True False,
     cachePath = ep_CachePath ep, nextRoutingTableSave = 0, up_started = False, cacheFile = files (ep_CachePath ep)\<rparr>"

definition wire :: "bool \<Rightarrow> Upkeep \<Rightarrow> Upkeep" where
  "wire has_ipv6 u =
    (if has_ipv6 \<and> network (svc u) = ''udp4''
     then u\<lparr>svc := (svc u)\<lparr>want := [''n4'', ''n6''], has_OnBootstrapCandidate := True\<rparr>\<rparr>
     else u)"

definition NewManager ::
  "Text \<Rightarrow> Env \<Rightarrow> ListenEndpoint list \<Rightarrow> uint64 \<Rightarrow> (bytes \<times> bytes) list \<Rightarrow> (string \<Rightarrow> routingCacheEntry list option)
    \<Rightarrow> up_panic + Manager" where
  "NewManager T env endpoints maxNeighbors rands files =
    (let services = map2 (\<lambda>ep r. new_service maxNeighbors ep r files) endpoints rands;
         has_ipv6 = list_ex (\<lambda>u. network (svc u) = ''udp6'') services
     in ebind (traverse (Service_Start T env) (map (wire has_ipv6) services)) (\<lambda>us.
          Inr \<lparr>mg_output = [], indexingServices = us, mg_done = False, outputDropped = 0,
               mg_offered = [], mg_accepted = [], mg_taken = []\<rparr>))"

definition onIndexingResult :: "bool \<Rightarrow> IndexingResult \<Rightarrow> Manager \<Rightarrow> Manager" where
  "onIndexingResult pick_done res m0 =
    (let m = m0\<lparr>mg_offered := mg_offered m0 @ [res]\<rparr>; room = length (mg_output m) < output_capacity
     in if mg_done m \<and> (pick_done \<or> \<not> room) then m
        else if room then m\<lparr>mg_output := mg_output m @ [res], mg_accepted := mg_accepted m @ [res]\<rparr>
        else m\<lparr>outputDropped := outputDropped m + 1\<rparr>)"

definition take_output :: "Manager \<Rightarrow> Manager" where
  "take_output m = (case mg_output m of [] \<Rightarrow> m | r # rs \<Rightarrow> m\<lparr>mg_output := rs, mg_taken := mg_taken m @ [r]\<rparr>)"

text \<open>The callback \<open>OnBootstrapCandidate\<close> of the IPv4 services; the last IPv6 service gets the probe.\<close>

fun last_ipv6 :: "Upkeep list \<Rightarrow> nat option" where
  "last_ipv6 [] = None"
| "last_ipv6 (u # us) =
     (case last_ipv6 us of
        Some i \<Rightarrow> Some (Suc i)
      | None \<Rightarrow> if network (svc u) = ''udp6'' then Some 0 else None)"

definition onBootstrapCandidate :: "Env \<Rightarrow> AddrPort \<Rightarrow> Manager \<Rightarrow> Manager" where
  "onBootstrapCandidate env addr m =
    (case last_ipv6 (indexingServices m) of
       None \<Rightarrow> m
     | Some i \<Rightarrow>
         let u = indexingServices m ! i
         in if RoutingTable_ContainsAddr (routingTable (svc u)) addr then m
            else m\<lparr>indexingServices := (indexingServices m)[i := u\<lparr>svc := probeBootstrapCandidate env addr (svc u)\<rparr>]\<rparr>)"

definition Manager_Terminate :: "Text \<Rightarrow> SaveIO \<Rightarrow> Manager \<Rightarrow> Manager" where
  "Manager_Terminate T io m =
    (if mg_done m then m
     else m\<lparr>mg_done := True, indexingServices := map (Service_Terminate T io) (indexingServices m)\<rparr>)"

text \<open>The four counters a manager reports are sums over its services.\<close>

definition PendingGetPeersRequests :: "Manager \<Rightarrow> int" where
  "PendingGetPeersRequests m = sum_list (map (\<lambda>u. int (length (getPeersRequests (svc u)))) (indexingServices m))"

definition RejectedGetPeersRequests :: "Manager \<Rightarrow> uint64" where
  "RejectedGetPeersRequests m = sum_list (map (\<lambda>u. requestsRejected (svc u)) (indexingServices m))"

definition DedupedGetPeersRequests :: "Manager \<Rightarrow> uint64" where
  "DedupedGetPeersRequests m = sum_list (map (\<lambda>u. requestsDeduped (svc u)) (indexingServices m))"

definition DroppedGetPeersSends :: "Manager \<Rightarrow> uint64" where
  "DroppedGetPeersSends m = sum_list (map (\<lambda>u. requestsSendDropped (svc u)) (indexingServices m))"

datatype mg_event =
    MgResult bool IndexingResult
  | MgTake
  | MgCandidate Env AddrPort
  | MgTerminate Text SaveIO

fun mg_step :: "Manager \<Rightarrow> mg_event \<Rightarrow> Manager" where
  "mg_step m (MgResult pick res) = onIndexingResult pick res m"
| "mg_step m MgTake = take_output m"
| "mg_step m (MgCandidate env addr) = onBootstrapCandidate env addr m"
| "mg_step m (MgTerminate T io) = Manager_Terminate T io m"

section \<open>Invariant\<close>

definition mg_inv :: "Manager \<Rightarrow> bool" where
  "mg_inv m \<longleftrightarrow>
    length (mg_output m) \<le> output_capacity \<and> mg_accepted m = mg_taken m @ mg_output m
    \<and> (\<not> mg_done m \<longrightarrow> of_nat (length (mg_offered m)) = of_nat (length (mg_accepted m)) + outputDropped m)
    \<and> (\<forall>u \<in> set (indexingServices m). is_inv (svc u))"

lemma wired_ok:
  "is_inv (svc (wire b (new_service maxNeighbors ep r files)))"
  "\<not> up_started (wire b (new_service maxNeighbors ep r files))"
  "Protocol_Start (protocol (svc (wire b (new_service maxNeighbors ep r files)))) \<noteq> None"
  using NewIndexingService_inv [of "ep_Network ep" "10 * Second" maxNeighbors "fst r" "snd r" False]
  by (simp_all add: wire_def new_service_def is_inv_def rq_inv_def rq_core_def)
    (auto simp: NewIndexingService_def NewProtocol_def Protocol_Start_def Let_def)

lemma traverse_total:
  assumes "\<And>x. x \<in> set xs \<Longrightarrow> \<exists>y. f x = Inr y \<and> P y"
  shows "\<exists>ys. traverse f xs = Inr ys \<and> (\<forall>y \<in> set ys. P y)"
  using assms
proof (induction xs)
  case (Cons x xs)
  then obtain y ys where "f x = Inr y" "P y" "traverse f xs = Inr ys" "\<forall>y \<in> set ys. P y" by fastforce
  then show ?case by simp
qed simp

lemma NewManager_inv: "\<exists>m. NewManager T env endpoints maxNeighbors rands files = Inr m \<and> mg_inv m"
proof -
  define services where "services = map2 (\<lambda>ep r. new_service maxNeighbors ep r files) endpoints rands"
  define b where "b = list_ex (\<lambda>u. network (svc u) = ''udp6'') services"
  have "\<exists>us. traverse (Service_Start T env) (map (wire b) services) = Inr us \<and> (\<forall>u \<in> set us. is_inv (svc u))"
  proof (rule traverse_total)
    fix u assume "u \<in> set (map (wire b) services)"
    then obtain ep r where "u = wire b (new_service maxNeighbors ep r files)" by (auto simp: services_def)
    then show "\<exists>u'. Service_Start T env u = Inr u' \<and> is_inv (svc u')" using wired_ok Service_Start_ok by blast
  qed
  then obtain us where "traverse (Service_Start T env) (map (wire b) services) = Inr us" "\<forall>u \<in> set us. is_inv (svc u)" by blast
  then show ?thesis
    unfolding NewManager_def Let_def services_def [symmetric] b_def [symmetric] by (simp add: mg_inv_def)
qed

lemma mg_step_inv: "mg_inv m \<Longrightarrow> mg_inv (mg_step m e)"
proof (cases e)
  case (MgResult pick res)
  assume "mg_inv m"
  then show ?thesis using MgResult by (auto simp: mg_inv_def onIndexingResult_def Let_def)
next
  case MgTake
  assume "mg_inv m"
  then show ?thesis using MgTake by (auto simp: mg_inv_def take_output_def split: list.split)
next
  case (MgCandidate env addr)
  assume m: "mg_inv m"
  have "last_ipv6 us = Some i \<Longrightarrow> i < length us" for us i
    by (induction us arbitrary: i) (auto split: option.splits if_splits)
  then show ?thesis
    using MgCandidate m set_update_subset_insert
    by (fastforce simp: mg_inv_def onBootstrapCandidate_def Let_def inv_keep split: option.split)
next
  case (MgTerminate T io)
  assume "mg_inv m"
  then show ?thesis using MgTerminate by (auto simp: mg_inv_def Manager_Terminate_def inv_keep)
qed

interpretation dht: step_system mg_step mg_inv
  by unfold_locales (rule mg_step_inv)

text \<open>C25. The manager accounts for every result: over any interleaving of results, receives,
  candidates and a stop, at most 1024 results wait, the results accepted are those already
  taken followed by those waiting, in order, and until it is terminated every result offered
  is accepted or counted as dropped (modulo the 64 bits of the counter). Every service keeps
  its invariant.\<close>
theorem manager_accounts:
  "\<exists>m0 m. NewManager T env endpoints maxNeighbors rands files = Inr m0 \<and> m = foldl mg_step m0 es
   \<and> length (mg_output m) \<le> 1024 \<and> mg_accepted m = mg_taken m @ mg_output m
   \<and> (\<not> mg_done m \<longrightarrow> of_nat (length (mg_offered m)) = of_nat (length (mg_accepted m)) + outputDropped m)
   \<and> (\<forall>u \<in> set (indexingServices m). is_inv (svc u))"
proof -
  obtain m0 where m0: "NewManager T env endpoints maxNeighbors rands files = Inr m0" "mg_inv m0"
    using NewManager_inv by blast
  with dht.run_keeps [OF m0(2), of es] show ?thesis by (auto simp: mg_inv_def output_capacity_def)
qed

theorem manager_accounts_witness:
  "\<exists>m0 m. NewManager sample_text still_env
      (crawlerEndpoints \<lparr>NetworkMode = ''dual'', ListenIPv4 = ''0.0.0.0:0'', ListenIPv6 = ''[::]:0'',
        RoutingTableCacheIPv4 = ''v4'', RoutingTableCacheIPv6 = ''v6''\<rparr> []) 500 [([1], [2]), ([3], [4])] (\<lambda>_. None) = Inr m0
    \<and> m = foldl mg_step m0 [MgTake, MgTerminate sample_text all_ok]
    \<and> length (mg_output m) \<le> 1024 \<and> (\<forall>u \<in> set (indexingServices m). is_inv (svc u))"
  using manager_accounts [of sample_text still_env
      "crawlerEndpoints \<lparr>NetworkMode = ''dual'', ListenIPv4 = ''0.0.0.0:0'', ListenIPv6 = ''[::]:0'',
        RoutingTableCacheIPv4 = ''v4'', RoutingTableCacheIPv6 = ''v6''\<rparr> []" 500 "[([1], [2]), ([3], [4])]" "\<lambda>_. None"
      "[MgTake, MgTerminate sample_text all_ok]"] by blast

end
