(* ===== verification/Command_Line.thy ===== *)
theory Command_Line
  imports Configuration
begin

text \<open>
  \<open>ParseArguments\<close> of \<open>config/configuration.go\<close>: the YAML file, the defaults of the flags and the
  command line, in the order the code applies them. \<open>parse_flags\<close> is \<open>flag.Parse\<close> of Go's
  standard library up to the settings it makes; a failure there ends the process. Of the
  configuration the record has the fields the file can set, with the node role and the name
  of the file; the other flags only matter for whether the command line is accepted. \<open>valid\<close>
  says which texts Go accepts as an integer, an unsigned integer or a duration, and \<open>files\<close>
  reads and unmarshals a file, \<open>None\<close> when either fails.
\<close>

section \<open>The flag package\<close>

datatype flag_kind = FString | FBool | FInt | FUint | FDuration

datatype flag_failure =
    BadSyntax string
  | NotDefined string
  | Help
  | InvalidValue string string
  | NeedsArgument string

definition ParseBool :: "string \<Rightarrow> bool option" where
  "ParseBool s =
    (if s \<in> set [''1'', ''t'', ''T'', ''TRUE'', ''true'', ''True''] then Some True
     else if s \<in> set [''0'', ''f'', ''F'', ''FALSE'', ''false'', ''False''] then Some False
     else None)"

definition accepts :: "(flag_kind \<Rightarrow> string \<Rightarrow> bool) \<Rightarrow> flag_kind \<Rightarrow> string \<Rightarrow> bool" where
  "accepts valid k v = (case k of FString \<Rightarrow> True | FBool \<Rightarrow> ParseBool v \<noteq> None | _ \<Rightarrow> valid k v)"

text \<open>The name and the value of an argument after its dashes; a \<open>=\<close> at the first place is refused before.\<close>

definition name_value :: "string \<Rightarrow> string \<times> string option" where
  "name_value s =
    (let n = hd s # takeWhile (\<lambda>c. c \<noteq> CHR ''='') (tl s); r = drop (length n) s
     in (n, if r = [] then None else Some (tl r)))"

fun parse_flags ::
  "(string \<Rightarrow> flag_kind option) \<Rightarrow> (flag_kind \<Rightarrow> string \<Rightarrow> bool) \<Rightarrow> string list \<Rightarrow> flag_failure + (string \<times> string) list" where
  "parse_flags table valid [] = Inr []"
| "parse_flags table valid (s # args) =
     (if length s < 2 \<or> hd s \<noteq> CHR ''-'' then Inr []
      else if s = ''--'' then Inr []
      else
        let body = (if s ! 1 = CHR ''-'' then drop 2 s else drop 1 s)
        in if body = [] \<or> hd body = CHR ''-'' \<or> hd body = CHR ''='' then Inl (BadSyntax s)
           else case name_value body of (name, val) \<Rightarrow>
             (case table name of
                None \<Rightarrow> if name = ''help'' \<or> name = ''h'' then Inl Help else Inl (NotDefined name)
              | Some k \<Rightarrow>
                  let v = (if k = FBool \<and> val = None then Some ''true'' else val)
                  in case v of
                       Some w \<Rightarrow>
                         if accepts valid k w
                         then ebind (parse_flags table valid args) (\<lambda>sets. Inr ((name, w) # sets))
                         else Inl (InvalidValue name w)
                     | None \<Rightarrow>
                         (case args of
                            [] \<Rightarrow> Inl (NeedsArgument name)
                          | w # rest \<Rightarrow>
                              if accepts valid k w
                              then ebind (parse_flags table valid rest) (\<lambda>sets. Inr ((name, w) # sets))
                              else Inl (InvalidValue name w))))"

section \<open>The configuration\<close>

record FileConfig =
  fl_mode :: string
  fl_listen4 :: string
  fl_listen6 :: string
  fl_bootstrap :: "string list"
  fl_cache4 :: string
  fl_cache6 :: string
  fl_enabled :: bool
  fl_start :: string
  fl_end :: string

record StartConfig = NetworkConfig +
  cfg_NodeRole :: string
  cfg_ScheduleEnabled :: bool
  cfg_ScheduleStart :: string
  cfg_ScheduleEnd :: string
  cfg_BootstrapIPv4 :: "string list"
  cfg_ConfigFile :: string

definition flag_names :: "(flag_kind \<times> string list) list" where
  "flag_names =
    [(FString, [''node-role'', ''worker-urls'', ''cluster-token'', ''worker-id'', ''worker-cache-dir'', ''master-url'',
        ''database'', ''database-type'', ''database-url'', ''address'', ''TelegramToken'', ''TelegramUsername'',
        ''DiscordWebhook'', ''SlackWebhook'', ''GotifyURL'', ''GotifyToken'', ''CrawlerScheduleStart'',
        ''CrawlerScheduleEnd'', ''config'', ''NetworkMode'', ''ListenIPv4'', ''ListenIPv6'', ''RoutingTableCacheIPv4'',
        ''RoutingTableCacheIPv6'', ''NameBlacklist'', ''FileBlacklist'', ''BootstrapNodeFile'', ''auth-user'',
        ''auth-pass'', ''session-secret'', ''transmission-url'', ''transmission-user'', ''transmission-pass'',
        ''aria2-url'', ''aria2-token'', ''deluge-url'', ''deluge-pass'', ''qbittorrent-url'', ''qbittorrent-user'',
        ''qbittorrent-pass'']),
     (FBool, [''SafeMode'', ''CrawlerStartOnLaunch'', ''CrawlerScheduleEnabled'', ''EnableBlacklist'',
        ''OnlyChineseContent'', ''Statistics'', ''OnlyWebServer'']),
     (FInt, [''worker-queue'', ''worker-batch'', ''MaxLeeches'', ''CrawlerThreads'', ''MaxConcurrentDownloads'',
        ''RateLimit'', ''CrawlerAutoStopMinutes'', ''MaxSavedTorrents'']),
     (FUint, [''MaxNeighbors'']),
     (FDuration, [''DrainTimeout''])]"

definition flag_table :: "string \<Rightarrow> flag_kind option" where
  "flag_table name = map_option fst (find (\<lambda>(k, names). name \<in> set names) flag_names)"

definition defaultString :: "string \<Rightarrow> string \<Rightarrow> string" where
  "defaultString value fallback = (if value \<noteq> '''' then value else fallback)"

definition Base :: "string \<Rightarrow> string" where
  "Base p =
    (if p = '''' then ''.''
     else let t = rev (dropWhile (\<lambda>c. c = CHR ''/'') (rev p))
          in if t = '''' then ''/'' else rev (takeWhile (\<lambda>c. c \<noteq> CHR ''/'') (rev t)))"

definition default_role :: "string \<Rightarrow> string" where
  "default_role exe = (if list_ex (prefix ''dhtc-worker'') (suffixes (ToLower (Base exe))) then ''worker'' else ''standalone'')"

text \<open>What the file leaves in the fields; without a file they are empty.\<close>

definition from_file :: "FileConfig option \<Rightarrow> StartConfig" where
  "from_file f =
    (case f of
       None \<Rightarrow>
         \<lparr>NetworkMode = '''', ListenIPv4 = '''', ListenIPv6 = '''', RoutingTableCacheIPv4 = '''', RoutingTableCacheIPv6 = '''',
          cfg_NodeRole = '''', cfg_ScheduleEnabled = False, cfg_ScheduleStart = '''', cfg_ScheduleEnd = '''',
          cfg_BootstrapIPv4 = [], cfg_ConfigFile = ''''\<rparr>
     | Some y \<Rightarrow>
         \<lparr>NetworkMode = fl_mode y, ListenIPv4 = fl_listen4 y, ListenIPv6 = fl_listen6 y,
          RoutingTableCacheIPv4 = fl_cache4 y, RoutingTableCacheIPv6 = fl_cache6 y,
          cfg_NodeRole = '''', cfg_ScheduleEnabled = fl_enabled y, cfg_ScheduleStart = fl_start y, cfg_ScheduleEnd = fl_end y,
          cfg_BootstrapIPv4 = fl_bootstrap y, cfg_ConfigFile = ''''\<rparr>)"

text \<open>Declaring a flag stores its default in the field: \<open>flag.StringVar\<close>, \<open>flag.BoolVar\<close>.\<close>

definition declare_flags :: "string \<Rightarrow> string \<Rightarrow> StartConfig \<Rightarrow> StartConfig" where
  "declare_flags exe configFile c =
    c\<lparr>cfg_NodeRole := default_role exe,
      cfg_ScheduleEnabled := False,
      cfg_ScheduleStart := defaultString (cfg_ScheduleStart c) ''22:00'',
      cfg_ScheduleEnd := defaultString (cfg_ScheduleEnd c) ''07:00'',
      cfg_ConfigFile := configFile,
      NetworkMode := defaultString (NetworkMode c) ''dual'',
      ListenIPv4 := defaultString (ListenIPv4 c) ''0.0.0.0:0'',
      ListenIPv6 := defaultString (ListenIPv6 c) ''[::]:0'',
      RoutingTableCacheIPv4 := defaultString (RoutingTableCacheIPv4 c) ''routing-table-v4.json'',
      RoutingTableCacheIPv6 := defaultString (RoutingTableCacheIPv6 c) ''routing-table-v6.json''\<rparr>"

definition set_flag :: "string \<times> string \<Rightarrow> StartConfig \<Rightarrow> StartConfig" where
  "set_flag nv c =
    (let n = fst nv; v = snd nv in
     if n = ''node-role'' then c\<lparr>cfg_NodeRole := v\<rparr>
     else if n = ''CrawlerScheduleEnabled'' then c\<lparr>cfg_ScheduleEnabled := (ParseBool v = Some True)\<rparr>
     else if n = ''CrawlerScheduleStart'' then c\<lparr>cfg_ScheduleStart := v\<rparr>
     else if n = ''CrawlerScheduleEnd'' then c\<lparr>cfg_ScheduleEnd := v\<rparr>
     else if n = ''config'' then c\<lparr>cfg_ConfigFile := v\<rparr>
     else if n = ''NetworkMode'' then c\<lparr>NetworkMode := v\<rparr>
     else if n = ''ListenIPv4'' then c\<lparr>ListenIPv4 := v\<rparr>
     else if n = ''ListenIPv6'' then c\<lparr>ListenIPv6 := v\<rparr>
     else if n = ''RoutingTableCacheIPv4'' then c\<lparr>RoutingTableCacheIPv4 := v\<rparr>
     else if n = ''RoutingTableCacheIPv6'' then c\<lparr>RoutingTableCacheIPv6 := v\<rparr>
     else c)"

definition ParseArguments ::
  "(flag_kind \<Rightarrow> string \<Rightarrow> bool) \<Rightarrow> (string \<Rightarrow> FileConfig option) \<Rightarrow> string \<Rightarrow> string list \<Rightarrow> flag_failure + StartConfig" where
  "ParseArguments valid files exe args =
    (let configFile = argumentValue ''config'' args;
         file = (if configFile \<noteq> '''' then files configFile else None);
         c = declare_flags exe configFile (from_file file)
     in ebind (parse_flags flag_table valid args) (\<lambda>sets.
          let c' = foldl (\<lambda>c nv. set_flag nv c) c sets
          in Inr (c'\<lparr>NetworkMode := NormalizeNetworkMode (NetworkMode c'), cfg_NodeRole := NormalizeNodeRole (cfg_NodeRole c')\<rparr>)))"

section \<open>Properties\<close>

text \<open>The value a flag ends with: the last one given, else the default.\<close>

definition chosen :: "(string \<times> string) list \<Rightarrow> string \<Rightarrow> string \<Rightarrow> string" where
  "chosen sets name fallback = (case map_of (rev sets) name of Some v \<Rightarrow> v | None \<Rightarrow> fallback)"

lemma chosen_simps:
  "chosen [] n d = d"
  "chosen (sets @ [nv]) n d = (if fst nv = n then snd nv else chosen sets n d)"
  by (auto simp: chosen_def split: prod.split)

lemma foldl_field:
  assumes "\<And>nv c. fld (set_flag nv c) = (if fst nv = name then conv (snd nv) else fld c)"
    and "fld c = conv d"
  shows "fld (foldl (\<lambda>c nv. set_flag nv c) c sets) = conv (chosen sets name d)"
  using assms by (induction sets rule: rev_induct) (simp_all add: chosen_simps)

lemma set_flag_fields:
  "NetworkMode (set_flag nv c) = (if fst nv = ''NetworkMode'' then snd nv else NetworkMode c)"
  "ListenIPv4 (set_flag nv c) = (if fst nv = ''ListenIPv4'' then snd nv else ListenIPv4 c)"
  "ListenIPv6 (set_flag nv c) = (if fst nv = ''ListenIPv6'' then snd nv else ListenIPv6 c)"
  "cfg_NodeRole (set_flag nv c) = (if fst nv = ''node-role'' then snd nv else cfg_NodeRole c)"
  "cfg_ScheduleStart (set_flag nv c) = (if fst nv = ''CrawlerScheduleStart'' then snd nv else cfg_ScheduleStart c)"
  "cfg_ScheduleEnd (set_flag nv c) = (if fst nv = ''CrawlerScheduleEnd'' then snd nv else cfg_ScheduleEnd c)"
  "cfg_ScheduleEnabled (set_flag nv c) =
    (if fst nv = ''CrawlerScheduleEnabled'' then ParseBool (snd nv) = Some True else cfg_ScheduleEnabled c)"
  "cfg_BootstrapIPv4 (set_flag nv c) = cfg_BootstrapIPv4 c"
  by (simp_all add: set_flag_def Let_def)

definition file_text :: "(FileConfig \<Rightarrow> string) \<Rightarrow> FileConfig option \<Rightarrow> string" where
  "file_text f file = (case file of None \<Rightarrow> '''' | Some y \<Rightarrow> f y)"

definition config_file :: "(string \<Rightarrow> FileConfig option) \<Rightarrow> string list \<Rightarrow> FileConfig option" where
  "config_file files args = (if argumentValue ''config'' args \<noteq> '''' then files (argumentValue ''config'' args) else None)"

definition flagged :: "(flag_kind \<Rightarrow> string \<Rightarrow> bool) \<Rightarrow> (string \<Rightarrow> FileConfig option) \<Rightarrow> string \<Rightarrow> string list \<Rightarrow> (string \<times> string) list \<Rightarrow> StartConfig" where
  "flagged valid files exe args sets =
    foldl (\<lambda>c nv. set_flag nv c) (declare_flags exe (argumentValue ''config'' args) (from_file (config_file files args))) sets"

lemma ParseArguments_ok:
  "parse_flags flag_table valid args = Inr sets \<Longrightarrow>
    ParseArguments valid files exe args = Inr ((flagged valid files exe args sets)
      \<lparr>NetworkMode := NormalizeNetworkMode (NetworkMode (flagged valid files exe args sets)),
       cfg_NodeRole := NormalizeNodeRole (cfg_NodeRole (flagged valid files exe args sets))\<rparr>)"
  by (simp add: ParseArguments_def flagged_def config_file_def Let_def)

lemma declared_fields:
  "NetworkMode (declare_flags exe cf (from_file file)) = defaultString (file_text fl_mode file) ''dual''"
  "ListenIPv4 (declare_flags exe cf (from_file file)) = defaultString (file_text fl_listen4 file) ''0.0.0.0:0''"
  "ListenIPv6 (declare_flags exe cf (from_file file)) = defaultString (file_text fl_listen6 file) ''[::]:0''"
  "cfg_ScheduleStart (declare_flags exe cf (from_file file)) = defaultString (file_text fl_start file) ''22:00''"
  "cfg_ScheduleEnd (declare_flags exe cf (from_file file)) = defaultString (file_text fl_end file) ''07:00''"
  "cfg_NodeRole (declare_flags exe cf (from_file file)) = default_role exe"
  "\<not> cfg_ScheduleEnabled (declare_flags exe cf (from_file file))"
  by (simp_all add: declare_flags_def from_file_def file_text_def split: option.split)

lemma flagged_fields:
  "NetworkMode (flagged valid files exe args sets)
    = chosen sets ''NetworkMode'' (defaultString (file_text fl_mode (config_file files args)) ''dual'')"
  "ListenIPv4 (flagged valid files exe args sets)
    = chosen sets ''ListenIPv4'' (defaultString (file_text fl_listen4 (config_file files args)) ''0.0.0.0:0'')"
  "ListenIPv6 (flagged valid files exe args sets)
    = chosen sets ''ListenIPv6'' (defaultString (file_text fl_listen6 (config_file files args)) ''[::]:0'')"
  "cfg_ScheduleStart (flagged valid files exe args sets)
    = chosen sets ''CrawlerScheduleStart'' (defaultString (file_text fl_start (config_file files args)) ''22:00'')"
  "cfg_ScheduleEnd (flagged valid files exe args sets)
    = chosen sets ''CrawlerScheduleEnd'' (defaultString (file_text fl_end (config_file files args)) ''07:00'')"
  "cfg_NodeRole (flagged valid files exe args sets) = chosen sets ''node-role'' (default_role exe)"
  "cfg_ScheduleEnabled (flagged valid files exe args sets) \<longleftrightarrow>
    ParseBool (chosen sets ''CrawlerScheduleEnabled'' ''false'') = Some True"
  unfolding flagged_def
  by (rule foldl_field [where conv = "\<lambda>v. v"] foldl_field [where conv = "\<lambda>v. ParseBool v = Some True"];
      simp add: set_flag_fields declared_fields ParseBool_def)+

text \<open>The command line beats the file and the file beats the built-in values: when the
  arguments are accepted, the network mode, the listening addresses and the schedule's times
  are the last value given on the command line, else the file's value if it is not empty,
  else the default, and the mode and the role are brought to their normal forms. The schedule
  itself is enabled by the command line only.\<close>
theorem config_precedence:
  assumes "parse_flags flag_table valid args = Inr sets"
  shows "\<exists>c. ParseArguments valid files exe args = Inr c
    \<and> NetworkMode c = NormalizeNetworkMode (chosen sets ''NetworkMode'' (defaultString (file_text fl_mode (config_file files args)) ''dual''))
    \<and> ListenIPv4 c = chosen sets ''ListenIPv4'' (defaultString (file_text fl_listen4 (config_file files args)) ''0.0.0.0:0'')
    \<and> ListenIPv6 c = chosen sets ''ListenIPv6'' (defaultString (file_text fl_listen6 (config_file files args)) ''[::]:0'')
    \<and> cfg_ScheduleStart c = chosen sets ''CrawlerScheduleStart'' (defaultString (file_text fl_start (config_file files args)) ''22:00'')
    \<and> cfg_ScheduleEnd c = chosen sets ''CrawlerScheduleEnd'' (defaultString (file_text fl_end (config_file files args)) ''07:00'')
    \<and> cfg_NodeRole c = NormalizeNodeRole (chosen sets ''node-role'' (default_role exe))
    \<and> (cfg_ScheduleEnabled c \<longleftrightarrow> ParseBool (chosen sets ''CrawlerScheduleEnabled'' ''false'') = Some True)"
  using ParseArguments_ok [OF assms, of files exe] by (simp add: flagged_fields)

text \<open>The file of the README's example, and a command line that names it.\<close>

definition readme_file :: FileConfig where
  "readme_file = \<lparr>fl_mode = ''dual'', fl_listen4 = ''0.0.0.0:6881'', fl_listen6 = ''[::]:6881'',
    fl_bootstrap = [''router.bittorrent.com:6881''], fl_cache4 = ''routing-table-v4.json'', fl_cache6 = ''routing-table-v6.json'',
    fl_enabled = True, fl_start = ''22:00'', fl_end = ''07:00''\<rparr>"

lemma readme_flags:
  "parse_flags flag_table (\<lambda>_ _. True) [''-config'', ''dhtc.yml'', ''-NetworkMode=ipv4''] =
    Inr [(''config'', ''dhtc.yml''), (''NetworkMode'', ''ipv4'')]"
  by code_simp

lemma readme_fields: "fl_listen4 readme_file = ''0.0.0.0:6881''" "fl_enabled readme_file"
  by (simp_all add: readme_file_def)

lemma readme_config: "config_file (\<lambda>_. Some readme_file) [''-config'', ''dhtc.yml'', ''-NetworkMode=ipv4''] = Some readme_file"
  by (simp add: config_file_def prefix_def)

theorem config_precedence_witness:
  "\<exists>c. ParseArguments (\<lambda>_ _. True) (\<lambda>_. Some readme_file) ''dhtc'' [''-config'', ''dhtc.yml'', ''-NetworkMode=ipv4''] = Inr c
    \<and> NetworkMode c = ''ipv4'' \<and> ListenIPv4 c = ''0.0.0.0:6881''"
  using config_precedence [OF readme_flags, of "\<lambda>_. Some readme_file" "''dhtc''"]
  by (auto simp: readme_config file_text_def readme_fields chosen_def defaultString_def normal_forms)

text \<open>Enabling the schedule in the configuration file has no effect: declaring the flag
  stores its default over the value read from the file, so unless the command line has
  \<open>-CrawlerScheduleEnabled\<close> the schedule is off, whatever the file says.\<close>
theorem file_schedule_ignored:
  assumes "parse_flags flag_table valid args = Inr sets" and "''CrawlerScheduleEnabled'' \<notin> fst ` set sets"
    and "config_file files args = Some file" and "fl_enabled file"
  shows "\<exists>c. ParseArguments valid files exe args = Inr c \<and> \<not> cfg_ScheduleEnabled c"
proof -
  have "map_of (rev sets) ''CrawlerScheduleEnabled'' = None" using assms(2) by (auto simp: map_of_eq_None_iff)
  then show ?thesis
    using ParseArguments_ok [OF assms(1), of files exe] by (simp add: flagged_fields chosen_def ParseBool_def)
qed

theorem file_schedule_ignored_witness:
  "\<exists>c. ParseArguments (\<lambda>_ _. True) (\<lambda>_. Some readme_file) ''dhtc'' [''-config'', ''dhtc.yml'', ''-NetworkMode=ipv4''] = Inr c
    \<and> \<not> cfg_ScheduleEnabled c"
  using file_schedule_ignored [OF readme_flags _ readme_config] by (simp add: readme_fields)

end
