(* ===== verification/Repository.thy ===== *)
theory Repository
  imports Complex_Main Worker_Queue Hex "HOL-Library.Sublist"
begin

text \<open>
  The database component on CloverDB, \<open>db/clover.go\<close>, with the rules it applies to torrents:
  \<open>db/helper.go\<close> (search), \<open>db/categorizer.go\<close>, \<open>db/chinese_filter.go\<close>, \<open>db/blacklist_helper.go\<close> and
  \<open>db/watch.go\<close>. CloverDB itself is not part of the repository: its calls are the fields of a
  record of functions over an unknown type of databases, and \<open>clover_ok\<close> states what the code
  relies on. Unicode lower case, the Unicode table of Han characters, regular expressions and
  the parsing of dates are parameters too.
\<close>

section \<open>Documents and matching\<close>

datatype dvalue =
    DStr string
  | DInt int
  | DUint uint64
  | DFloat rat
  | DTime instant
  | DList "dvalue list"
  | DMap "(string \<times> dvalue) list"

type_synonym Doc = "string \<rightharpoonup> dvalue"

text \<open>
  \<open>lower\<close> is \<open>strings.ToLower\<close>, \<open>date\<close> is \<open>time.Parse\<close> with the layout \<open>2006.01.02\<close>, \<open>rfc822\<close> is
  \<open>Format(time.RFC822)\<close> in the local time zone.
\<close>

record Rules =
  lower :: "string \<Rightarrow> string"
  date :: "string \<Rightarrow> instant option"
  han :: "string \<Rightarrow> bool"
  regex :: "string \<Rightarrow> (string \<Rightarrow> bool) option"
  map_order :: "string list \<Rightarrow> string list"
  rfc822 :: "instant \<Rightarrow> string"

definition contains :: "string \<Rightarrow> string \<Rightarrow> bool" where
  "contains x y = list_ex (prefix y) (suffixes x)"

definition MatchString :: "Rules \<Rightarrow> string \<Rightarrow> string \<Rightarrow> string \<Rightarrow> bool" where
  "MatchString R searchType x y =
    (if searchType = ''contains'' then contains (lower R x) (lower R y)
     else if searchType = ''equals'' then lower R x = lower R y
     else if searchType = ''startswith'' then prefix (lower R y) (lower R x)
     else if searchType = ''endswith'' then suffix (lower R y) (lower R x)
     else False)"

definition HasMatchingFile :: "Rules \<Rightarrow> dvalue list \<Rightarrow> string \<Rightarrow> string \<Rightarrow> bool" where
  "HasMatchingFile R fileList searchType searchInput =
    list_ex (\<lambda>item. case item of
        DMap m \<Rightarrow> (case map_of m ''Path'' of Some (DStr v) \<Rightarrow> MatchString R searchType v searchInput | _ \<Rightarrow> False)
      | _ \<Rightarrow> False) fileList"

definition FoundOnDate :: "Rules \<Rightarrow> instant \<Rightarrow> string \<Rightarrow> bool" where
  "FoundOnDate R t searchInput =
    (case date R searchInput of
       None \<Rightarrow> False
     | Some d \<Rightarrow> d < t \<and> t < d + 24 * 60 * Minute)"

definition doc_string :: "dvalue \<Rightarrow> string" where
  "doc_string v = (case v of DStr s \<Rightarrow> s | _ \<Rightarrow> '''')"

definition doc_int :: "dvalue option \<Rightarrow> int" where
  "doc_int v = (case v of Some (DInt i) \<Rightarrow> i | _ \<Rightarrow> 0)"

definition doc_uint :: "dvalue option \<Rightarrow> uint64" where
  "doc_uint v = (case v of Some (DUint i) \<Rightarrow> i | _ \<Rightarrow> 0)"

definition doc_text :: "dvalue option \<Rightarrow> string" where
  "doc_text v = (case v of None \<Rightarrow> '''' | Some w \<Rightarrow> doc_string w)"

definition matches_key :: "Rules \<Rightarrow> Doc \<Rightarrow> string \<Rightarrow> string \<Rightarrow> string \<Rightarrow> bool" where
  "matches_key R doc key0 searchType searchInput =
    (let key = (if key0 = ''Path'' then ''Files'' else key0)
     in case doc key of
          None \<Rightarrow> False
        | Some v \<Rightarrow>
            if key = ''Files'' then (case v of DList fs \<Rightarrow> HasMatchingFile R fs searchType searchInput | _ \<Rightarrow> True)
            else if key = ''DiscoveredOn'' then FoundOnDate R (time_Unix (doc_int (Some v))) searchInput
            else MatchString R searchType (doc_string v) searchInput)"

definition Matches :: "Rules \<Rightarrow> Doc \<Rightarrow> string \<Rightarrow> string \<Rightarrow> string \<Rightarrow> bool" where
  "Matches R doc key searchType searchInput =
    (if key = ''All''
     then matches_key R doc ''Name'' searchType searchInput \<or> matches_key R doc ''Files'' searchType searchInput
     else matches_key R doc key searchType searchInput)"

text \<open>
  \<open>int(v)\<close> of a \<open>float64\<close> cuts off the fraction; of a \<open>uint64\<close> it keeps the bits. A value read from
  a document is an \<open>int64\<close>, a \<open>uint64\<close> or a \<open>float64\<close>, never an \<open>int\<close>.
\<close>

definition numericInt :: "dvalue option \<Rightarrow> int" where
  "numericInt value =
    (case value of
       Some (DInt v) \<Rightarrow> v
     | Some (DUint v) \<Rightarrow> int64 (uint v)
     | Some (DFloat v) \<Rightarrow> (if v < 0 then - \<lfloor>- v\<rfloor> else \<lfloor>v\<rfloor>)
     | _ \<Rightarrow> 0)"

text \<open>\<open>strings.Split\<close> at a character.\<close>

fun split_at :: "char \<Rightarrow> string \<Rightarrow> string list" where
  "split_at c [] = [[]]"
| "split_at c (x # xs) = (if x = c then [] # split_at c xs else case split_at c xs of w # ws \<Rightarrow> (x # w) # ws | [] \<Rightarrow> [[x]])"

record MetaData =
  m_Name :: string
  m_InfoHash :: string
  m_DiscoveredOn :: string
  m_TotalSize :: uint64
  m_Files :: "dvalue list"
  m_Categories :: "string list"
  m_Family :: int

text \<open>The strings of a list of values: the other values are skipped.\<close>

definition strings_of :: "dvalue list \<Rightarrow> string list" where
  "strings_of vs = List.map_filter (\<lambda>v. case v of DStr s \<Rightarrow> Some s | _ \<Rightarrow> None) vs"

definition doc_categories :: "Doc \<Rightarrow> string list" where
  "doc_categories value =
    (case value ''Categories'' of
       Some v \<Rightarrow> (case v of DList vs \<Rightarrow> strings_of vs | DStr s \<Rightarrow> split_at CHR '','' s | _ \<Rightarrow> [])
     | None \<Rightarrow> (case value ''Category'' of Some v \<Rightarrow> [doc_string v] | None \<Rightarrow> []))"

definition Document2MetaData :: "Rules \<Rightarrow> Doc \<Rightarrow> MetaData" where
  "Document2MetaData R value =
    \<lparr>m_Name = doc_text (value ''Name''), m_InfoHash = doc_text (value ''InfoHash''),
     m_DiscoveredOn = rfc822 R (time_Unix (doc_int (value ''DiscoveredOn''))), m_TotalSize = doc_uint (value ''TotalSize''),
     m_Files = (case value ''Files'' of Some (DList fs) \<Rightarrow> fs | _ \<Rightarrow> []),
     m_Categories = doc_categories value, m_Family = numericInt (value ''Family'')\<rparr>"

definition Documents2MetaData :: "Rules \<Rightarrow> (string \<times> Doc) list \<Rightarrow> MetaData list" where
  "Documents2MetaData R values = map (\<lambda>(i, d). Document2MetaData R d) values"

section \<open>Categories and filters\<close>

definition Ext :: "string \<Rightarrow> string" where
  "Ext path =
    (let r = takeWhile (\<lambda>c. c \<noteq> CHR ''/'' \<and> c \<noteq> CHR ''.'') (rev path)
     in case drop (length r) (rev path) of
          c # _ \<Rightarrow> if c = CHR ''.'' then CHR ''.'' # rev r else ''''
        | [] \<Rightarrow> '''')"

definition categories :: "(string \<times> string list) list" where
  "categories =
    [(''Video'', [''.mp4'', ''.mkv'', ''.avi'', ''.mov'', ''.wmv'', ''.flv'', ''.webm'', ''.m4v'', ''.mpg'', ''.mpeg'']),
     (''Audio'', [''.mp3'', ''.flac'', ''.wav'', ''.m4a'', ''.ogg'', ''.aac'', ''.wma'']),
     (''Software'', [''.exe'', ''.msi'', ''.dmg'', ''.iso'', ''.pkg'', ''.deb'', ''.rpm'', ''.sh'', ''.bat'']),
     (''Document'', [''.pdf'', ''.epub'', ''.mobi'', ''.txt'', ''.doc'', ''.docx'', ''.xls'', ''.xlsx'', ''.ppt'', ''.pptx'']),
     (''Picture'', [''.jpg'', ''.jpeg'', ''.png'', ''.gif'', ''.svg'', ''.bmp'', ''.tiff'']),
     (''Archive'', [''.zip'', ''.rar'', ''.7z'', ''.tar'', ''.gz'', ''.bz2'', ''.xz''])]"

text \<open>The result is in the order of a Go map: \<open>map_order\<close> permutes it.\<close>

definition Categorize :: "Rules \<Rightarrow> Metadata \<Rightarrow> string list" where
  "Categorize R md =
    (if md_Files md = [] then [''Unknown'']
     else
       let exts = filter (\<lambda>e. e \<noteq> '''') (map (\<lambda>f. lower R (Ext (f_Path f))) (md_Files md))
       in if exts = [] then [''Unknown'']
          else let found = map fst (filter (\<lambda>(cat, es). list_ex (\<lambda>e. e \<in> set es) exts) categories)
               in if found = [] then [''Other''] else map_order R found)"

definition ContainsChineseContent :: "Rules \<Rightarrow> Metadata \<Rightarrow> bool" where
  "ContainsChineseContent R md = (han R (md_Name md) \<or> list_ex (\<lambda>f. han R (f_Path f)) (md_Files md))"

definition IsFileBlacklisted :: "Metadata \<Rightarrow> (string \<Rightarrow> bool) \<Rightarrow> bool" where
  "IsFileBlacklisted md filter_re = list_ex (\<lambda>f. filter_re (f_Path f)) (md_Files md)"

section \<open>The repository\<close>

datatype table = TorrentTable | WatchTable | BlacklistTable | StatsTable

text \<open>
  The calls of CloverDB: \<open>FindAll\<close> with a predicate; the same sorted by \<open>DiscoveredOn\<close>, ascending
  or descending, with \<open>Limit\<close> and \<open>Skip\<close>; \<open>Count\<close>; \<open>InsertOne\<close>; \<open>DeleteById\<close>; \<open>Delete\<close>
  of every document of a table; the criteria \<open>Field(f).GtEq(n)\<close> and \<open>Field(f).Eq(s)\<close> of
  \<open>Where\<close>; and how a file is stored in a document. \<open>None\<close> is an error.
\<close>

record 'db Clover =
  FindAll :: "table \<Rightarrow> (Doc \<Rightarrow> bool) \<Rightarrow> 'db \<Rightarrow> (string \<times> Doc) list option"
  FindSorted :: "table \<Rightarrow> (Doc \<Rightarrow> bool) \<Rightarrow> bool \<Rightarrow> int \<Rightarrow> int \<Rightarrow> 'db \<Rightarrow> (string \<times> Doc) list option"
  Count :: "table \<Rightarrow> (Doc \<Rightarrow> bool) \<Rightarrow> 'db \<Rightarrow> nat option"
  InsertOne :: "table \<Rightarrow> Doc \<Rightarrow> 'db \<Rightarrow> 'db option"
  DeleteById :: "table \<Rightarrow> string \<Rightarrow> 'db \<Rightarrow> 'db option"
  Delete :: "table \<Rightarrow> 'db \<Rightarrow> 'db option"
  Where_GtEq :: "string \<Rightarrow> int \<Rightarrow> Doc \<Rightarrow> bool"
  Where_Eq :: "string \<Rightarrow> string \<Rightarrow> Doc \<Rightarrow> bool"
  file_value :: "File \<Rightarrow> dvalue"

record RepoConfig =
  rc_OnlyChineseContent :: bool
  rc_EnableBlacklist :: bool
  rc_MaxSavedTorrents :: int

record SearchFilters =
  MinSize :: uint64
  MaxSize :: uint64
  StartDate :: int
  EndDate :: int

record WatchEntry =
  we_Id :: string
  we_Key :: string
  we_MatchType :: string
  we_Content :: string

definition or_empty :: "'a list option \<Rightarrow> 'a list" where
  "or_empty r = (case r of None \<Rightarrow> [] | Some xs \<Rightarrow> xs)"

definition FindBy :: "'db Clover \<Rightarrow> Rules \<Rightarrow> string \<Rightarrow> string \<Rightarrow> string \<Rightarrow> 'db \<Rightarrow> MetaData list" where
  "FindBy C R key searchType searchInput db =
    Documents2MetaData R (or_empty (FindAll C TorrentTable (\<lambda>doc. Matches R doc key searchType searchInput) db))"

definition search_match :: "Rules \<Rightarrow> string \<Rightarrow> string \<Rightarrow> string \<Rightarrow> SearchFilters \<Rightarrow> Doc \<Rightarrow> bool" where
  "search_match R key searchType searchInput filters doc =
    (let totalSize = doc_uint (doc ''TotalSize''); discoveredOn = doc_int (doc ''DiscoveredOn'')
     in Matches R doc key searchType searchInput
        \<and> \<not> (MinSize filters > 0 \<and> totalSize < MinSize filters)
        \<and> \<not> (MaxSize filters > 0 \<and> totalSize > MaxSize filters)
        \<and> \<not> (StartDate filters > 0 \<and> discoveredOn < StartDate filters)
        \<and> \<not> (EndDate filters > 0 \<and> discoveredOn > EndDate filters))"

definition Search ::
  "'db Clover \<Rightarrow> Rules \<Rightarrow> string \<Rightarrow> string \<Rightarrow> string \<Rightarrow> int \<Rightarrow> int \<Rightarrow> SearchFilters \<Rightarrow> 'db \<Rightarrow> (MetaData list \<times> nat) option" where
  "Search C R key searchType searchInput lmt offset filters db =
    (let p = search_match R key searchType searchInput filters;
         cnt = (case Count C TorrentTable p db of None \<Rightarrow> 0 | Some n \<Rightarrow> n)
     in case FindSorted C TorrentTable p False lmt offset db of
          None \<Rightarrow> None
        | Some values \<Rightarrow> Some (Documents2MetaData R values, cnt))"

definition blacklist_match :: "Rules \<Rightarrow> Metadata \<Rightarrow> Doc \<Rightarrow> bool" where
  "blacklist_match R md doc =
    (case regex R (doc_text (doc ''Filter'')) of
       None \<Rightarrow> False
     | Some re \<Rightarrow>
         let t = doc_text (doc ''Type'')
         in if t = ''0'' then re (md_Name md)
            else if t = ''1'' then IsFileBlacklisted md re
            else False)"

definition IsBlacklisted :: "'db Clover \<Rightarrow> Rules \<Rightarrow> Metadata \<Rightarrow> 'db \<Rightarrow> bool" where
  "IsBlacklisted C R md db = (or_empty (FindAll C BlacklistTable (blacklist_match R md) db) \<noteq> [])"

definition delete_all :: "'db Clover \<Rightarrow> string list \<Rightarrow> 'db \<Rightarrow> 'db" where
  "delete_all C ids db = foldl (\<lambda>d i. case DeleteById C TorrentTable i d of None \<Rightarrow> d | Some d' \<Rightarrow> d') db ids"

definition pruneOldTorrents :: "'db Clover \<Rightarrow> RepoConfig \<Rightarrow> 'db \<Rightarrow> 'db" where
  "pruneOldTorrents C cfg db =
    (if rc_MaxSavedTorrents cfg \<le> 0 then db
     else case Count C TorrentTable (\<lambda>_. True) db of
       None \<Rightarrow> db
     | Some cnt \<Rightarrow>
         if int cnt \<le> rc_MaxSavedTorrents cfg then db
         else case FindSorted C TorrentTable (\<lambda>_. True) True (int cnt - rc_MaxSavedTorrents cfg) 0 db of
           None \<Rightarrow> db
         | Some oldest \<Rightarrow> delete_all C (map fst oldest) db)"

definition torrent_doc :: "'db Clover \<Rightarrow> Rules \<Rightarrow> Metadata \<Rightarrow> Doc" where
  "torrent_doc C R md =
    [''Name'' \<mapsto> DStr (md_Name md), ''InfoHash'' \<mapsto> DStr (hex_EncodeToString (md_InfoHash md)),
     ''Files'' \<mapsto> DList (map (file_value C) (md_Files md)), ''DiscoveredOn'' \<mapsto> DInt (md_DiscoveredOn md),
     ''TotalSize'' \<mapsto> DUint (md_TotalSize md), ''Categories'' \<mapsto> DList (map DStr (Categorize R md)),
     ''Family'' \<mapsto> DInt (md_Family md)]"

definition InsertMetadata :: "'db Clover \<Rightarrow> Rules \<Rightarrow> RepoConfig \<Rightarrow> Metadata \<Rightarrow> 'db \<Rightarrow> bool \<times> 'db" where
  "InsertMetadata C R cfg md db =
    (if rc_OnlyChineseContent cfg \<and> \<not> ContainsChineseContent R md then (False, db)
     else if rc_EnableBlacklist cfg \<and> IsBlacklisted C R md db then (False, db)
     else case InsertOne C TorrentTable (torrent_doc C R md) db of
       None \<Rightarrow> (False, db)
     | Some db' \<Rightarrow> (True, pruneOldTorrents C cfg db'))"

definition GetWatchEntries :: "'db Clover \<Rightarrow> 'db \<Rightarrow> WatchEntry list" where
  "GetWatchEntries C db =
    map (\<lambda>(i, d). \<lparr>we_Id = i, we_Key = doc_text (d ''Key''),
                   we_MatchType = doc_text (d ''MatchType''),
                   we_Content = doc_text (d ''Content'')\<rparr>)
      (or_empty (FindAll C WatchTable (\<lambda>_. True) db))"

text \<open>\<open>CheckWatches\<close> of \<open>db/watch.go\<close>: the messages handed to the notifier, in order.\<close>

definition watch_message :: "Metadata \<Rightarrow> WatchEntry \<Rightarrow> string" where
  "watch_message md w =
    (if we_MatchType w = ''Files''
     then ''Match found: '' @ [CHR 0x27] @ md_Name md @ [CHR 0x27] @ '' contains file which '' @ we_MatchType w @ '' ''
            @ [CHR 0x27] @ we_Content w @ [CHR 0x27] @ ''.''
     else ''Match found: '' @ [CHR 0x27] @ md_Name md @ [CHR 0x27] @ '' '' @ we_MatchType w @ '' ''
            @ [CHR 0x27] @ we_Content w @ [CHR 0x27])"

definition CheckWatches :: "'db Clover \<Rightarrow> Rules \<Rightarrow> bool \<Rightarrow> Metadata \<Rightarrow> 'db \<Rightarrow> string list" where
  "CheckWatches C R has_notifier md db =
    (if \<not> has_notifier then []
     else map (watch_message md)
       (filter (\<lambda>w. FindBy C R (we_Key w) (we_MatchType w) (we_Content w) db \<noteq> []) (GetWatchEntries C db)))"

text \<open>\<open>IngestMetadata\<close> of \<open>ui/crawler.go\<close>: the answer, the database, the notifications and what the hub broadcasts.\<close>

definition IngestMetadata ::
  "'db Clover \<Rightarrow> Rules \<Rightarrow> RepoConfig \<Rightarrow> bool \<Rightarrow> Metadata \<Rightarrow> 'db \<Rightarrow> bool \<times> 'db \<times> string list \<times> Metadata list" where
  "IngestMetadata C R cfg has_notifier md db =
    (case InsertMetadata C R cfg md db of
       (False, db') \<Rightarrow> (False, db', [], [])
     | (True, db') \<Rightarrow> (True, db', CheckWatches C R has_notifier md db', [md]))"

section \<open>What the code relies on\<close>

text \<open>
  \<open>rows t db\<close> are the documents of a table by identifier. A call that succeeds gives the
  documents asked for, once each; an insertion takes a fresh identifier; insertion and
  deletion change one document of their table. \<open>valid\<close> holds of the databases the program can
  have.
\<close>

definition selected :: "('i \<rightharpoonup> 'd) \<Rightarrow> ('d \<Rightarrow> bool) \<Rightarrow> 'i \<rightharpoonup> 'd" where
  "selected m p = (\<lambda>i. case m i of None \<Rightarrow> None | Some d \<Rightarrow> if p d then Some d else None)"

definition discovered_on :: "Doc \<Rightarrow> int" where
  "discovered_on d = doc_int (d ''DiscoveredOn'')"

definition listing :: "('i \<rightharpoonup> 'd) \<Rightarrow> ('i \<times> 'd) list \<Rightarrow> bool" where
  "listing m xs \<longleftrightarrow> distinct (map fst xs) \<and> map_of xs = m"

definition ordered :: "('d \<Rightarrow> int) \<Rightarrow> bool \<Rightarrow> ('i \<times> 'd) list \<Rightarrow> bool" where
  "ordered disc asc xs \<longleftrightarrow>
    sorted_wrt (\<lambda>a b. if asc then disc (snd a) \<le> disc (snd b) else disc (snd b) \<le> disc (snd a)) xs"

definition clover_ok :: "'db Clover \<Rightarrow> ('db \<Rightarrow> bool) \<Rightarrow> (table \<Rightarrow> 'db \<Rightarrow> string \<rightharpoonup> Doc) \<Rightarrow> bool" where
  "clover_ok C valid rows \<longleftrightarrow> (\<forall>t db. valid db \<longrightarrow>
     (\<forall>p xs. FindAll C t p db = Some xs \<longrightarrow> listing (selected (rows t db) p) xs)
   \<and> (\<forall>p n. Count C t p db = Some n \<longrightarrow> n = card (dom (selected (rows t db) p)))
   \<and> (\<forall>p asc. \<exists>ys. listing (selected (rows t db) p) ys \<and> ordered discovered_on asc ys
        \<and> (\<forall>l s xs. 0 \<le> l \<longrightarrow> 0 \<le> s \<longrightarrow> FindSorted C t p asc l s db = Some xs \<longrightarrow> xs = take (nat l) (drop (nat s) ys)))
   \<and> (\<forall>d db'. InsertOne C t d db = Some db' \<longrightarrow>
        valid db' \<and> (\<exists>i. rows t db i = None \<and> rows t db' = (rows t db)(i \<mapsto> d)) \<and> (\<forall>u. u \<noteq> t \<longrightarrow> rows u db' = rows u db))
   \<and> (\<forall>i db'. DeleteById C t i db = Some db' \<longrightarrow>
        valid db' \<and> rows t db' = (rows t db)(i := None) \<and> (\<forall>u. u \<noteq> t \<longrightarrow> rows u db' = rows u db))
   \<and> (\<forall>db'. Delete C t db = Some db' \<longrightarrow>
        valid db' \<and> rows t db' = Map.empty \<and> (\<forall>u. u \<noteq> t \<longrightarrow> rows u db' = rows u db)))"

text \<open>The criteria compare values of the type they are given; other documents are not specified.\<close>

definition where_ok :: "'db Clover \<Rightarrow> bool" where
  "where_ok C \<longleftrightarrow> (\<forall>f d. (\<forall>i n. d f = Some (DInt i) \<longrightarrow> Where_GtEq C f n d = (n \<le> i))
     \<and> (\<forall>v s. d f = Some (DStr v) \<longrightarrow> Where_Eq C f s d = (v = s)))"

text \<open>No call fails, the deletion of a document that is not there apart.\<close>

definition never_fails :: "'db Clover \<Rightarrow> (table \<Rightarrow> 'db \<Rightarrow> string \<rightharpoonup> Doc) \<Rightarrow> bool" where
  "never_fails C rows \<longleftrightarrow> (\<forall>t p asc l s d i db. FindAll C t p db \<noteq> None \<and> FindSorted C t p asc l s db \<noteq> None
     \<and> Count C t p db \<noteq> None \<and> InsertOne C t d db \<noteq> None \<and> (rows t db i \<noteq> None \<longrightarrow> DeleteById C t i db \<noteq> None)
     \<and> Delete C t db \<noteq> None)"

lemma FindAll_lists:
  "clover_ok C valid rows \<Longrightarrow> valid db \<Longrightarrow> FindAll C t p db = Some xs \<Longrightarrow> listing (selected (rows t db) p) xs"
  unfolding clover_ok_def by blast

lemma Count_card:
  "clover_ok C valid rows \<Longrightarrow> valid db \<Longrightarrow> Count C t p db = Some n \<Longrightarrow> n = card (dom (selected (rows t db) p))"
  unfolding clover_ok_def by blast

lemma FindSorted_pages:
  assumes "clover_ok C valid rows" and "valid db"
  obtains ys where "listing (selected (rows t db) p) ys" and "ordered discovered_on asc ys"
    and "\<And>l s xs. 0 \<le> l \<Longrightarrow> 0 \<le> s \<Longrightarrow> FindSorted C t p asc l s db = Some xs \<Longrightarrow> xs = take (nat l) (drop (nat s) ys)"
proof -
  note assms(1) [unfolded clover_ok_def, THEN spec, of t, THEN spec, of db, THEN mp, OF assms(2)]
  then have "\<forall>p asc. \<exists>ys. listing (selected (rows t db) p) ys \<and> ordered discovered_on asc ys
      \<and> (\<forall>l s xs. 0 \<le> l \<longrightarrow> 0 \<le> s \<longrightarrow> FindSorted C t p asc l s db = Some xs \<longrightarrow> xs = take (nat l) (drop (nat s) ys))"
    by (elim conjE)
  then show thesis using that by blast
qed

lemma InsertOne_adds:
  assumes "clover_ok C valid rows" and "valid db" and "InsertOne C t d db = Some db'"
  obtains i where "valid db'" and "rows t db i = None" and "rows t db' = (rows t db)(i \<mapsto> d)"
    and "\<And>u. u \<noteq> t \<Longrightarrow> rows u db' = rows u db"
proof -
  note assms(1) [unfolded clover_ok_def, THEN spec, of t, THEN spec, of db, THEN mp, OF assms(2)]
  then have "\<forall>d db'. InsertOne C t d db = Some db' \<longrightarrow>
      valid db' \<and> (\<exists>i. rows t db i = None \<and> rows t db' = (rows t db)(i \<mapsto> d)) \<and> (\<forall>u. u \<noteq> t \<longrightarrow> rows u db' = rows u db)"
    by (elim conjE)
  then show thesis using that assms(3) by blast
qed

lemma DeleteById_removes:
  assumes "clover_ok C valid rows" and "valid db" and "DeleteById C t i db = Some db'"
  shows "valid db'" and "rows t db' = (rows t db)(i := None)" and "u \<noteq> t \<Longrightarrow> rows u db' = rows u db"
  using assms unfolding clover_ok_def by blast+

lemma Delete_empties:
  assumes "clover_ok C valid rows" and "valid db" and "Delete C t db = Some db'"
  shows "valid db'" and "rows t db' = Map.empty" and "u \<noteq> t \<Longrightarrow> rows u db' = rows u db"
  using assms unfolding clover_ok_def by blast+

lemma never_failsD:
  assumes nf: "never_fails C rows"
  shows "\<exists>xs. FindAll C t p db = Some xs" "\<exists>xs. FindSorted C t p asc l s db = Some xs" "\<exists>n. Count C t p db = Some n"
    "\<exists>db'. InsertOne C t d db = Some db'" "rows t db i = Some d \<Longrightarrow> \<exists>db'. DeleteById C t i db = Some db'"
    "\<exists>db'. Delete C t db = Some db'"
  using nf unfolding never_fails_def by (blast, blast, blast, blast, blast, blast)

lemma selected_True [simp]: "selected m (\<lambda>_. True) = m"
  by (auto simp: selected_def split: option.split)

lemma selected_Some: "selected m p i = Some d \<longleftrightarrow> m i = Some d \<and> p d"
  by (auto simp: selected_def split: option.splits)

lemma listing_mem: "listing m xs \<Longrightarrow> (i, d) \<in> set xs \<longleftrightarrow> m i = Some d"
  by (auto simp: listing_def map_of_eq_Some_iff)

lemma listing_card: "listing m xs \<Longrightarrow> card (dom m) = length xs"
  using distinct_card [of "map fst xs"] by (auto simp: listing_def dom_map_of_conv_image_fst)

lemma concat_pages: "concat (map (\<lambda>k. take n (drop (k * n) ys)) [0..<m]) = take (m * n) ys"
proof (induction m)
  case (Suc m)
  have "take (Suc m * n) ys = take (m * n) ys @ take n (drop (m * n) ys)" by (metis add.commute mult_Suc take_add)
  with Suc show ?case by simp
qed simp

lemma Documents_concat: "concat (map (\<lambda>k. Documents2MetaData R (f k)) ks) = Documents2MetaData R (concat (map f ks))"
  by (simp add: Documents2MetaData_def map_concat comp_def)

lemma listing_empty: "listing m xs \<Longrightarrow> xs = [] \<longleftrightarrow> dom m = {}"
  by (auto simp: listing_def dom_map_of_conv_image_fst)

section \<open>Pruning\<close>

lemma delete_all_rows:
  assumes "clover_ok C valid rows" and "never_fails C rows"
  shows "valid db \<Longrightarrow> distinct ids \<Longrightarrow> set ids \<subseteq> dom (rows TorrentTable db) \<Longrightarrow> valid (delete_all C ids db)
    \<and> rows TorrentTable (delete_all C ids db) = (\<lambda>i. if i \<in> set ids then None else rows TorrentTable db i)
    \<and> (\<forall>u. u \<noteq> TorrentTable \<longrightarrow> rows u (delete_all C ids db) = rows u db)"
proof (induction ids arbitrary: db)
  case Nil
  then show ?case by (simp add: delete_all_def)
next
  case (Cons i ids)
  obtain e where "rows TorrentTable db i = Some e" using Cons.prems(3) by auto
  then obtain db' where d: "DeleteById C TorrentTable i db = Some db'" using never_failsD(5) [OF assms(2)] by blast
  note r = DeleteById_removes [OF assms(1) Cons.prems(1) d]
  have "delete_all C (i # ids) db = delete_all C ids db'" by (simp add: delete_all_def d)
  moreover have "distinct ids" and "set ids \<subseteq> dom (rows TorrentTable db')" using Cons.prems by (auto simp: r(2))
  note Cons.IH [OF r(1) this]
  ultimately show ?case using r(2,3) by auto
qed

text \<open>
  What pruning is meant to do with the torrents \<open>m\<close>, \<open>disc\<close> being their time of discovery: at most \<open>cap\<close> stay, no more than necessary
  go, and no torrent that went was discovered after one that stayed.
\<close>

definition pruned_to :: "('d \<Rightarrow> int) \<Rightarrow> nat \<Rightarrow> ('i \<rightharpoonup> 'd) \<Rightarrow> ('i \<rightharpoonup> 'd) \<Rightarrow> bool" where
  "pruned_to disc cap m kept \<longleftrightarrow>
    kept \<subseteq>\<^sub>m m \<and> card (dom kept) = min (card (dom m)) cap
    \<and> (\<forall>a d b e. m a = Some d \<and> a \<notin> dom kept \<and> kept b = Some e \<longrightarrow> disc d \<le> disc e)"

lemma pruned_to_same: "card (dom m) \<le> cap \<Longrightarrow> pruned_to disc cap m m"
  by (auto simp: pruned_to_def)

lemma oldest_out:
  assumes "listing m ys" and "ordered disc True ys" and "cap \<le> length ys" and "k = length ys - cap"
    and "kept = (\<lambda>i. if i \<in> set (map fst (take k ys)) then None else m i)"
  shows "pruned_to disc cap m kept"
proof -
  have dist: "distinct (map fst ys)" and m: "m = map_of ys" using assms(1) by (auto simp: listing_def)
  have split: "ys = take k ys @ drop k ys" by simp
  then have disj: "set (map fst (take k ys)) \<inter> set (map fst (drop k ys)) = {}"
    using dist by (metis distinct_append map_append)
  have kept: "kept = map_of (drop k ys)"
  proof
    fix i
    have "m i = map_of (take k ys @ drop k ys) i" by (simp add: m)
    then have mi: "m i = (case map_of (take k ys) i of None \<Rightarrow> map_of (drop k ys) i | Some d \<Rightarrow> Some d)"
      unfolding map_of_append by (simp add: map_add_def)
    show "kept i = map_of (drop k ys) i"
    proof (cases "i \<in> set (map fst (take k ys))")
      case True
      then have "i \<notin> set (map fst (drop k ys))" using disj by blast
      then have "map_of (drop k ys) i = None" by (simp add: map_of_eq_None_iff)
      with True show ?thesis by (simp add: assms(5))
    next
      case False
      then have "map_of (take k ys) i = None" by (simp add: map_of_eq_None_iff)
      with False mi show ?thesis by (auto simp: assms(5))
    qed
  qed
  have "kept i = Some d \<Longrightarrow> m i = Some d" for i d by (simp add: assms(5) split: if_splits)
  then have sub: "kept \<subseteq>\<^sub>m m" by (auto simp: map_le_def)
  have "listing kept (drop k ys)" using dist by (simp add: listing_def kept distinct_drop flip: drop_map)
  then have "card (dom kept) = length ys - k" using listing_card by fastforce
  then have card: "card (dom kept) = min (card (dom m)) cap" using listing_card [OF assms(1)] assms(3,4) by simp
  have "disc d \<le> disc e" if a: "m a = Some d" "a \<notin> dom kept" "kept b = Some e" for a b d e
  proof -
    from a have "(a, d) \<in> set ys" "(a, d) \<notin> set (drop k ys)" "(b, e) \<in> set (drop k ys)"
      by (force simp: m kept map_of_eq_None_iff dest: map_of_SomeD)+
    then have "(a, d) \<in> set (take k ys)" using split by (metis Un_iff set_append)
    moreover have "sorted_wrt (\<lambda>x y. disc (snd x) \<le> disc (snd y)) (take k ys @ drop k ys)"
      using assms(2) by (simp add: ordered_def)
    ultimately show ?thesis
      using \<open>(b, e) \<in> set (drop k ys)\<close> unfolding sorted_wrt_append by fastforce
  qed
  then show ?thesis using sub card unfolding pruned_to_def by blast
qed

lemma prune_rows:
  assumes ok: "clover_ok C valid rows" and nf: "never_fails C rows" and v: "valid db" and cap: "0 < rc_MaxSavedTorrents cfg"
  shows "valid (pruneOldTorrents C cfg db)
    \<and> pruned_to discovered_on (nat (rc_MaxSavedTorrents cfg)) (rows TorrentTable db) (rows TorrentTable (pruneOldTorrents C cfg db))
    \<and> (\<forall>u. u \<noteq> TorrentTable \<longrightarrow> rows u (pruneOldTorrents C cfg db) = rows u db)"
proof -
  obtain n where c: "Count C TorrentTable (\<lambda>_. True) db = Some n" using never_failsD(3) [OF nf] by blast
  then have n: "n = card (dom (rows TorrentTable db))" using Count_card [OF ok v c] by simp
  show ?thesis
  proof (cases "int n \<le> rc_MaxSavedTorrents cfg")
    case True
    then have "pruneOldTorrents C cfg db = db" by (simp add: pruneOldTorrents_def c)
    then show ?thesis using True n v by (auto intro: pruned_to_same)
  next
    case False
    define k where "k = n - nat (rc_MaxSavedTorrents cfg)"
    have ik: "int n - rc_MaxSavedTorrents cfg = int k" using False cap by (simp add: k_def)
    obtain ys where ys: "listing (rows TorrentTable db) ys" "ordered discovered_on True ys"
      "\<And>l s xs. 0 \<le> l \<Longrightarrow> 0 \<le> s \<Longrightarrow> FindSorted C TorrentTable (\<lambda>_. True) True l s db = Some xs \<Longrightarrow> xs = take (nat l) (drop (nat s) ys)"
      using FindSorted_pages [OF ok v, where t = TorrentTable and p = "\<lambda>_. True" and asc = True] by auto
    obtain xs where xs: "FindSorted C TorrentTable (\<lambda>_. True) True (int k) 0 db = Some xs" using never_failsD(2) [OF nf] by blast
    then have "xs = take k ys" using ys(3) [OF _ _ xs] by simp
    then have p: "pruneOldTorrents C cfg db = delete_all C (map fst (take k ys)) db"
      using False c xs cap by (simp add: pruneOldTorrents_def ik)
    have "distinct (map fst (take k ys))" using ys(1) by (simp add: listing_def flip: take_map)
    moreover have "set (map fst (take k ys)) \<subseteq> dom (rows TorrentTable db)"
      using listing_mem [OF ys(1)] by (auto dest!: in_set_takeD)
    ultimately have rows: "valid (delete_all C (map fst (take k ys)) db)
        \<and> rows TorrentTable (delete_all C (map fst (take k ys)) db)
            = (\<lambda>i. if i \<in> set (map fst (take k ys)) then None else rows TorrentTable db i)
        \<and> (\<forall>u. u \<noteq> TorrentTable \<longrightarrow> rows u (delete_all C (map fst (take k ys)) db) = rows u db)"
      by (rule delete_all_rows [OF ok nf v])
    have len: "length ys = n" using listing_card [OF ys(1)] n by simp
    then have "pruned_to discovered_on (nat (rc_MaxSavedTorrents cfg)) (rows TorrentTable db) (rows TorrentTable (pruneOldTorrents C cfg db))"
      using False rows by (intro oldest_out [OF ys(1,2), where k = k]) (auto simp: k_def p)
    then show ?thesis using rows by (simp add: p)
  qed
qed

section \<open>A store of lists\<close>

text \<open>A database that satisfies the assumptions: each table is a list of rows.\<close>

type_synonym list_db = "table \<Rightarrow> (string \<times> Doc) list"

definition fresh_id :: "(string \<times> Doc) list \<Rightarrow> string" where
  "fresh_id xs = replicate (Suc (foldr (\<lambda>r. max (length (fst r))) xs 0)) CHR ''x''"

definition list_clover :: "list_db Clover" where
  "list_clover =
    \<lparr>FindAll = (\<lambda>t p db. Some (filter (\<lambda>r. p (snd r)) (db t))),
     FindSorted = (\<lambda>t p asc l s db. Some (take (nat l) (drop (nat s)
       (sort_key (\<lambda>r. if asc then discovered_on (snd r) else - discovered_on (snd r)) (filter (\<lambda>r. p (snd r)) (db t)))))),
     Count = (\<lambda>t p db. Some (length (filter (\<lambda>r. p (snd r)) (db t)))),
     InsertOne = (\<lambda>t d db. Some (db(t := db t @ [(fresh_id (db t), d)]))),
     DeleteById = (\<lambda>t i db. if i \<in> fst ` set (db t) then Some (db(t := filter (\<lambda>r. fst r \<noteq> i) (db t))) else None),
     Delete = (\<lambda>t db. Some (db(t := []))),
     Where_GtEq = (\<lambda>f n d. case d f of Some (DInt i) \<Rightarrow> n \<le> i | _ \<Rightarrow> False),
     Where_Eq = (\<lambda>f s d. d f = Some (DStr s)),
     file_value = (\<lambda>f. DMap [(''Size'', DInt (f_Size f)), (''Path'', DStr (f_Path f))])\<rparr>"

definition list_valid :: "list_db \<Rightarrow> bool" where
  "list_valid db \<longleftrightarrow> (\<forall>t. distinct (map fst (db t)))"

lemma fresh_id_fresh: "r \<in> set xs \<Longrightarrow> length (fst r) < length (fresh_id xs)"
proof -
  have "length (fst r) \<le> foldr (\<lambda>r. max (length (fst r))) xs 0" if "r \<in> set xs"
    using that by (induction xs) auto
  then show "r \<in> set xs \<Longrightarrow> ?thesis" by (simp add: fresh_id_def less_Suc_eq_le)
qed

lemma fresh_id_new: "map_of xs (fresh_id xs) = None"
  using fresh_id_fresh [of _ xs] by (fastforce simp: map_of_eq_None_iff)

lemma list_selected:
  "distinct (map fst xs) \<Longrightarrow> listing (selected (map_of xs) p) (filter (\<lambda>r. p (snd r)) xs)"
proof -
  assume d: "distinct (map fst xs)"
  then have d': "distinct (map fst (filter (\<lambda>r. p (snd r)) xs))" by (simp add: distinct_map_filter)
  have "map_of (filter (\<lambda>r. p (snd r)) xs) i = selected (map_of xs) p i" for i
  proof (cases "selected (map_of xs) p i")
    case None
    have "\<not> p v" if "(i, v) \<in> set xs" for v
      using None map_of_is_SomeI [OF d that] by (simp add: selected_def split: if_splits)
    then have "i \<notin> fst ` set (filter (\<lambda>r. p (snd r)) xs)" by auto
    then show ?thesis using None by (simp add: map_of_eq_None_iff)
  next
    case (Some v)
    then have "(i, v) \<in> set (filter (\<lambda>r. p (snd r)) xs)" using d by (auto simp: selected_Some map_of_eq_Some_iff)
    then show ?thesis using Some d' by simp
  qed
  then show ?thesis using d' by (auto simp: listing_def)
qed

lemma listing_sort: "listing m xs \<Longrightarrow> listing m (sort_key f xs)"
proof -
  assume xs: "listing m xs"
  have "mset (map fst (sort_key f xs)) = mset (map fst xs)" by simp
  then have "distinct (map fst (sort_key f xs))"
    using xs mset_eq_imp_distinct_iff unfolding listing_def by blast
  moreover have "map_of (sort_key f xs) = map_of xs"
    using calculation xs by (intro map_of_inject_set [THEN iffD2]) (auto simp: listing_def)
  ultimately show ?thesis using xs by (simp add: listing_def)
qed

lemma ordered_sort_by:
  "ordered disc asc (sort_key (\<lambda>r. if asc then disc (snd r) else - disc (snd r)) xs)"
  using sorted_sort_key [of "\<lambda>r. if asc then disc (snd r) else - disc (snd r)" xs]
  by (cases asc) (auto simp: ordered_def sorted_map elim: sorted_wrt_mono_rel [rotated])

lemmas ordered_sort = ordered_sort_by [of discovered_on]

lemma map_of_delete: "map_of (filter (\<lambda>r. fst r \<noteq> i) xs) = (map_of xs)(i := None)"
  by (induction xs) auto

lemma map_of_snoc: "map_of xs i = None \<Longrightarrow> map_of (xs @ [(i, d)]) = (map_of xs)(i \<mapsto> d)"
  by (rule ext) (auto simp: map_add_def split: option.split)

lemma list_clover_ok: "clover_ok list_clover list_valid (\<lambda>t db. map_of (db t))"
  unfolding clover_ok_def
proof (intro allI impI conjI)
  fix t and db :: list_db and p xs
  assume v: "list_valid db"
  then have d: "distinct (map fst (db t))" by (simp add: list_valid_def)
  show "FindAll list_clover t p db = Some xs \<Longrightarrow> listing (selected (map_of (db t)) p) xs"
    using list_selected [OF d] by (auto simp: list_clover_def)
  show "Count list_clover t p db = Some n \<Longrightarrow> n = card (dom (selected (map_of (db t)) p))" for n
    using listing_card [OF list_selected [OF d, of p]] by (simp add: list_clover_def)
  show "\<exists>ys. listing (selected (map_of (db t)) p) ys \<and> ordered discovered_on asc ys
      \<and> (\<forall>l s xs. 0 \<le> l \<longrightarrow> 0 \<le> s \<longrightarrow> FindSorted list_clover t p asc l s db = Some xs \<longrightarrow> xs = take (nat l) (drop (nat s) ys))" for asc
    using listing_sort [OF list_selected [OF d]] ordered_sort by (fastforce simp: list_clover_def)
  show "InsertOne list_clover t e db = Some db' \<Longrightarrow> list_valid db'" for e db'
    using v fresh_id_fresh [of _ "db t"] by (fastforce simp: list_clover_def list_valid_def)
  show "InsertOne list_clover t e db = Some db' \<Longrightarrow>
      \<exists>i. map_of (db t) i = None \<and> map_of (db' t) = (map_of (db t))(i \<mapsto> e)" for e db'
    using fresh_id_new [of "db t"] map_of_snoc [OF fresh_id_new, of "db t" e]
    by (intro exI [of _ "fresh_id (db t)"]) (auto simp: list_clover_def simp del: map_of_append)
  show "InsertOne list_clover t e db = Some db' \<Longrightarrow> u \<noteq> t \<Longrightarrow> map_of (db' u) = map_of (db u)" for e db' u
    by (auto simp: list_clover_def)
  show "DeleteById list_clover t i db = Some db' \<Longrightarrow> list_valid db'" for i db'
    using v by (auto simp: list_clover_def list_valid_def distinct_map_filter split: if_splits)
  show "DeleteById list_clover t i db = Some db' \<Longrightarrow> map_of (db' t) = (map_of (db t))(i := None)" for i db'
    by (auto simp: list_clover_def map_of_delete split: if_splits)
  show "DeleteById list_clover t i db = Some db' \<Longrightarrow> u \<noteq> t \<Longrightarrow> map_of (db' u) = map_of (db u)" for i db' u
    by (auto simp: list_clover_def split: if_splits)
  show "Delete list_clover t db = Some db' \<Longrightarrow> list_valid db'" for db'
    using v by (auto simp: list_clover_def list_valid_def)
  show "Delete list_clover t db = Some db' \<Longrightarrow> map_of (db' t) = Map.empty" for db'
    by (auto simp: list_clover_def)
  show "Delete list_clover t db = Some db' \<Longrightarrow> u \<noteq> t \<Longrightarrow> map_of (db' u) = map_of (db u)" for db' u
    by (auto simp: list_clover_def)
qed

lemma list_never_fails: "never_fails list_clover (\<lambda>t db. map_of (db t))"
  by (auto simp: never_fails_def list_clover_def map_of_eq_None_iff [symmetric] dest!: map_of_SomeD intro: rev_image_eqI)

lemma list_where_ok: "where_ok list_clover"
  by (simp add: where_ok_def list_clover_def)

section \<open>Properties\<close>

lemma or_empty_rows:
  assumes "clover_ok C valid rows" and "never_fails C rows" and "valid db"
  shows "or_empty (FindAll C t p db) \<noteq> [] \<longleftrightarrow> (\<exists>i d. rows t db i = Some d \<and> p d)"
proof -
  obtain xs where xs: "FindAll C t p db = Some xs" using never_failsD(1) [OF assms(2)] by blast
  have "xs = [] \<longleftrightarrow> dom (selected (rows t db) p) = {}" using listing_empty [OF FindAll_lists [OF assms(1,3) xs]] .
  also have "\<dots> \<longleftrightarrow> \<not> (\<exists>i d. rows t db i = Some d \<and> p d)" by (auto simp: selected_Some dom_def)
  finally show ?thesis by (simp add: xs or_empty_def)
qed

lemma InsertMetadata_keeps:
  assumes "clover_ok C valid rows" and "never_fails C rows" and "valid db" and "0 < rc_MaxSavedTorrents cfg"
    and "InsertMetadata C R cfg md db = (True, db')"
  shows "valid db' \<and> (\<exists>i. rows TorrentTable db i = None
    \<and> pruned_to discovered_on (nat (rc_MaxSavedTorrents cfg)) ((rows TorrentTable db)(i \<mapsto> torrent_doc C R md)) (rows TorrentTable db'))"
proof -
  obtain db1 where db1: "InsertOne C TorrentTable (torrent_doc C R md) db = Some db1" "db' = pruneOldTorrents C cfg db1"
    using assms(5) by (auto simp: InsertMetadata_def split: if_splits option.splits)
  obtain i where i: "valid db1" "rows TorrentTable db i = None"
    "rows TorrentTable db1 = (rows TorrentTable db)(i \<mapsto> torrent_doc C R md)"
    by (rule InsertOne_adds [OF assms(1,3) db1(1)]) blast
  from prune_rows [OF assms(1,2) i(1) assms(4)] show ?thesis using i db1(2) by auto
qed

text \<open>Storing a torrent: on a working database \<open>InsertMetadata\<close> refuses exactly the torrents
  the filters reject, a blacklist entry counting when its pattern compiles and matches the
  name or a path, and leaves the database alone then; otherwise the torrent is added under a
  fresh identifier and, with a limit set, the oldest torrents go until the limit holds: no
  more than necessary, and none that was discovered after one that stays.\<close>
theorem insert_filters_and_prunes:
  assumes "clover_ok C valid rows" and "never_fails C rows" and "valid db" and "0 < rc_MaxSavedTorrents cfg"
    and "InsertMetadata C R cfg md db = (accepted, db')"
  shows "(accepted \<longleftrightarrow> (rc_OnlyChineseContent cfg \<longrightarrow> ContainsChineseContent R md)
          \<and> (rc_EnableBlacklist cfg \<longrightarrow> \<not> (\<exists>i d. rows BlacklistTable db i = Some d \<and> blacklist_match R md d)))
    \<and> (\<not> accepted \<longrightarrow> db' = db)
    \<and> (accepted \<longrightarrow> (\<exists>i. rows TorrentTable db i = None
        \<and> pruned_to discovered_on (nat (rc_MaxSavedTorrents cfg)) ((rows TorrentTable db)(i \<mapsto> torrent_doc C R md)) (rows TorrentTable db')))"
proof -
  have black: "IsBlacklisted C R md db \<longleftrightarrow> (\<exists>i d. rows BlacklistTable db i = Some d \<and> blacklist_match R md d)"
    unfolding IsBlacklisted_def by (rule or_empty_rows [OF assms(1-3)])
  obtain db1 where "InsertOne C TorrentTable (torrent_doc C R md) db = Some db1" using never_failsD(4) [OF assms(2)] by blast
  then have "(accepted \<longleftrightarrow> (rc_OnlyChineseContent cfg \<longrightarrow> ContainsChineseContent R md) \<and> (rc_EnableBlacklist cfg \<longrightarrow> \<not> IsBlacklisted C R md db))
    \<and> (\<not> accepted \<longrightarrow> db' = db)"
    using assms(5) by (auto simp: InsertMetadata_def split: if_splits)
  moreover have "accepted \<Longrightarrow> \<exists>i. rows TorrentTable db i = None
        \<and> pruned_to discovered_on (nat (rc_MaxSavedTorrents cfg)) ((rows TorrentTable db)(i \<mapsto> torrent_doc C R md)) (rows TorrentTable db')"
    using InsertMetadata_keeps [OF assms(1-4), of R md db'] assms(5) by simp
  ultimately show ?thesis unfolding black by blast
qed

text \<open>C40. A watch reports the wrong torrent: when a torrent is ingested the notifier gets, for
  every watch entry that any stored torrent matches, a message with the name of the new
  torrent, whether the new one matches or not.\<close>
theorem watch_reports_any_match:
  assumes "clover_ok C valid rows" and "never_fails C rows" and "valid db'"
    and "IngestMetadata C R cfg True md db = (True, db', msgs, shown)"
  shows "msgs = map (watch_message md) (filter (\<lambda>w. \<exists>i d. rows TorrentTable db' i = Some d
      \<and> Matches R d (we_Key w) (we_MatchType w) (we_Content w)) (GetWatchEntries C db'))"
proof -
  have "FindBy C R k m c db' \<noteq> [] \<longleftrightarrow> (\<exists>i d. rows TorrentTable db' i = Some d \<and> Matches R d k m c)" for k m c
    using or_empty_rows [OF assms(1-3), of TorrentTable "\<lambda>d. Matches R d k m c"] by (simp add: FindBy_def Documents2MetaData_def)
  then have "CheckWatches C R True md db' = map (watch_message md) (filter (\<lambda>w. \<exists>i d. rows TorrentTable db' i = Some d
      \<and> Matches R d (we_Key w) (we_MatchType w) (we_Content w)) (GetWatchEntries C db'))"
    by (simp add: CheckWatches_def)
  moreover have "msgs = CheckWatches C R True md db'"
    using assms(4) by (auto simp: IngestMetadata_def split: prod.splits bool.splits)
  ultimately show ?thesis by simp
qed

text \<open>The pages of a search tile its result: consecutive offsets give, one after the other,
  the matching torrents, newest first, none twice and none missing, and the total is their
  number.\<close>
theorem search_pages_tile:
  assumes "clover_ok C valid rows" and "never_fails C rows" and "valid db"
  shows "\<exists>ys. distinct (map fst ys)
    \<and> (\<forall>i d. (i, d) \<in> set ys \<longleftrightarrow> rows TorrentTable db i = Some d \<and> search_match R key searchType searchInput filters d)
    \<and> sorted_wrt (\<lambda>a b. discovered_on (snd b) \<le> discovered_on (snd a)) ys
    \<and> concat (map (\<lambda>k. case Search C R key searchType searchInput (int n) (int (k * n)) filters db of
          Some (page, cnt) \<Rightarrow> page | None \<Rightarrow> []) [0..<m]) = Documents2MetaData R (take (m * n) ys)
    \<and> (\<exists>page. Search C R key searchType searchInput (int n) 0 filters db = Some (page, length ys))"
proof -
  define p where "p = search_match R key searchType searchInput filters"
  obtain ys where ys: "listing (selected (rows TorrentTable db) p) ys" "ordered discovered_on False ys"
    "\<And>l s xs. 0 \<le> l \<Longrightarrow> 0 \<le> s \<Longrightarrow> FindSorted C TorrentTable p False l s db = Some xs \<Longrightarrow> xs = take (nat l) (drop (nat s) ys)"
    using FindSorted_pages [OF assms(1,3), where t = TorrentTable and p = p and asc = False] by auto
  obtain cnt where "Count C TorrentTable p db = Some cnt" using never_failsD(3) [OF assms(2)] by blast
  moreover from this have "cnt = length ys" using Count_card [OF assms(1,3)] listing_card [OF ys(1)] by simp
  ultimately have page: "Search C R key searchType searchInput (int n) (int s) filters db = Some (Documents2MetaData R (take n (drop s ys)), length ys)" for s
    using ys(3) [of "int n" "int s"] never_failsD(2) [OF assms(2), of TorrentTable p False "int n" "int s" db]
    by (auto simp: Search_def Let_def simp flip: p_def)
  have "concat (map (\<lambda>k. Documents2MetaData R (take n (drop (k * n) ys))) [0..<m]) = Documents2MetaData R (take (m * n) ys)"
    by (simp add: Documents_concat concat_pages)
  then show ?thesis
    using ys listing_mem [OF ys(1)]
    by (intro exI [of _ ys]) (auto simp: page page [of 0, simplified] listing_def ordered_def selected_Some p_def simp del: of_nat_mult)
qed

text \<open>A database with an old torrent, a blacklist entry and a watch for \<open>alpha\<close>.\<close>

definition plain_rules :: Rules where
  "plain_rules = \<lparr>lower = ToLower, date = (\<lambda>_. None), han = (\<lambda>_. False), regex = (\<lambda>s. Some (\<lambda>t. s = t)), map_order = (\<lambda>x. x), rfc822 = (\<lambda>_. '''')\<rparr>"

definition named :: "string \<Rightarrow> int \<Rightarrow> Metadata" where
  "named n t = \<lparr>md_InfoHash = [], md_Family = 4, md_Name = n, md_TotalSize = 1, md_DiscoveredOn = t, md_Files = []\<rparr>"

definition sample_db :: list_db where
  "sample_db t =
    (case t of
       TorrentTable \<Rightarrow> [(''a'', torrent_doc list_clover plain_rules (named ''alpha'' 5))]
     | WatchTable \<Rightarrow> [(''w'', [''Key'' \<mapsto> DStr ''Name'', ''MatchType'' \<mapsto> DStr ''equals'', ''Content'' \<mapsto> DStr ''alpha''])]
     | StatsTable \<Rightarrow> []
     | BlacklistTable \<Rightarrow> [(''b'', [''Filter'' \<mapsto> DStr ''beta'', ''Type'' \<mapsto> DStr ''0''])])"

definition sample_config :: RepoConfig where
  "sample_config = \<lparr>rc_OnlyChineseContent = False, rc_EnableBlacklist = True, rc_MaxSavedTorrents = 1\<rparr>"

definition no_filters :: SearchFilters where
  "no_filters = \<lparr>MinSize = 0, MaxSize = 0, StartDate = 0, EndDate = 0\<rparr>"

lemma sample_valid: "list_valid sample_db"
  by (simp add: list_valid_def sample_db_def split: table.split)

lemma sample_insert:
  "fst (InsertMetadata list_clover plain_rules sample_config (named ''gamma'' 9) sample_db)"
  "\<not> fst (InsertMetadata list_clover plain_rules sample_config (named ''beta'' 9) sample_db)"
  by (simp_all add: InsertMetadata_def sample_config_def IsBlacklisted_def list_clover_def sample_db_def or_empty_def
      blacklist_match_def plain_rules_def doc_text_def doc_string_def named_def Let_def)

theorem insert_filters_and_prunes_witness:
  "(\<exists>i. map_of (sample_db TorrentTable) i = None
     \<and> pruned_to discovered_on 1 ((map_of (sample_db TorrentTable))(i \<mapsto> torrent_doc list_clover plain_rules (named ''gamma'' 9)))
         (map_of (snd (InsertMetadata list_clover plain_rules sample_config (named ''gamma'' 9) sample_db) TorrentTable)))
   \<and> snd (InsertMetadata list_clover plain_rules sample_config (named ''beta'' 9) sample_db) = sample_db"
  using insert_filters_and_prunes [OF list_clover_ok list_never_fails, where db = sample_db and cfg = sample_config and R = plain_rules
        and md = "named ''gamma'' 9", OF sample_valid _ prod.collapse [symmetric]]
    insert_filters_and_prunes [OF list_clover_ok list_never_fails, where db = sample_db and cfg = sample_config and R = plain_rules
        and md = "named ''beta'' 9", OF sample_valid _ prod.collapse [symmetric]]
    sample_insert
  by (simp add: sample_config_def)

lemma sample_ingest:
  "IngestMetadata list_clover plain_rules (sample_config\<lparr>rc_MaxSavedTorrents := 0\<rparr>) True (named ''gamma'' 9) sample_db =
    (let db' = sample_db(TorrentTable := sample_db TorrentTable @ [(''xx'', torrent_doc list_clover plain_rules (named ''gamma'' 9))])
     in (True, db', CheckWatches list_clover plain_rules True (named ''gamma'' 9) db', [named ''gamma'' 9]))"
  by (simp add: IngestMetadata_def InsertMetadata_def sample_config_def IsBlacklisted_def list_clover_def sample_db_def or_empty_def
      blacklist_match_def plain_rules_def doc_text_def doc_string_def named_def pruneOldTorrents_def fresh_id_def Let_def numeral_2_eq_2)

lemma sample_matches:
  "Matches plain_rules (torrent_doc list_clover plain_rules (named n t)) ''Name'' ''equals'' ''alpha'' \<longleftrightarrow> ToLower n = ToLower ''alpha''"
  by (simp add: Matches_def matches_key_def torrent_doc_def MatchString_def plain_rules_def named_def doc_text_def doc_string_def)

lemma sample_names: "ToLower ''gamma'' \<noteq> ToLower ''alpha''"
  by code_simp

theorem watch_reports_any_match_witness:
  "\<exists>db' shown. IngestMetadata list_clover plain_rules (sample_config\<lparr>rc_MaxSavedTorrents := 0\<rparr>) True (named ''gamma'' 9) sample_db
      = (True, db', [watch_message (named ''gamma'' 9) \<lparr>we_Id = ''w'', we_Key = ''Name'', we_MatchType = ''equals'', we_Content = ''alpha''\<rparr>], shown)
    \<and> \<not> Matches plain_rules (torrent_doc list_clover plain_rules (named ''gamma'' 9)) ''Name'' ''equals'' ''alpha''"
proof -
  define db' where "db' = sample_db(TorrentTable := sample_db TorrentTable @ [(''xx'', torrent_doc list_clover plain_rules (named ''gamma'' 9))])"
  have run: "IngestMetadata list_clover plain_rules (sample_config\<lparr>rc_MaxSavedTorrents := 0\<rparr>) True (named ''gamma'' 9) sample_db =
      (True, db', CheckWatches list_clover plain_rules True (named ''gamma'' 9) db', [named ''gamma'' 9])"
    unfolding db'_def by (rule sample_ingest [unfolded Let_def])
  have "list_valid db'" by (simp add: list_valid_def db'_def sample_db_def split: table.split)
  note msgs = watch_reports_any_match [OF list_clover_ok list_never_fails, where db' = db', OF this run]
  have "map_of (db' TorrentTable) ''a'' = Some (torrent_doc list_clover plain_rules (named ''alpha'' 5))"
    by (simp add: db'_def sample_db_def)
  moreover have "GetWatchEntries list_clover db' = [\<lparr>we_Id = ''w'', we_Key = ''Name'', we_MatchType = ''equals'', we_Content = ''alpha''\<rparr>]"
    by (simp add: GetWatchEntries_def list_clover_def or_empty_def db'_def sample_db_def doc_text_def doc_string_def)
  ultimately have "CheckWatches list_clover plain_rules True (named ''gamma'' 9) db' =
      [watch_message (named ''gamma'' 9) \<lparr>we_Id = ''w'', we_Key = ''Name'', we_MatchType = ''equals'', we_Content = ''alpha''\<rparr>]"
    using msgs sample_matches by auto
  then show ?thesis using run sample_matches sample_names by auto
qed

theorem search_pages_tile_witness:
  "\<exists>ys. concat (map (\<lambda>k. case Search list_clover plain_rules ''Name'' ''contains'' ''a'' (int 10) (int (k * 10)) no_filters sample_db of
          Some (page, cnt) \<Rightarrow> page | None \<Rightarrow> []) [0..<2]) = Documents2MetaData plain_rules (take (2 * 10) ys)
    \<and> (\<forall>i d. (i, d) \<in> set ys \<longleftrightarrow> map_of (sample_db TorrentTable) i = Some d \<and> search_match plain_rules ''Name'' ''contains'' ''a'' no_filters d)"
  using search_pages_tile [OF list_clover_ok list_never_fails, where db = sample_db, OF sample_valid,
      of plain_rules "''Name''" "''contains''" "''a''" no_filters 10 2] by blast

end
