(* ===== verification/Downloader.thy ===== *)
theory Downloader
  imports Prelude
begin

text \<open>
  The connectors to torrent clients, \<open>downloader/downloader.go\<close>, and the connection test of
  \<open>ui/downloader.go\<close>: Transmission with its session handshake, Aria2, Deluge and qBittorrent.
  A server outside is a function from its state and a request to an answer, \<open>None\<close> when the
  request fails, and a new state; every request is logged. \<open>parses\<close> says which URLs
  \<open>http.NewRequest\<close> accepts, and \<open>Decoders\<close> read the JSON of an answer.
\<close>

section \<open>Requests and answers\<close>

datatype Json = JStr string | JNum int | JList "Json list" | JObj "(string \<times> Json) list"

datatype Body = NoBody | JsonBody Json | FormBody "(string \<times> string) list"

record HttpRequest =
  hr_method :: string
  hr_url :: string
  hr_auth :: "(string \<times> string) option"
  hr_session :: string
  hr_cookies :: "(string \<times> string) list"
  hr_body :: Body

record HttpResponse =
  hs_status :: int
  hs_session :: string
  hs_cookies :: "(string \<times> string) list"
  hs_body :: string

text \<open>
  \<open>aria2_error\<close>: the raw \<open>error\<close> member of an Aria2 answer, empty when absent; \<open>deluge_login\<close>: the
  members \<open>result\<close> and \<open>error\<close> of the answer to a Deluge login. \<open>None\<close>: not decodable.
\<close>

record Decoders =
  parses :: "string \<Rightarrow> bool"
  aria2_error :: "string \<Rightarrow> string option"
  deluge_login :: "string \<Rightarrow> (bool \<times> string) option"

datatype dl_error =
    BadURL
  | NoAnswer
  | Status int
  | NoSession
  | InvalidAnswer
  | RpcError string
  | AuthenticationFailed
  | UnsupportedDownloader string

type_synonym 's server = "'s \<Rightarrow> HttpRequest \<Rightarrow> HttpResponse option \<times> 's"
type_synonym 's net = "'s \<times> HttpRequest list"

definition exchange :: "'s server \<Rightarrow> HttpRequest \<Rightarrow> 's net \<Rightarrow> HttpResponse option \<times> 's net" where
  "exchange srv req net = (case srv (fst net) req of (resp, s') \<Rightarrow> (resp, s', snd net @ [req]))"

section \<open>Transmission\<close>

record TransmissionClient =
  tc_URL :: string
  tc_User :: string
  tc_Pass :: string
  tc_SessionID :: string

definition transmission_request :: "TransmissionClient \<Rightarrow> Json \<Rightarrow> HttpRequest" where
  "transmission_request c payload =
    \<lparr>hr_method = ''POST'', hr_url = tc_URL c, hr_auth = (if tc_User c \<noteq> '''' then Some (tc_User c, tc_Pass c) else None),
     hr_session = tc_SessionID c, hr_cookies = [], hr_body = JsonBody payload\<rparr>"

text \<open>\<open>for range 2\<close> of \<open>call\<close>; \<open>n\<close> counts the rounds left, a conflict goes on with the session of the answer.\<close>

fun transmission_loop ::
  "'s server \<Rightarrow> Decoders \<Rightarrow> nat \<Rightarrow> Json \<Rightarrow> TransmissionClient \<Rightarrow> 's net \<Rightarrow> (dl_error + unit) \<times> TransmissionClient \<times> 's net" where
  "transmission_loop srv D 0 payload c net = (Inl NoSession, c, net)"
| "transmission_loop srv D (Suc n) payload c net =
     (if \<not> parses D (tc_URL c) then (Inl BadURL, c, net)
      else case exchange srv (transmission_request c payload) net of
        (None, net') \<Rightarrow> (Inl NoAnswer, c, net')
      | (Some resp, net') \<Rightarrow>
          if hs_status resp = 409 then transmission_loop srv D n payload (c\<lparr>tc_SessionID := hs_session resp\<rparr>) net'
          else if hs_status resp \<noteq> 200 then (Inl (Status (hs_status resp)), c, net')
          else (Inr (), c, net'))"

definition transmission_call ::
  "'s server \<Rightarrow> Decoders \<Rightarrow> Json \<Rightarrow> TransmissionClient \<Rightarrow> 's net \<Rightarrow> (dl_error + unit) \<times> TransmissionClient \<times> 's net" where
  "transmission_call srv D = transmission_loop srv D 2"

definition session_get :: Json where
  "session_get = JObj [(''method'', JStr ''session-get'')]"

definition torrent_add :: "string \<Rightarrow> Json" where
  "torrent_add magnet = JObj [(''method'', JStr ''torrent-add''), (''arguments'', JObj [(''filename'', JStr magnet)])]"

definition Transmission_TestConnection where
  "Transmission_TestConnection srv D = transmission_call srv D session_get"

definition Transmission_AddMagnet where
  "Transmission_AddMagnet srv D magnet = transmission_call srv D (torrent_add magnet)"

section \<open>Aria2\<close>

record Aria2Client =
  ar_URL :: string
  ar_Token :: string

definition post_json :: "string \<Rightarrow> Json \<Rightarrow> HttpRequest" where
  "post_json url payload =
    \<lparr>hr_method = ''POST'', hr_url = url, hr_auth = None, hr_session = '''', hr_cookies = [], hr_body = JsonBody payload\<rparr>"

definition aria2_payload :: "Aria2Client \<Rightarrow> string \<Rightarrow> Json list \<Rightarrow> Json" where
  "aria2_payload c method methodParams =
    JObj [(''jsonrpc'', JStr ''2.0''), (''id'', JStr ''dhtc''), (''method'', JStr method),
          (''params'', JList ((if ar_Token c \<noteq> '''' then [JStr (''token:'' @ ar_Token c)] else []) @ methodParams))]"

definition aria2_call :: "'s server \<Rightarrow> Decoders \<Rightarrow> string \<Rightarrow> Json list \<Rightarrow> Aria2Client \<Rightarrow> 's net \<Rightarrow> (dl_error + unit) \<times> 's net" where
  "aria2_call srv D method methodParams c net =
    (if \<not> parses D (ar_URL c) then (Inl BadURL, net)
     else case exchange srv (post_json (ar_URL c) (aria2_payload c method methodParams)) net of
       (None, net') \<Rightarrow> (Inl NoAnswer, net')
     | (Some resp, net') \<Rightarrow>
         if hs_status resp \<noteq> 200 then (Inl (Status (hs_status resp)), net')
         else case aria2_error D (hs_body resp) of
           None \<Rightarrow> (Inl InvalidAnswer, net')
         | Some e \<Rightarrow> if e \<noteq> '''' \<and> e \<noteq> ''null'' then (Inl (RpcError e), net') else (Inr (), net'))"

definition Aria2_TestConnection where
  "Aria2_TestConnection srv D = aria2_call srv D ''aria2.getVersion'' []"

definition Aria2_AddMagnet where
  "Aria2_AddMagnet srv D magnet = aria2_call srv D ''aria2.addUri'' [JList [JStr magnet]]"

section \<open>Deluge\<close>

record DelugeClient =
  de_URL :: string
  de_Pass :: string

definition deluge_login_call ::
  "'s server \<Rightarrow> Decoders \<Rightarrow> DelugeClient \<Rightarrow> 's net \<Rightarrow> (dl_error + (string \<times> string) list) \<times> 's net" where
  "deluge_login_call srv D c net =
    (let payload = JObj [(''id'', JNum 1), (''method'', JStr ''auth.login''), (''params'', JList [JStr (de_Pass c)])] in
     if \<not> parses D (de_URL c) then (Inl BadURL, net)
     else case exchange srv (post_json (de_URL c) payload) net of
       (None, net') \<Rightarrow> (Inl NoAnswer, net')
     | (Some resp, net') \<Rightarrow>
         if hs_status resp \<noteq> 200 then (Inl (Status (hs_status resp)), net')
         else case deluge_login D (hs_body resp) of
           None \<Rightarrow> (Inl InvalidAnswer, net')
         | Some (result, e) \<Rightarrow>
             if e \<noteq> '''' \<and> e \<noteq> ''null'' then (Inl (RpcError e), net')
             else if \<not> result then (Inl AuthenticationFailed, net')
             else (Inr (filter (\<lambda>(n, v). n = ''_session_id'') (hs_cookies resp)), net'))"

definition Deluge_TestConnection :: "'s server \<Rightarrow> Decoders \<Rightarrow> DelugeClient \<Rightarrow> 's net \<Rightarrow> (dl_error + unit) \<times> 's net" where
  "Deluge_TestConnection srv D c net =
    (case deluge_login_call srv D c net of (Inl e, net') \<Rightarrow> (Inl e, net') | (Inr cookies, net') \<Rightarrow> (Inr (), net'))"

definition deluge_add :: "DelugeClient \<Rightarrow> (string \<times> string) list \<Rightarrow> string \<Rightarrow> HttpRequest" where
  "deluge_add c cookies magnet =
    (post_json (de_URL c) (JObj [(''id'', JNum 2), (''method'', JStr ''core.add_torrent_magnet''),
       (''params'', JList [JStr magnet, JObj []])]))\<lparr>hr_cookies := cookies\<rparr>"

definition Deluge_AddMagnet :: "'s server \<Rightarrow> Decoders \<Rightarrow> string \<Rightarrow> DelugeClient \<Rightarrow> 's net \<Rightarrow> (dl_error + unit) \<times> 's net" where
  "Deluge_AddMagnet srv D magnet c net =
    (case deluge_login_call srv D c net of
       (Inl e, net1) \<Rightarrow> (Inl e, net1)
     | (Inr cookies, net1) \<Rightarrow>
         if \<not> parses D (de_URL c) then (Inl BadURL, net1)
         else case exchange srv (deluge_add c cookies magnet) net1 of
           (None, net2) \<Rightarrow> (Inl NoAnswer, net2)
         | (Some resp, net2) \<Rightarrow>
             if hs_status resp \<noteq> 200 then (Inl (Status (hs_status resp)), net2) else (Inr (), net2))"

section \<open>qBittorrent\<close>

record QBittorrentClient =
  qb_URL :: string
  qb_User :: string
  qb_Pass :: string

definition trim_slashes :: "string \<Rightarrow> string" where
  "trim_slashes s = rev (dropWhile (\<lambda>c. c = CHR ''/'') (rev s))"

definition qb_request :: "string \<Rightarrow> string \<Rightarrow> (string \<times> string) list \<Rightarrow> Body \<Rightarrow> HttpRequest" where
  "qb_request method url cookies body =
    \<lparr>hr_method = method, hr_url = url, hr_auth = None, hr_session = '''', hr_cookies = cookies, hr_body = body\<rparr>"

definition qb_login :: "'s server \<Rightarrow> Decoders \<Rightarrow> QBittorrentClient \<Rightarrow> 's net \<Rightarrow> (dl_error + (string \<times> string) list) \<times> 's net" where
  "qb_login srv D c net =
    (let url = trim_slashes (qb_URL c) @ ''/api/v2/auth/login'' in
     if \<not> parses D url then (Inl BadURL, net)
     else case exchange srv (qb_request ''POST'' url [] (FormBody [(''password'', qb_Pass c), (''username'', qb_User c)])) net of
       (None, net') \<Rightarrow> (Inl NoAnswer, net')
     | (Some resp, net') \<Rightarrow>
         if hs_status resp \<noteq> 200 \<or> TrimSpace (take 1024 (hs_body resp)) \<noteq> ''Ok.'' then (Inl AuthenticationFailed, net')
         else let cookies = filter (\<lambda>(n, v). n = ''SID'') (hs_cookies resp)
              in if cookies = [] then (Inl NoSession, net') else (Inr cookies, net'))"

definition qb_call :: "'s server \<Rightarrow> Decoders \<Rightarrow> string \<Rightarrow> string \<Rightarrow> Body \<Rightarrow> QBittorrentClient \<Rightarrow> 's net \<Rightarrow> (dl_error + unit) \<times> 's net" where
  "qb_call srv D method path body c net =
    (case qb_login srv D c net of
       (Inl e, net1) \<Rightarrow> (Inl e, net1)
     | (Inr cookies, net1) \<Rightarrow>
         let url = trim_slashes (qb_URL c) @ path in
         if \<not> parses D url then (Inl BadURL, net1)
         else case exchange srv (qb_request method url cookies body) net1 of
           (None, net2) \<Rightarrow> (Inl NoAnswer, net2)
         | (Some resp, net2) \<Rightarrow>
             if hs_status resp \<noteq> 200 then (Inl (Status (hs_status resp)), net2) else (Inr (), net2))"

definition QBittorrent_TestConnection where
  "QBittorrent_TestConnection srv D = qb_call srv D ''GET'' ''/api/v2/app/version'' NoBody"

definition QBittorrent_AddMagnet where
  "QBittorrent_AddMagnet srv D magnet = qb_call srv D ''POST'' ''/api/v2/torrents/add'' (FormBody [(''urls'', magnet)])"

section \<open>The connection test\<close>

text \<open>
  \<open>testConfiguredDownloaders\<close> of \<open>ui/downloader.go\<close>: the configured clients are tested in a fixed
  order up to the first failure. A client is configured when its URL is not blank.
\<close>

record Downloaders =
  dl_transmission :: TransmissionClient
  dl_aria2 :: Aria2Client
  dl_deluge :: DelugeClient
  dl_qbittorrent :: QBittorrentClient

definition configuredDownloaderURL :: "Downloaders \<Rightarrow> string \<Rightarrow> string" where
  "configuredDownloaderURL cfg name =
    (if name = ''transmission'' then tc_URL (dl_transmission cfg)
     else if name = ''aria2'' then ar_URL (dl_aria2 cfg)
     else if name = ''deluge'' then de_URL (dl_deluge cfg)
     else if name = ''qbittorrent'' then qb_URL (dl_qbittorrent cfg)
     else '''')"

text \<open>A new client of the configuration, without a Transmission session, and its connection test.\<close>

definition downloaderClient_test :: "'s server \<Rightarrow> Decoders \<Rightarrow> Downloaders \<Rightarrow> string \<Rightarrow> 's net \<Rightarrow> (dl_error + unit) \<times> 's net" where
  "downloaderClient_test srv D cfg name net =
    (if name = ''transmission''
     then (case Transmission_TestConnection srv D ((dl_transmission cfg)\<lparr>tc_SessionID := ''''\<rparr>) net of (r, _, net') \<Rightarrow> (r, net'))
     else if name = ''aria2'' then Aria2_TestConnection srv D (dl_aria2 cfg) net
     else if name = ''deluge'' then Deluge_TestConnection srv D (dl_deluge cfg) net
     else if name = ''qbittorrent'' then QBittorrent_TestConnection srv D (dl_qbittorrent cfg) net
     else (Inl (UnsupportedDownloader name), net))"

fun test_downloaders :: "'s server \<Rightarrow> Decoders \<Rightarrow> Downloaders \<Rightarrow> string list \<Rightarrow> 's net \<Rightarrow> ((string \<times> dl_error) + unit) \<times> 's net" where
  "test_downloaders srv D cfg [] net = (Inr (), net)"
| "test_downloaders srv D cfg (name # names) net =
     (if TrimSpace (configuredDownloaderURL cfg name) = '''' then test_downloaders srv D cfg names net
      else case downloaderClient_test srv D cfg name net of
        (Inl e, net') \<Rightarrow> (Inl (name, e), net')
      | (Inr _, net') \<Rightarrow> test_downloaders srv D cfg names net')"

definition testConfiguredDownloaders ::
  "'s server \<Rightarrow> Decoders \<Rightarrow> Downloaders \<Rightarrow> 's net \<Rightarrow> ((string \<times> dl_error) + unit) \<times> 's net" where
  "testConfiguredDownloaders srv D cfg = test_downloaders srv D cfg [''transmission'', ''aria2'', ''deluge'', ''qbittorrent'']"

section \<open>Properties\<close>

text \<open>Whatever the server does, a call sends at most as many requests as it has rounds, all with its payload.\<close>

lemma transmission_requests:
  "transmission_loop srv D n payload c net = (r, c', net') \<Longrightarrow>
    \<exists>reqs. snd net' = snd net @ reqs \<and> length reqs \<le> n \<and> (\<forall>q \<in> set reqs. hr_body q = JsonBody payload)"
proof (induction n arbitrary: c net)
  case (Suc n)
  show ?case
  proof (cases "parses D (tc_URL c)")
    case True
    obtain resp s' where srv: "srv (fst net) (transmission_request c payload) = (resp, s')" by fastforce
    have body: "hr_body (transmission_request c payload) = JsonBody payload" by (simp add: transmission_request_def)
    show ?thesis
    proof (cases "\<exists>a. resp = Some a \<and> hs_status a = 409")
      case True
      then obtain a where a: "resp = Some a" "hs_status a = 409" by blast
      then have "transmission_loop srv D n payload (c\<lparr>tc_SessionID := hs_session a\<rparr>)
          (s', snd net @ [transmission_request c payload]) = (r, c', net')"
        using Suc.prems srv \<open>parses D (tc_URL c)\<close> by (simp add: exchange_def)
      from Suc.IH [OF this] obtain reqs where "snd net' = snd net @ transmission_request c payload # reqs"
        "length reqs \<le> n" "\<forall>q \<in> set reqs. hr_body q = JsonBody payload" by auto
      then show ?thesis using body by (intro exI [of _ "transmission_request c payload # reqs"]) auto
    next
      case False
      then have "snd net' = snd net @ [transmission_request c payload]"
        using Suc.prems srv \<open>parses D (tc_URL c)\<close> by (auto simp: exchange_def split: option.splits if_splits)
      then show ?thesis using body by auto
    qed
  qed (use Suc.prems in auto)
qed simp

definition speaks_transmission :: "'s server \<Rightarrow> string \<Rightarrow> bool" where
  "speaks_transmission srv sid \<longleftrightarrow> (\<forall>s q. \<exists>resp s'. srv s q = (Some resp, s')
     \<and> (if hr_session q = sid then hs_status resp = 200 else hs_status resp = 409 \<and> hs_session resp = sid))"

text \<open>The session handshake with Transmission: a server that answers a request without its
  current session by a conflict naming the session, as Transmission does, is called
  successfully whatever session the client remembers, with one request when the session is
  right and two otherwise, the last of which carries payload and session; the client then
  remembers the session.\<close>
theorem transmission_session:
  assumes "parses D (tc_URL c)" and "speaks_transmission srv sid"
  shows "\<exists>s'. transmission_call srv D payload c net = (Inr (), c\<lparr>tc_SessionID := sid\<rparr>, s', snd net @
      (if tc_SessionID c = sid then [transmission_request c payload]
       else [transmission_request c payload, transmission_request (c\<lparr>tc_SessionID := sid\<rparr>) payload]))"
proof -
  have session: "hr_session (transmission_request d payload) = tc_SessionID d" for d :: TransmissionClient
    by (simp add: transmission_request_def)
  have ok: "\<exists>resp s'. srv s (transmission_request d payload) = (Some resp, s')
      \<and> (if tc_SessionID d = sid then hs_status resp = 200 else hs_status resp = 409 \<and> hs_session resp = sid)"
    for s and d :: TransmissionClient
    using assms(2) unfolding speaks_transmission_def session [of d, symmetric] by blast
  obtain a s1 where a: "srv (fst net) (transmission_request c payload) = (Some a, s1)"
    "if tc_SessionID c = sid then hs_status a = 200 else hs_status a = 409 \<and> hs_session a = sid"
    using ok by blast
  obtain b s2 where b: "srv s1 (transmission_request (c\<lparr>tc_SessionID := sid\<rparr>) payload) = (Some b, s2)" "hs_status b = 200"
    using ok [of s1 "c\<lparr>tc_SessionID := sid\<rparr>"] by auto
  show ?thesis
  proof (cases "tc_SessionID c = sid")
    case True
    then show ?thesis using a assms(1) by (simp add: transmission_call_def numeral_2_eq_2 exchange_def)
  next
    case False
    then show ?thesis using a b assms(1) by (simp add: transmission_call_def numeral_2_eq_2 exchange_def)
  qed
qed

definition session_server :: "unit server" where
  "session_server s q =
    (Some \<lparr>hs_status = (if hr_session q = ''abc'' then 200 else 409), hs_session = ''abc'', hs_cookies = [], hs_body = ''''\<rparr>, s)"

definition plain_decoders :: Decoders where
  "plain_decoders = \<lparr>parses = (\<lambda>_. True), aria2_error = (\<lambda>_. Some ''''), deluge_login = (\<lambda>_. Some (True, ''''))\<rparr>"

definition sample_client :: TransmissionClient where
  "sample_client = \<lparr>tc_URL = ''http://localhost:9091'', tc_User = '''', tc_Pass = '''', tc_SessionID = ''old''\<rparr>"

theorem transmission_session_witness:
  "\<exists>s'. transmission_call session_server plain_decoders (torrent_add ''magnet:x'') sample_client ((), [])
    = (Inr (), sample_client\<lparr>tc_SessionID := ''abc''\<rparr>, s',
       [transmission_request sample_client (torrent_add ''magnet:x''),
        transmission_request (sample_client\<lparr>tc_SessionID := ''abc''\<rparr>) (torrent_add ''magnet:x'')])"
  using transmission_session [where srv = session_server and D = plain_decoders and c = sample_client and sid = "''abc''"
      and payload = "torrent_add ''magnet:x''" and net = "((), [])"]
  by (simp add: plain_decoders_def speaks_transmission_def session_server_def sample_client_def)

text \<open>
  Deluge answers a refused command with status 200 and an \<open>error\<close> member; \<open>AddMagnet\<close> of Deluge
  looks at the status only, whereas Aria2's reports such an error.
\<close>

theorem deluge_add_errors_unseen:
  assumes "deluge_login_call srv D c net = (Inr cookies, net1)" and "parses D (de_URL c)"
    and "srv (fst net1) (deluge_add c cookies magnet) = (Some resp, s')" and "hs_status resp = 200"
  shows "fst (Deluge_AddMagnet srv D magnet c net) = Inr ()"
  using assms by (simp add: Deluge_AddMagnet_def exchange_def)

lemma aria2_add_errors_reported:
  assumes "parses D (ar_URL c)" and "srv (fst net) (post_json (ar_URL c) (aria2_payload c ''aria2.addUri'' [JList [JStr magnet]])) = (Some resp, s')"
    and "hs_status resp = 200" and "aria2_error D (hs_body resp) = Some e" and "e \<noteq> ''''" and "e \<noteq> ''null''"
  shows "fst (Aria2_AddMagnet srv D magnet c net) = Inl (RpcError e)"
  using assms by (simp add: Aria2_AddMagnet_def aria2_call_def exchange_def)

text \<open>Every request qBittorrent gets after the login carries the session cookies of the login, and there is one.\<close>

lemma qb_login_cookies:
  assumes "qb_login srv D c net = (Inr cookies, net1)"
  shows "cookies \<noteq> [] \<and> (\<forall>(n, v) \<in> set cookies. n = ''SID'')"
  using assms by (auto simp: qb_login_def Let_def split: if_splits option.splits prod.splits)

end
