(* ===== verification/Hub.thy ===== *)
theory Hub
  imports Worker_Queue Hex
begin

text \<open>
  The hub of the live feed, \<open>ui/hub.go\<close>: one goroutine takes registrations, removals and
  messages from three channels and keeps the set of open websocket connections. A connection
  is a number; which of them fail to take a message, and the order in which a Go map is
  walked, are arguments. \<open>sent\<close> logs the messages each connection took and \<open>closed\<close> the calls of
  \<open>Close\<close>.
\<close>

record Hub =
  clients :: "nat list"
  hub_sent :: "(nat \<times> bytes) list"
  hub_closed :: "nat list"

definition NewHub :: Hub where
  "NewHub = \<lparr>clients = [], hub_sent = [], hub_closed = []\<rparr>"

definition hub_register :: "nat \<Rightarrow> Hub \<Rightarrow> Hub" where
  "hub_register client h = (if client \<in> set (clients h) then h else h\<lparr>clients := clients h @ [client]\<rparr>)"

definition hub_unregister :: "nat \<Rightarrow> Hub \<Rightarrow> Hub" where
  "hub_unregister client h =
    (if client \<in> set (clients h)
     then h\<lparr>clients := removeAll client (clients h), hub_closed := hub_closed h @ [client]\<rparr>
     else h)"

text \<open>\<open>for client := range h.clients\<close> over the clients in some order.\<close>

fun hub_write :: "(nat \<Rightarrow> bool) \<Rightarrow> bytes \<Rightarrow> nat list \<Rightarrow> Hub \<Rightarrow> Hub" where
  "hub_write fails message [] h = h"
| "hub_write fails message (client # rest) h =
     hub_write fails message rest
       (if fails client
        then h\<lparr>hub_closed := hub_closed h @ [client], clients := removeAll client (clients h)\<rparr>
        else h\<lparr>hub_sent := hub_sent h @ [(client, message)]\<rparr>)"

definition hub_broadcast :: "(nat list \<Rightarrow> nat list) \<Rightarrow> (nat \<Rightarrow> bool) \<Rightarrow> bytes \<Rightarrow> Hub \<Rightarrow> Hub" where
  "hub_broadcast order fails message h = hub_write fails message (order (clients h)) h"

text \<open>\<open>Broadcast\<close> drops a value that cannot be marshalled.\<close>

definition Broadcast :: "(nat list \<Rightarrow> nat list) \<Rightarrow> (nat \<Rightarrow> bool) \<Rightarrow> bytes option \<Rightarrow> Hub \<Rightarrow> Hub" where
  "Broadcast order fails marshalled h =
    (case marshalled of None \<Rightarrow> h | Some message \<Rightarrow> hub_broadcast order fails message h)"

datatype hub_event =
    HubRegister nat
  | HubUnregister nat
  | HubBroadcast "nat list \<Rightarrow> nat list" "nat \<Rightarrow> bool" "bytes option"

fun hub_step :: "Hub \<Rightarrow> hub_event \<Rightarrow> Hub" where
  "hub_step h (HubRegister c) = hub_register c h"
| "hub_step h (HubUnregister c) = hub_unregister c h"
| "hub_step h (HubBroadcast order fails msg) = Broadcast order fails msg h"

text \<open>A connection registers once, when it is made; maps are walked completely, each entry once.\<close>

fun usual :: "nat set \<Rightarrow> hub_event list \<Rightarrow> bool" where
  "usual known [] = True"
| "usual known (HubRegister c # es) = (c \<notin> known \<and> usual (insert c known) es)"
| "usual known (HubUnregister c # es) = usual known es"
| "usual known (HubBroadcast order fails msg # es) = ((\<forall>xs. mset (order xs) = mset xs) \<and> usual known es)"

definition hub_inv :: "nat set \<Rightarrow> Hub \<Rightarrow> bool" where
  "hub_inv known h \<longleftrightarrow> distinct (clients h @ hub_closed h) \<and> set (clients h) \<union> set (hub_closed h) \<subseteq> known"

lemma hub_write_eq:
  "distinct xs \<Longrightarrow>
    hub_write fails msg xs h = h\<lparr>clients := filter (\<lambda>c. \<not> (fails c \<and> c \<in> set xs)) (clients h),
      hub_sent := hub_sent h @ map (\<lambda>c. (c, msg)) (filter (\<lambda>c. \<not> fails c) xs),
      hub_closed := hub_closed h @ filter fails xs\<rparr>"
proof (induction xs arbitrary: h)
  case (Cons x xs)
  have "filter (\<lambda>c. \<not> (fails c \<and> c \<in> set xs)) (removeAll x ys) = filter (\<lambda>c. \<not> (fails c \<and> c \<in> set (x # xs))) ys" if "fails x" for ys
    using that by (induction ys) auto
  moreover have "filter (\<lambda>c. \<not> (fails c \<and> c \<in> set xs)) ys = filter (\<lambda>c. \<not> (fails c \<and> c \<in> set (x # xs))) ys" if "\<not> fails x" for ys
    using that by (intro filter_cong) auto
  ultimately show ?case using Cons by (cases "fails x") simp_all
qed simp

text \<open>What a broadcast does to a hub whose clients are distinct.\<close>

lemma hub_broadcast_eq:
  assumes "distinct (clients h)" and "mset (order (clients h)) = mset (clients h)"
  shows "hub_broadcast order fails msg h = h\<lparr>clients := filter (\<lambda>c. \<not> fails c) (clients h),
      hub_sent := hub_sent h @ map (\<lambda>c. (c, msg)) (filter (\<lambda>c. \<not> fails c) (order (clients h))),
      hub_closed := hub_closed h @ filter fails (order (clients h))\<rparr>"
proof -
  have d: "distinct (order (clients h))" and s: "set (order (clients h)) = set (clients h)"
    using assms mset_eq_imp_distinct_iff mset_eq_setD by blast+
  have "filter (\<lambda>c. \<not> (fails c \<and> c \<in> set (order (clients h)))) (clients h) = filter (\<lambda>c. \<not> fails c) (clients h)"
    by (intro filter_cong) (auto simp: s)
  then show ?thesis using hub_write_eq [OF d] by (simp add: hub_broadcast_def)
qed

lemma hub_broadcast_inv:
  assumes "hub_inv known h" and "\<forall>xs. mset (order xs) = mset xs"
  shows "hub_inv known (hub_broadcast order fails msg h)"
proof -
  have d: "distinct (clients h)" and m: "mset (order (clients h)) = mset (clients h)" using assms by (auto simp: hub_inv_def)
  then have s: "set (order (clients h)) = set (clients h)" and "distinct (order (clients h))"
    using mset_eq_setD mset_eq_imp_distinct_iff by blast+
  then show ?thesis using assms(1) by (auto simp: hub_broadcast_eq [where order = order, OF d m] hub_inv_def)
qed

lemma hub_run:
  "hub_inv known h \<Longrightarrow> usual known es \<Longrightarrow> \<exists>known'. hub_inv known' (foldl hub_step h es)"
proof (induction es arbitrary: known h)
  case (Cons e es)
  show ?case
  proof (cases e)
    case (HubRegister c)
    then have "hub_inv (insert c known) (hub_register c h)"
      using Cons.prems by (auto simp: hub_inv_def hub_register_def)
    then show ?thesis using Cons.IH Cons.prems(2) HubRegister by fastforce
  next
    case (HubUnregister c)
    then have "hub_inv known (hub_unregister c h)"
      using Cons.prems by (auto simp: hub_inv_def hub_unregister_def distinct_removeAll)
    then show ?thesis using Cons.IH Cons.prems(2) HubUnregister by fastforce
  next
    case (HubBroadcast order fails msg)
    then have "hub_inv known (Broadcast order fails msg h)"
      using Cons.prems hub_broadcast_inv by (auto simp: Broadcast_def split: option.split)
    then show ?thesis using Cons.IH Cons.prems(2) HubBroadcast by fastforce
  qed
qed auto

text \<open>The live feed: over any sequence of connections, disconnections and messages no
  connection is closed twice and none that is closed stays registered, and the next message
  goes once to every registered connection that takes it and to no other, the others being
  closed and removed.\<close>
theorem hub_delivers_once:
  assumes "usual {} es" and "h = foldl hub_step NewHub es" and "\<forall>xs. mset (order xs) = mset xs"
  shows "distinct (hub_closed h) \<and> set (clients h) \<inter> set (hub_closed h) = {}
    \<and> mset (hub_sent (Broadcast order fails (Some msg) h)) = mset (hub_sent h) + mset (map (\<lambda>c. (c, msg)) (filter (\<lambda>c. \<not> fails c) (clients h)))
    \<and> clients (Broadcast order fails (Some msg) h) = filter (\<lambda>c. \<not> fails c) (clients h)
    \<and> set (hub_closed (Broadcast order fails (Some msg) h)) = set (hub_closed h) \<union> {c \<in> set (clients h). fails c}"
proof -
  have "hub_inv {} NewHub" by (simp add: hub_inv_def NewHub_def)
  then obtain known where inv: "hub_inv known h" using hub_run assms(1,2) by blast
  then have d: "distinct (clients h)" by (simp add: hub_inv_def)
  have m: "mset (order (clients h)) = mset (clients h)" using assms(3) by blast
  have "set (order (clients h)) = set (clients h)" using m mset_eq_setD by blast
  moreover have "mset (map (\<lambda>c. (c, msg)) (filter (\<lambda>c. \<not> fails c) (order (clients h)))) = mset (map (\<lambda>c. (c, msg)) (filter (\<lambda>c. \<not> fails c) (clients h)))"
    using m by simp
  ultimately show ?thesis using inv by (auto simp: Broadcast_def hub_broadcast_eq [where order = order, OF d m] hub_inv_def)
qed

theorem hub_delivers_once_witness:
  "mset (hub_sent (Broadcast rev (\<lambda>c. c = 2) (Some [1]) (foldl hub_step NewHub [HubRegister 1, HubRegister 2, HubRegister 3, HubUnregister 1])))
    = {# (3, [1]) #}"
  using hub_delivers_once [of "[HubRegister 1, HubRegister 2, HubRegister 3, HubUnregister 1]"
      "foldl hub_step NewHub [HubRegister 1, HubRegister 2, HubRegister 3, HubUnregister 1]" rev "\<lambda>c. c = 2" "[1]"]
  by (simp add: NewHub_def hub_register_def hub_unregister_def)

end
