(* ===== verification/Crawl_Runs.thy ===== *)
theory Crawl_Runs
  imports Prelude
begin

text \<open>
  The bookkeeping of \<open>crawl\<close> and \<open>Status\<close> in \<open>ui/crawler.go\<close>: each run of the crawler has a DHT
  manager of its own with four counters; the run registers the manager when it begins and,
  when it ends, adds its counters to those of the crawler if the manager is still the
  registered one. \<open>Stop\<close> does not wait for a run to end, so a new run can register its manager
  before the old run has finished. Runs are numbered.
\<close>

section \<open>State and steps\<close>

datatype counter = DHTOutputDropped | GetPeersRejected | GetPeersDeduped | GetPeersSendDropped

text \<open>\<open>counts r\<close> are the counters of run \<open>r\<close>'s manager; \<open>happened\<close> logs what all managers counted.\<close>

record Runs =
  activeDHTManager :: "nat option"
  totals :: "counter \<Rightarrow> uint64"
  counts :: "nat \<Rightarrow> counter \<Rightarrow> uint64"
  happened :: "counter \<Rightarrow> uint64"

definition no_runs :: Runs where
  "no_runs = \<lparr>activeDHTManager = None, totals = (\<lambda>_. 0), counts = (\<lambda>_ _. 0), happened = (\<lambda>_. 0)\<rparr>"

text \<open>\<open>m.activeDHTManager = trawlingManager\<close> under the lock.\<close>

definition run_register :: "nat \<Rightarrow> Runs \<Rightarrow> Runs" where
  "run_register r m = m\<lparr>activeDHTManager := Some r\<rparr>"

definition run_count :: "nat \<Rightarrow> counter \<Rightarrow> Runs \<Rightarrow> Runs" where
  "run_count r c m =
    m\<lparr>counts := (counts m)(r := (counts m r)(c := counts m r c + 1)), happened := (happened m)(c := happened m c + 1)\<rparr>"

text \<open>The first deferred function of \<open>crawl\<close>, which runs last.\<close>

definition run_finish :: "nat \<Rightarrow> Runs \<Rightarrow> Runs" where
  "run_finish r m =
    (if activeDHTManager m = Some r
     then m\<lparr>totals := (\<lambda>c. totals m c + counts m r c), activeDHTManager := None\<rparr>
     else m)"

text \<open>What \<open>Status\<close> shows for a counter.\<close>

definition Status_counter :: "Runs \<Rightarrow> counter \<Rightarrow> uint64" where
  "Status_counter m c = totals m c + (case activeDHTManager m of None \<Rightarrow> 0 | Some r \<Rightarrow> counts m r c)"

datatype run_event = RnNew nat | RnRegister nat | RnCount nat counter | RnFinish nat

text \<open>\<open>NewManager\<close> makes the manager of a run; its counters are zero from the start.\<close>

fun run_step :: "Runs \<Rightarrow> run_event \<Rightarrow> Runs" where
  "run_step m (RnNew r) = m"
| "run_step m (RnRegister r) = run_register r m"
| "run_step m (RnCount r c) = run_count r c m"
| "run_step m (RnFinish r) = run_finish r m"

section \<open>Runs one after the other\<close>

text \<open>
  \<open>serial cur used es\<close> follows the events of runs that do not overlap: \<open>cur\<close> is the run under way
  and whether it has registered its manager, \<open>used\<close> the runs there were. The result is the run
  under way at the end, \<open>None\<close> when two runs overlap, a run counts while it is not under way
  or comes twice.
\<close>

fun serial :: "(nat \<times> bool) option \<Rightarrow> nat set \<Rightarrow> run_event list \<Rightarrow> (nat \<times> bool) option option" where
  "serial cur used [] = Some cur"
| "serial cur used (RnNew r # es) = (if cur = None \<and> r \<notin> used then serial (Some (r, False)) (insert r used) es else None)"
| "serial cur used (RnRegister r # es) = (if cur = Some (r, False) then serial (Some (r, True)) used es else None)"
| "serial cur used (RnCount r c # es) = (if cur = Some (r, False) \<or> cur = Some (r, True) then serial cur used es else None)"
| "serial cur used (RnFinish r # es) = (if cur = Some (r, True) then serial None used es else None)"

definition counted :: "(nat \<times> bool) option \<Rightarrow> nat set \<Rightarrow> Runs \<Rightarrow> bool" where
  "counted cur used m \<longleftrightarrow>
    activeDHTManager m = (case cur of Some (r, True) \<Rightarrow> Some r | _ \<Rightarrow> None)
    \<and> (\<forall>r. r \<notin> used \<longrightarrow> counts m r = (\<lambda>_. 0))
    \<and> (\<forall>c. totals m c + (case cur of None \<Rightarrow> 0 | Some (r, _) \<Rightarrow> counts m r c) = happened m c)
    \<and> (\<forall>r b. cur = Some (r, b) \<longrightarrow> r \<in> used)"

lemma counted_run:
  "counted cur used m \<Longrightarrow> serial cur used es = Some cur' \<Longrightarrow> \<exists>used'. counted cur' used' (foldl run_step m es)"
proof (induction es arbitrary: cur used m)
  case (Cons e es)
  show ?case
  proof (cases e)
    case (RnNew r)
    then have "counted (Some (r, False)) (insert r used) m" "serial (Some (r, False)) (insert r used) es = Some cur'"
      using Cons.prems by (auto simp: counted_def split: if_splits)
    then show ?thesis using Cons.IH RnNew by fastforce
  next
    case (RnRegister r)
    then have "counted (Some (r, True)) used (run_register r m)" "serial (Some (r, True)) used es = Some cur'"
      using Cons.prems by (auto simp: counted_def run_register_def split: if_splits)
    then show ?thesis using Cons.IH RnRegister by fastforce
  next
    case (RnCount r k)
    then have "counted cur used (run_count r k m)" "serial cur used es = Some cur'"
      using Cons.prems by (auto simp: counted_def run_count_def fun_eq_iff add.assoc [symmetric] split: if_splits)
    then show ?thesis using Cons.IH RnCount by fastforce
  next
    case (RnFinish r)
    then have "counted None used (run_finish r m)" "serial None used es = Some cur'"
      using Cons.prems by (auto simp: counted_def run_finish_def split: if_splits)
    then show ?thesis using Cons.IH RnFinish by fastforce
  qed
qed auto

text \<open>C34. The figures of the status page are exact as long as the runs of the crawler come one
  after the other: unless a run is between making and registering its DHT manager, each
  counter shown is the number of events all DHT managers have counted so far, modulo 64 bits.\<close>
theorem status_counts_exact:
  assumes "serial None {} es = Some cur" and "\<forall>r. cur \<noteq> Some (r, False)"
  shows "Status_counter (foldl run_step no_runs es) c = happened (foldl run_step no_runs es) c"
proof -
  have "counted None {} no_runs" by (simp add: counted_def no_runs_def)
  then obtain used where m: "counted cur used (foldl run_step no_runs es)" using counted_run assms(1) by blast
  show ?thesis
  proof (cases cur)
    case None
    then show ?thesis using m by (simp add: counted_def Status_counter_def)
  next
    case (Some rb)
    then obtain r where "cur = Some (r, True)" using assms(2) by (metis (full_types) prod.exhaust)
    then show ?thesis using m by (simp add: counted_def Status_counter_def)
  qed
qed

definition two_runs :: "run_event list" where
  "two_runs = [RnNew 0, RnRegister 0, RnCount 0 GetPeersRejected, RnFinish 0,
     RnNew 1, RnCount 1 GetPeersRejected, RnRegister 1, RnCount 1 GetPeersRejected]"

theorem status_counts_exact_witness:
  "Status_counter (foldl run_step no_runs two_runs) GetPeersRejected = 3"
  using status_counts_exact [of two_runs "Some (1, True)" GetPeersRejected]
  by (simp add: two_runs_def no_runs_def run_register_def run_count_def run_finish_def)

section \<open>Overlapping runs\<close>

lemma status_after_overlap:
  assumes "activeDHTManager m = Some r" and "r' \<noteq> r"
  shows "Status_counter (run_finish r (run_register r' m)) c = totals m c + counts m r' c"
  using assms by (simp add: run_finish_def run_register_def Status_counter_def)

text \<open>A restart can make the status page forget a run: when the crawler is stopped and started
  again and the new run registers its DHT manager before the old run has finished, what the
  old manager counted is in no total any more. With a fresh new manager every counter falls
  back by exactly the old run's count.\<close>
theorem overlapping_run_forgotten:
  assumes "activeDHTManager m = Some r" and "r' \<noteq> r" and "counts m r' = (\<lambda>_. 0)"
  shows "Status_counter (foldl run_step m [RnRegister r', RnFinish r]) c = Status_counter m c - counts m r c"
  using status_after_overlap [OF assms(1,2), of c] assms by (simp add: Status_counter_def)

theorem overlapping_run_forgotten_witness:
  "Status_counter (foldl run_step (foldl run_step no_runs [RnRegister 0, RnCount 0 GetPeersRejected]) [RnRegister 1, RnFinish 0])
     GetPeersRejected
    = Status_counter (foldl run_step no_runs [RnRegister 0, RnCount 0 GetPeersRejected]) GetPeersRejected - 1"
  using overlapping_run_forgotten [of "foldl run_step no_runs [RnRegister 0, RnCount 0 GetPeersRejected]" 0 1 GetPeersRejected]
  by (simp add: no_runs_def run_register_def run_count_def)

end
