(* ===== verification/Settings.thy ===== *)
theory Settings
  imports Crawler_Manager Configuration Downloader Master
begin

text \<open>
  Changing a running program: the settings page, \<open>SettingsPost\<close> of \<open>ui/settings.go\<close>, which checks
  a candidate configuration, stores it and makes the crawler manager and the master's puller
  follow it, and the control endpoint of a worker in \<open>cmd/dhtc/main.go\<close>, by which a master
  pauses and resumes it. Of the configuration the record has what these two and the parts
  they call read. Binding the form is gin's: \<open>None\<close> when it fails. The \<open>Notifier\<close> is set up
  anew; only the number of times is kept.
\<close>

section \<open>The settings page\<close>

record Settings =
  se_crawler :: CrawlerConfig
  se_NetworkMode :: string
  se_downloaders :: Downloaders
  se_WorkerURLs :: string
  se_ClusterToken :: string

record Controller =
  ct_config :: Settings
  ct_notifier :: "nat option"
  ct_crawler :: "CrawlerManager option"
  ct_puller :: "MasterPuller option"

datatype settings_answer =
    FormError
  | ScheduleError
  | DownloaderError string dl_error
  | Saved

definition is_separator :: "char \<Rightarrow> bool" where
  "is_separator c \<longleftrightarrow> c \<in> set [CHR '','', CHR '';'', CHR 0x0A, CHR 0x0D, CHR 0x09, CHR '' '']"

text \<open>\<open>strings.FieldsFunc\<close>: the maximal runs of characters that are no separators.\<close>

fun fields_func :: "string \<Rightarrow> string \<Rightarrow> string list" where
  "fields_func acc [] = (if acc = [] then [] else [rev acc])"
| "fields_func acc (c # s) =
     (if is_separator c then (if acc = [] then fields_func [] s else rev acc # fields_func [] s)
      else fields_func (c # acc) s)"

definition splitWorkerURLs :: "string \<Rightarrow> string list" where
  "splitWorkerURLs value = fields_func [] value"

definition schedule_ok :: "CrawlerConfig \<Rightarrow> bool" where
  "schedule_ok cfg =
    (case (time_Parse_15_04 (CrawlerScheduleStart cfg), time_Parse_15_04 (CrawlerScheduleEnd cfg)) of
       (Some a, Some b) \<Rightarrow> a \<noteq> b
     | _ \<Rightarrow> False)"

definition SettingsPost ::
  "'s server \<Rightarrow> Decoders \<Rightarrow> (string \<Rightarrow> (string \<times> string) option) \<Rightarrow> instant \<Rightarrow> Settings option \<Rightarrow> Controller \<Rightarrow> 's net
    \<Rightarrow> close_panic + settings_answer \<times> Controller \<times> 's net" where
  "SettingsPost srv D parsed t form c net =
    (case form of
       None \<Rightarrow> Inr (FormError, c, net)
     | Some candidate0 \<Rightarrow>
         let candidate = candidate0\<lparr>se_NetworkMode := NormalizeNetworkMode (se_NetworkMode candidate0)\<rparr>
         in if CrawlerScheduleEnabled (se_crawler candidate) \<and> \<not> schedule_ok (se_crawler candidate)
            then Inr (ScheduleError, c, net)
            else case testConfiguredDownloaders srv D (se_downloaders candidate) net of
              (Inl (name, e), net1) \<Rightarrow> Inr (DownloaderError name e, c, net1)
            | (Inr _, net1) \<Rightarrow>
                ebind (case ct_crawler c of
                         None \<Rightarrow> Inr None
                       | Some m \<Rightarrow> ebind (ReconcileSchedule (se_crawler candidate) t m) (\<lambda>m'. Inr (Some m')))
                  (\<lambda>crawler.
                    Inr (Saved,
                         c\<lparr>ct_config := candidate, ct_notifier := map_option Suc (ct_notifier c), ct_crawler := crawler,
                           ct_puller := map_option (Configure parsed (splitWorkerURLs (se_WorkerURLs candidate)) (se_ClusterToken candidate))
                             (ct_puller c)\<rparr>,
                         net1)))"

section \<open>The control endpoint of a worker\<close>

datatype control_answer = ControlUnauthorized | ControlMethod | ControlInvalid | ControlUnknown | ControlOk bool

text \<open>\<open>body\<close>: the \<open>action\<close> of the decoded request, \<open>None\<close> when it does not decode or is too long.\<close>

definition worker_control ::
  "string \<Rightarrow> CrawlerConfig \<Rightarrow> instant \<Rightarrow> string \<Rightarrow> string \<Rightarrow> string option \<Rightarrow> CrawlerManager
    \<Rightarrow> close_panic + control_answer \<times> CrawlerManager" where
  "worker_control token cfg t auth meth body m =
    (if token = [] \<or> bearer auth \<noteq> token then Inr (ControlUnauthorized, m)
     else if meth \<noteq> ''POST'' then Inr (ControlMethod, m)
     else case body of
       None \<Rightarrow> Inr (ControlInvalid, m)
     | Some action \<Rightarrow>
         if action = ''pause'' then ebind (Stop cfg t m) (\<lambda>(_, m'). Inr (ControlOk (running m'), m'))
         else if action = ''resume'' then (let m' = snd (Start cfg t m) in Inr (ControlOk (running m'), m'))
         else Inr (ControlUnknown, m))"

section \<open>Valid times\<close>

lemma digit_not_space: "digit c \<noteq> None \<Longrightarrow> \<not> is_space c"
  by (auto simp: digit_def is_space_def Let_def split: if_splits)

lemma getnum_shape:
  "getnum fixed s = Some (n, r) \<Longrightarrow> (\<exists>a. s = a # r \<and> digit a \<noteq> None \<and> \<not> fixed) \<or> (\<exists>a b. s = a # b # r \<and> digit a \<noteq> None \<and> digit b \<noteq> None)"
  by (induction fixed s rule: getnum.induct) (auto split: option.splits if_splits)

lemma time_Parse_parts:
  assumes "time_Parse_15_04 s = Some (h, m)"
  obtains s1 where "getnum False s = Some (h, CHR '':'' # s1)" and "getnum True s1 = Some (m, [])"
  using assms unfolding time_Parse_15_04_def
  by (auto split: option.splits prod.splits list.splits char.splits bool.splits if_splits)

lemma time_Parse_trimmed:
  assumes "time_Parse_15_04 s = Some (h, m)"
  shows "TrimSpace s = s"
proof -
  obtain s1 where p: "getnum False s = Some (h, CHR '':'' # s1)" "getnum True s1 = Some (m, [])"
    using assms by (rule time_Parse_parts)
  obtain c d where s1: "s1 = [c, d]" "digit d \<noteq> None" using getnum_shape [OF p(2)] by auto
  obtain a rest where s: "s = a # rest @ [d]" "digit a \<noteq> None"
    using getnum_shape [OF p(1)] by (auto simp: s1)
  show ?thesis using digit_not_space [OF s(2)] digit_not_space [OF s1(2)] by (simp add: s(1) TrimSpace_def)
qed

lemma time_Parse_minute: "time_Parse_15_04 s = Some (h, m) \<Longrightarrow> m < 60"
  unfolding time_Parse_15_04_def by (auto split: option.splits prod.splits list.splits char.splits bool.splits if_splits)

lemma parseClockMinutes_inject:
  assumes "time_Parse_15_04 s = Some (h, m)" and "time_Parse_15_04 s' = Some (h', m')" and "(h, m) \<noteq> (h', m')"
  shows "parseClockMinutes s = Some (int h * 60 + int m) \<and> parseClockMinutes s' = Some (int h' * 60 + int m')
    \<and> int h * 60 + int m \<noteq> int h' * 60 + int m'"
proof -
  have "m < 60" "m' < 60" using assms(1,2) time_Parse_minute by blast+
  then have parts: "(h * 60 + m) div 60 = h" "(h * 60 + m) mod 60 = m" "(h' * 60 + m') div 60 = h'" "(h' * 60 + m') mod 60 = m'"
    by simp_all
  then have "h * 60 + m \<noteq> h' * 60 + m'" using assms(3) by metis
  then have "int h * 60 + int m \<noteq> int h' * 60 + int m'" by linarith
  then show ?thesis using assms(1,2) by (simp add: parseClockMinutes_def time_Parse_trimmed)
qed

lemma schedule_ok_usable:
  assumes "schedule_ok cfg"
  obtains a b where "parseClockMinutes (CrawlerScheduleStart cfg) = Some a" and "parseClockMinutes (CrawlerScheduleEnd cfg) = Some b" and "a \<noteq> b"
proof -
  obtain h m h' m' where "time_Parse_15_04 (CrawlerScheduleStart cfg) = Some (h, m)"
    "time_Parse_15_04 (CrawlerScheduleEnd cfg) = Some (h', m')" "(h, m) \<noteq> (h', m')"
    using assms by (auto simp: schedule_ok_def split: option.splits)
  from parseClockMinutes_inject [OF this] show ?thesis using that by blast
qed

section \<open>Properties\<close>

lemma Reconcile_total: "cm_inv m \<Longrightarrow> \<exists>m'. ReconcileSchedule cfg t m = Inr m' \<and> cm_inv m'"
  using cm_step_total [of m "CmReconcile cfg t"] by simp

lemma follow_total:
  assumes "\<forall>m. mo = Some m \<longrightarrow> cm_inv m"
  shows "\<exists>mo'. (case mo of None \<Rightarrow> Inr None | Some m \<Rightarrow> ebind (ReconcileSchedule cfg t m) (\<lambda>m'. Inr (Some m'))) = Inr mo'
    \<and> (\<forall>m. mo' = Some m \<longrightarrow> cm_inv m)"
proof (cases mo)
  case (Some m)
  then obtain m' where "ReconcileSchedule cfg t m = Inr m'" "cm_inv m'" using Reconcile_total assms by blast
  then show ?thesis using Some by simp
qed simp

lemma NormalizeNetworkMode_range: "NormalizeNetworkMode s \<in> {''dual'', ''ipv4''}"
  by (simp add: NormalizeNetworkMode_def Let_def)

text \<open>Whatever is posted to the settings page, the program goes on: no channel is closed
  twice, and either the page reports an error and nothing has changed, or the configuration
  is stored with a network mode in normal form and the crawler follows it. A schedule that
  was stored enabled is usable: at every instant it has a next change, after that instant.\<close>
theorem settings_stored_usable:
  assumes "\<forall>m. ct_crawler c = Some m \<longrightarrow> cm_inv m"
  shows "\<exists>ans c' net'. SettingsPost srv D parsed t form c net = Inr (ans, c', net')
    \<and> (ans \<noteq> Saved \<longrightarrow> c' = c)
    \<and> (ans = Saved \<longrightarrow> se_NetworkMode (ct_config c') \<in> {''dual'', ''ipv4''} \<and> (\<forall>m. ct_crawler c' = Some m \<longrightarrow> cm_inv m)
        \<and> (CrawlerScheduleEnabled (se_crawler (ct_config c')) \<longrightarrow>
            (\<forall>u. u < snd (scheduleState u (CrawlerScheduleStart (se_crawler (ct_config c'))) (CrawlerScheduleEnd (se_crawler (ct_config c')))))))"
proof (cases form)
  case None
  then show ?thesis by (simp add: SettingsPost_def)
next
  case (Some f)
  define cand where "cand = f\<lparr>se_NetworkMode := NormalizeNetworkMode (se_NetworkMode f)\<rparr>"
  have next_change: "u < snd (scheduleState u (CrawlerScheduleStart (se_crawler cand)) (CrawlerScheduleEnd (se_crawler cand)))"
    if ok: "schedule_ok (se_crawler cand)" for u
  proof -
    obtain a b where ab: "parseClockMinutes (CrawlerScheduleStart (se_crawler cand)) = Some a"
      "parseClockMinutes (CrawlerScheduleEnd (se_crawler cand)) = Some b" "a \<noteq> b" using schedule_ok_usable [OF ok] .
    obtain inside nxt where st: "scheduleState u (CrawlerScheduleStart (se_crawler cand)) (CrawlerScheduleEnd (se_crawler cand)) = (inside, nxt)"
      by (rule prod.exhaust)
    show ?thesis using scheduleState_change [OF ab st] by (simp add: st)
  qed
  obtain crawler where crawler: "(case ct_crawler c of None \<Rightarrow> Inr None
      | Some m \<Rightarrow> ebind (ReconcileSchedule (se_crawler cand) t m) (\<lambda>m'. Inr (Some m'))) = Inr crawler"
    "\<forall>m. crawler = Some m \<longrightarrow> cm_inv m"
    using follow_total [OF assms, of "se_crawler cand" t] by blast
  obtain r net1 where test: "testConfiguredDownloaders srv D (se_downloaders cand) net = (r, net1)" by (rule prod.exhaust)
  have mode: "se_NetworkMode cand \<in> {''dual'', ''ipv4''}"
    using NormalizeNetworkMode_range [of "se_NetworkMode f"] by (simp add: cand_def)
  show ?thesis
    unfolding SettingsPost_def Some option.case Let_def cand_def [symmetric] test
    using next_change crawler(2) mode by (cases r) (auto simp: crawler(1))
qed

definition idle_config :: CrawlerConfig where
  "idle_config = \<lparr>OnlyWebServer = False, CrawlerThreads = 2, CrawlerAutoStopMinutes = 0, CrawlerScheduleEnabled = True,
     CrawlerScheduleStart = ''22:00'', CrawlerScheduleEnd = ''07:00''\<rparr>"

definition sample_settings :: Settings where
  "sample_settings = \<lparr>se_crawler = idle_config, se_NetworkMode = ''ipv6'',
     se_downloaders = \<lparr>dl_transmission = \<lparr>tc_URL = '''', tc_User = '''', tc_Pass = '''', tc_SessionID = ''''\<rparr>,
       dl_aria2 = \<lparr>ar_URL = '''', ar_Token = ''''\<rparr>, dl_deluge = \<lparr>de_URL = '''', de_Pass = ''''\<rparr>,
       dl_qbittorrent = \<lparr>qb_URL = '''', qb_User = '''', qb_Pass = ''''\<rparr>\<rparr>,
     se_WorkerURLs = '''', se_ClusterToken = ''''\<rparr>"

definition sample_controller :: Controller where
  "sample_controller = \<lparr>ct_config = sample_settings, ct_notifier = None, ct_crawler = Some NewCrawlerManager, ct_puller = None\<rparr>"

lemma sample_saved:
  "\<exists>c' net'. SettingsPost session_server plain_decoders (\<lambda>_. None) 0 (Some sample_settings) sample_controller ((), [])
     = Inr (Saved, c', net') \<and> se_crawler (ct_config c') = idle_config"
proof -
  have "schedule_ok idle_config" by code_simp
  moreover have "testConfiguredDownloaders session_server plain_decoders (se_downloaders sample_settings) ((), []) = (Inr (), (), [])"
    by (simp add: testConfiguredDownloaders_def configuredDownloaderURL_def sample_settings_def TrimSpace_def)
  moreover obtain m where "ReconcileSchedule idle_config 0 NewCrawlerManager = Inr m" using Reconcile_total NewCrawlerManager_inv by blast
  moreover have "se_crawler sample_settings = idle_config" by (simp add: sample_settings_def)
  ultimately show ?thesis by (auto simp: SettingsPost_def sample_controller_def Let_def)
qed

theorem settings_stored_usable_witness:
  "\<forall>u. u < snd (scheduleState u ''22:00'' ''07:00'')"
proof -
  obtain c' net' where "SettingsPost session_server plain_decoders (\<lambda>_. None) 0 (Some sample_settings) sample_controller ((), [])
     = Inr (Saved, c', net')" "se_crawler (ct_config c') = idle_config" using sample_saved by blast
  moreover have "\<forall>m. ct_crawler sample_controller = Some m \<longrightarrow> cm_inv m"
    by (simp add: sample_controller_def NewCrawlerManager_inv)
  ultimately show ?thesis
    using settings_stored_usable [of sample_controller session_server plain_decoders "\<lambda>_. None" 0 "Some sample_settings" "((), [])"]
    by (auto simp: idle_config_def)
qed

text \<open>A master without the token changes nothing; with it, a pause leaves the worker stopped and a resume running.\<close>

theorem worker_control_effect:
  assumes "cm_inv m"
  shows "\<exists>ans m'. worker_control token cfg t auth meth body m = Inr (ans, m') \<and> cm_inv m'
    \<and> (token = [] \<or> bearer auth \<noteq> token \<longrightarrow> ans = ControlUnauthorized \<and> m' = m)
    \<and> (token \<noteq> [] \<and> bearer auth = token \<and> meth = ''POST'' \<and> body = Some ''pause'' \<longrightarrow> ans = ControlOk False)
    \<and> (token \<noteq> [] \<and> bearer auth = token \<and> meth = ''POST'' \<and> body = Some ''resume'' \<and> \<not> OnlyWebServer cfg \<longrightarrow> ans = ControlOk True)"
proof -
  obtain m1 where start: "cm_step m (CmStart cfg t) = Inr m1" "cm_inv m1" using cm_step_total [OF assms] by blast
  obtain m2 where stop: "cm_step m (CmStop cfg t) = Inr m2" "cm_inv m2" using cm_step_total [OF assms] by blast
  obtain b where b: "Stop cfg t m = Inr (b, m2)" using stop(1) by (cases "Stop cfg t m") auto
  have off: "\<not> running m2" using b by (auto simp: Stop_def stopLocked_def split: if_splits option.splits)
  have on: "running (snd (Start cfg t m))" if "\<not> OnlyWebServer cfg"
    using that by (auto simp: Start_def startLocked_def Let_def)
  show ?thesis using assms start stop b off on by (auto simp: worker_control_def Let_def split: option.split)
qed

end
