(* ===== verification/Repository_Queries.thy ===== *)
theory Repository_Queries
  imports Repository
begin

text \<open>
  The rest of the CloverDB repository, \<open>db/clover.go\<close>: counts, latest and random entries, the
  editing of watch and blacklist entries, statistics by interval, the distribution over
  categories and the clearing of captured data. A call that may panic returns an \<open>outcome\<close>.
\<close>

section \<open>Counting folds\<close>

text \<open>
  The loop shape of the statistics: \<open>upd\<close> changes the entry of one key per element, an absent key
  reading as a zero value. \<open>bucket_of\<close> is what the entry of a key is afterwards.
\<close>

definition entry :: "'v \<Rightarrow> ('k \<rightharpoonup> 'v) \<Rightarrow> 'k \<Rightarrow> 'v" where
  "entry zero m k = (case m k of None \<Rightarrow> zero | Some v \<Rightarrow> v)"

definition tally :: "'v \<Rightarrow> ('a \<Rightarrow> 'k) \<Rightarrow> ('a \<Rightarrow> 'v \<Rightarrow> 'v) \<Rightarrow> 'a list \<Rightarrow> 'k \<rightharpoonup> 'v" where
  "tally zero key upd xs = foldl (\<lambda>m x. m(key x \<mapsto> upd x (entry zero m (key x)))) Map.empty xs"

lemma tally_snoc: "tally zero key upd (xs @ [x]) = (tally zero key upd xs)(key x \<mapsto> upd x (entry zero (tally zero key upd xs) (key x)))"
  by (simp add: tally_def)

lemma tally_entry: "entry zero (tally zero key upd xs) k = fold upd (filter (\<lambda>x. key x = k) xs) zero"
proof (induction xs rule: rev_induct)
  case Nil
  show ?case by (simp add: tally_def entry_def)
next
  case (snoc x xs)
  then show ?case by (auto simp: tally_snoc) (simp_all add: entry_def)
qed

lemma tally_dom: "dom (tally zero key upd xs) = key ` set xs"
  by (induction xs rule: rev_induct) (auto simp: tally_snoc, auto simp: tally_def)

section \<open>Results that may be a panic\<close>

datatype 'a outcome = Returns 'a | Fails | Panics

section \<open>Counts, latest and random entries\<close>

definition GetInfoHashCount :: "'db Clover \<Rightarrow> 'db \<Rightarrow> nat" where
  "GetInfoHashCount C db = length (or_empty (FindAll C TorrentTable (\<lambda>_. True) db))"

text \<open>The counters for IPv4, IPv6 and unknown families.\<close>

fun count_family :: "Doc \<Rightarrow> nat \<times> nat \<times> nat \<Rightarrow> nat \<times> nat \<times> nat" where
  "count_family doc (ipv4, ipv6, unknown) =
    (let f = numericInt (doc ''Family'')
     in if f = 4 then (ipv4 + 1, ipv6, unknown)
        else if f = 6 then (ipv4, ipv6 + 1, unknown)
        else (ipv4, ipv6, unknown + 1))"

definition GetFamilyCounts :: "'db Clover \<Rightarrow> 'db \<Rightarrow> nat \<times> nat \<times> nat" where
  "GetFamilyCounts C db = fold count_family (map snd (or_empty (FindAll C TorrentTable (\<lambda>_. True) db))) (0, 0, 0)"

text \<open>\<open>rnd i\<close> is the number that call \<open>i\<close> of \<open>rand.Intn\<close> gives; an index out of range and a negative
  length of \<open>make\<close> panic.\<close>

definition GetNRandomEntries :: "'db Clover \<Rightarrow> Rules \<Rightarrow> (nat \<Rightarrow> nat) \<Rightarrow> int \<Rightarrow> 'db \<Rightarrow> MetaData list outcome" where
  "GetNRandomEntries C R rnd N0 db =
    (let cnt = (case Count C TorrentTable (\<lambda>_. True) db of None \<Rightarrow> 0 | Some n \<Rightarrow> n);
         N = (if int cnt < N0 then int cnt else N0);
         all = or_empty (FindAll C TorrentTable (\<lambda>_. True) db)
     in if N < 0 then Panics
        else if \<exists>i < nat N. length all \<le> rnd i then Panics
        else Returns (Documents2MetaData R (map (\<lambda>i. all ! rnd i) [0..<nat N])))"

definition GetLatest :: "'db Clover \<Rightarrow> Rules \<Rightarrow> int \<Rightarrow> int \<Rightarrow> 'db \<Rightarrow> (MetaData list \<times> nat) option" where
  "GetLatest C R lmt offset db =
    (let cnt = (case Count C TorrentTable (\<lambda>_. True) db of None \<Rightarrow> 0 | Some n \<Rightarrow> n)
     in case FindSorted C TorrentTable (\<lambda>_. True) False lmt offset db of
          None \<Rightarrow> None
        | Some values \<Rightarrow> Some (Documents2MetaData R values, cnt))"

section \<open>Watch and blacklist entries\<close>

definition watch_doc :: "string \<Rightarrow> string \<Rightarrow> string \<Rightarrow> Doc" where
  "watch_doc key searchType searchInput =
    [''Key'' \<mapsto> DStr key, ''MatchType'' \<mapsto> DStr searchType, ''Content'' \<mapsto> DStr searchInput]"

definition InsertWatchEntry :: "'db Clover \<Rightarrow> string \<Rightarrow> string \<Rightarrow> string \<Rightarrow> 'db \<Rightarrow> bool \<times> 'db" where
  "InsertWatchEntry C key searchType searchInput db =
    (case InsertOne C WatchTable (watch_doc key searchType searchInput) db of
       None \<Rightarrow> (False, db)
     | Some db' \<Rightarrow> (True, db'))"

definition DeleteWatchEntry :: "'db Clover \<Rightarrow> string \<Rightarrow> 'db \<Rightarrow> 'db option" where
  "DeleteWatchEntry C entryId db = DeleteById C WatchTable entryId db"

record BlacklistEntry =
  be_Id :: string
  be_Filter :: string
  be_Type :: string

definition GetBlacklistTypeFromStrInt :: "string \<Rightarrow> string" where
  "GetBlacklistTypeFromStrInt entryType =
    (if entryType = ''0'' then ''Name'' else if entryType = ''1'' then ''File name'' else ''Unknown'')"

definition GetBlacklistEntries :: "'db Clover \<Rightarrow> 'db \<Rightarrow> BlacklistEntry list" where
  "GetBlacklistEntries C db =
    map (\<lambda>(i, d). \<lparr>be_Id = i, be_Filter = doc_text (d ''Filter''),
                   be_Type = GetBlacklistTypeFromStrInt (doc_text (d ''Type''))\<rparr>)
      (or_empty (FindAll C BlacklistTable (\<lambda>_. True) db))"

definition isInBlacklist :: "'db Clover \<Rightarrow> string \<Rightarrow> string \<Rightarrow> 'db \<Rightarrow> bool" where
  "isInBlacklist C flt entryType db =
    (or_empty (FindAll C BlacklistTable (\<lambda>d. Where_Eq C ''Filter'' flt d \<and> Where_Eq C ''Type'' entryType d) db) \<noteq> [])"

definition blacklist_doc :: "string \<Rightarrow> string \<Rightarrow> Doc" where
  "blacklist_doc flt entryType = [''Type'' \<mapsto> DStr entryType, ''Filter'' \<mapsto> DStr flt]"

text \<open>The answer is that of the last insertion tried.\<close>

definition add_filter :: "'db Clover \<Rightarrow> string \<Rightarrow> string \<Rightarrow> bool \<times> 'db \<Rightarrow> bool \<times> 'db" where
  "add_filter C entryType flt s =
    (case s of (rVal, db) \<Rightarrow>
       if isInBlacklist C flt entryType db then (rVal, db)
       else case InsertOne C BlacklistTable (blacklist_doc flt entryType) db of
         None \<Rightarrow> (False, db)
       | Some db' \<Rightarrow> (True, db'))"

definition AddToBlacklist :: "'db Clover \<Rightarrow> string list \<Rightarrow> string \<Rightarrow> 'db \<Rightarrow> bool \<times> 'db" where
  "AddToBlacklist C filters entryType db = fold (add_filter C entryType) filters (False, db)"

definition DeleteBlacklistItem :: "'db Clover \<Rightarrow> string \<Rightarrow> 'db \<Rightarrow> 'db option" where
  "DeleteBlacklistItem C itemId db = DeleteById C BlacklistTable itemId db"

definition GetAllInfoHashes :: "'db Clover \<Rightarrow> 'db \<Rightarrow> string list option" where
  "GetAllInfoHashes C db =
    (case FindAll C TorrentTable (\<lambda>_. True) db of
       None \<Rightarrow> None
     | Some all \<Rightarrow> Some (map (\<lambda>(i, d). doc_text (d ''InfoHash'')) all))"

section \<open>Statistics\<close>

record Stats =
  Timestamp :: instant
  TorrentCount :: nat
  IPv4Count :: nat
  IPv6Count :: nat
  UnknownCount :: nat

definition zero_stats :: Stats where
  "zero_stats = \<lparr>Timestamp = 0, TorrentCount = 0, IPv4Count = 0, IPv6Count = 0, UnknownCount = 0\<rparr>"

definition GetIntervalDuration :: "string \<Rightarrow> duration" where
  "GetIntervalDuration interval =
    (if interval = ''minute'' then Minute
     else if interval = ''hour'' then Hour
     else if interval = ''day'' then 24 * Hour
     else Hour)"

text \<open>\<open>t.Truncate(d)\<close> counts from Go's zero time.\<close>

definition Truncate :: "instant \<Rightarrow> duration \<Rightarrow> instant" where
  "Truncate t d = (if d \<le> 0 then t else t - t mod d)"

definition count_stats :: "Doc \<Rightarrow> Stats \<Rightarrow> Stats" where
  "count_stats doc stats =
    (let s = stats\<lparr>TorrentCount := TorrentCount stats + 1\<rparr>; f = numericInt (doc ''Family'')
     in if f = 4 then s\<lparr>IPv4Count := IPv4Count s + 1\<rparr>
        else if f = 6 then s\<lparr>IPv6Count := IPv6Count s + 1\<rparr>
        else s\<lparr>UnknownCount := UnknownCount s + 1\<rparr>)"

definition stats_bucket :: "int \<Rightarrow> Doc \<Rightarrow> int" where
  "stats_bucket seconds doc = go_div (doc_int (doc ''DiscoveredOn'')) seconds * seconds"

text \<open>\<open>-time.Duration(n) * d\<close> in 64 bits.\<close>

definition intervals_back :: "int \<Rightarrow> duration \<Rightarrow> duration" where
  "intervals_back n d = int64 (int64 (- n) * d)"

definition GetStatsByInterval :: "'db Clover \<Rightarrow> string \<Rightarrow> int \<Rightarrow> instant \<Rightarrow> 'db \<Rightarrow> Stats list outcome" where
  "GetStatsByInterval C interval lmt t db =
    (let d = GetIntervalDuration interval;
         t0 = Truncate t d;
         since = Unix (t0 + intervals_back lmt d)
     in case FindAll C TorrentTable (Where_GtEq C ''DiscoveredOn'' since) db of
          None \<Rightarrow> Fails
        | Some docs \<Rightarrow>
            let seconds = d div Second;
                bucketMap = tally zero_stats (stats_bucket seconds) count_stats (map snd docs)
            in if lmt < 0 then Panics
               else Returns (map (\<lambda>i. let ts = t0 + intervals_back (int i) d
                                      in (entry zero_stats bucketMap (Unix ts))\<lparr>Timestamp := ts\<rparr>) [0..<nat lmt]))"

definition stats_doc :: "Stats \<Rightarrow> Doc" where
  "stats_doc stats = [''Timestamp'' \<mapsto> DTime (Timestamp stats), ''TorrentCount'' \<mapsto> DInt (int (TorrentCount stats))]"

definition InsertStats :: "'db Clover \<Rightarrow> Stats \<Rightarrow> 'db \<Rightarrow> 'db option" where
  "InsertStats C stats db = InsertOne C StatsTable (stats_doc stats) db"

text \<open>\<open>GetCategoryDistribution\<close> reads the categories itself: a single string counts as no category.\<close>

definition dist_categories :: "Doc \<Rightarrow> string list" where
  "dist_categories doc =
    (let cats = (case doc ''Categories'' of
         Some v \<Rightarrow> (case v of DList vs \<Rightarrow> strings_of vs | _ \<Rightarrow> [])
       | None \<Rightarrow> (case doc ''Category'' of Some v \<Rightarrow> [doc_string v] | None \<Rightarrow> []))
     in if cats = [] then [''unknown''] else cats)"

definition GetCategoryDistribution :: "'db Clover \<Rightarrow> 'db \<Rightarrow> (string \<rightharpoonup> nat) option" where
  "GetCategoryDistribution C db =
    (case FindAll C TorrentTable (\<lambda>_. True) db of
       None \<Rightarrow> None
     | Some docs \<Rightarrow> Some (tally 0 (\<lambda>c. c) (\<lambda>_. Suc) (concat (map (\<lambda>(i, d). dist_categories d) docs))))"

definition ClearCapturedData :: "'db Clover \<Rightarrow> 'db \<Rightarrow> bool \<times> 'db" where
  "ClearCapturedData C db =
    (case Delete C TorrentTable db of
       None \<Rightarrow> (False, db)
     | Some db' \<Rightarrow> (case Delete C StatsTable db' of None \<Rightarrow> (False, db') | Some db'' \<Rightarrow> (True, db'')))"

section \<open>Counting the documents of a table\<close>

definition number_of :: "('i \<rightharpoonup> 'd) \<Rightarrow> ('d \<Rightarrow> bool) \<Rightarrow> nat" where
  "number_of m p = card {i. \<exists>d. m i = Some d \<and> p d}"

lemma listing_filter: "listing m xs \<Longrightarrow> length (filter p (map snd xs)) = number_of m p"
proof -
  assume xs: "listing m xs"
  have "distinct (map fst (filter (\<lambda>r. p (snd r)) xs))" using xs by (simp add: listing_def distinct_map_filter)
  then have "length (filter (\<lambda>r. p (snd r)) xs) = card (fst ` set (filter (\<lambda>r. p (snd r)) xs))"
    using distinct_card by fastforce
  also have "fst ` set (filter (\<lambda>r. p (snd r)) xs) = {i. \<exists>d. m i = Some d \<and> p d}"
    using listing_mem [OF xs] by (force simp: image_iff)
  finally show ?thesis by (simp add: number_of_def filter_map comp_def)
qed

lemma number_of_selected: "number_of (selected m q) p = number_of m (\<lambda>d. q d \<and> p d)"
  by (simp add: number_of_def selected_Some conj_assoc)

lemma number_of_cong: "(\<And>i d. m i = Some d \<Longrightarrow> p d = q d) \<Longrightarrow> number_of m p = number_of m q"
  unfolding number_of_def by (rule arg_cong [of _ _ card]) blast

lemma number_of_all: "number_of m (\<lambda>_. True) = card (dom m)"
  by (simp add: number_of_def dom_def)

lemma found_listing:
  assumes "clover_ok C valid rows" and "never_fails C rows" and "valid db"
  obtains xs where "FindAll C t p db = Some xs" and "listing (selected (rows t db) p) xs"
  using never_failsD(1) [OF assms(2)] FindAll_lists [OF assms(1,3)] by blast

section \<open>Statistics against a direct count\<close>

text \<open>
  What the statistics of the time from \<open>a\<close> up to \<open>b\<close> should be, \<open>disc\<close> and \<open>family\<close> giving the time
  of discovery and the address family of what is stored.
\<close>

definition stats_between :: "('d \<Rightarrow> int) \<Rightarrow> ('d \<Rightarrow> int) \<Rightarrow> ('i \<rightharpoonup> 'd) \<Rightarrow> instant \<Rightarrow> instant \<Rightarrow> Stats" where
  "stats_between disc family m a b =
    (let inside = (\<lambda>d. Unix a \<le> disc d \<and> disc d < Unix b)
     in \<lparr>Timestamp = a,
         TorrentCount = number_of m inside,
         IPv4Count = number_of m (\<lambda>d. inside d \<and> family d = 4),
         IPv6Count = number_of m (\<lambda>d. inside d \<and> family d = 6),
         UnknownCount = number_of m (\<lambda>d. inside d \<and> family d \<noteq> 4 \<and> family d \<noteq> 6)\<rparr>)"

definition doc_family :: "Doc \<Rightarrow> int" where
  "doc_family d = numericInt (d ''Family'')"

text \<open>Every stored torrent carries the time of its discovery, as \<open>InsertMetadata\<close> writes it.\<close>

definition dated :: "(string \<rightharpoonup> Doc) \<Rightarrow> bool" where
  "dated m \<longleftrightarrow> (\<forall>i d. m i = Some d \<longrightarrow> (\<exists>t. d ''DiscoveredOn'' = Some (DInt t)))"

lemma datedD: "dated m \<Longrightarrow> m i = Some d \<Longrightarrow> d ''DiscoveredOn'' = Some (DInt (discovered_on d))"
  by (force simp: dated_def discovered_on_def doc_int_def)

lemma fold_count_stats:
  "fold count_stats ds s =
    \<lparr>Timestamp = Timestamp s,
     TorrentCount = TorrentCount s + length ds,
     IPv4Count = IPv4Count s + length (filter (\<lambda>d. numericInt (d ''Family'') = 4) ds),
     IPv6Count = IPv6Count s + length (filter (\<lambda>d. numericInt (d ''Family'') = 6) ds),
     UnknownCount = UnknownCount s + length (filter (\<lambda>d. numericInt (d ''Family'') \<noteq> 4 \<and> numericInt (d ''Family'') \<noteq> 6) ds)\<rparr>"
  by (induction ds arbitrary: s) (simp_all add: count_stats_def Let_def)

lemma interval_seconds:
  obtains s where "GetIntervalDuration interval = s * Second" and "0 < s" and "s dvd 86400"
  by (rule that [of "if interval = ''minute'' then 60 else if interval = ''day'' then 86400 else 3600"])
     (simp_all add: GetIntervalDuration_def duration_defs)

lemma interval_positive: "0 < GetIntervalDuration interval"
  by (simp add: GetIntervalDuration_def duration_defs)

text \<open>An instant at the start of an interval is a multiple of its seconds in Unix time.\<close>

lemma aligned_Unix:
  assumes "d = s * Second" and "0 < s" and "s dvd 86400" and "d dvd a"
  shows "\<exists>k. Unix a = k * s \<and> Unix (a + d) = k * s + s"
proof -
  obtain q where q: "86400 = s * q" using assms(3) by blast
  have "unix_epoch = 719162 * (86400 * Second)" by (simp add: unix_epoch_def Second_def)
  then have "unix_epoch = d * (719162 * q)" by (simp only: q assms(1) ac_simps)
  moreover obtain j where "a = d * j" using assms(4) by blast
  ultimately have "a - unix_epoch = (j - 719162 * q) * s * Second" "a + d - unix_epoch = ((j - 719162 * q) * s + s) * Second"
    by (simp_all add: assms(1) algebra_simps)
  then show ?thesis unfolding Unix_def by (metis Second_def nonzero_mult_div_cancel_right zero_neq_numeral)
qed

lemma bucket_iff:
  assumes "0 < s" and "0 \<le> (x :: int)"
  shows "go_div x s * s = k * s \<longleftrightarrow> k * s \<le> x \<and> x < k * s + s"
proof -
  have x: "x = x div s * s + x mod s" and m: "0 \<le> x mod s" "x mod s < s" using assms(1) by simp_all
  have "x div s = k" if "k * s \<le> x" "x < k * s + s"
  proof (rule int_div_pos_eq)
    show "x = s * k + (x - k * s)" by (simp add: mult.commute)
  qed (use that in auto)
  moreover have "x div s * s \<le> x" "x < x div s * s + s" using x m by linarith+
  ultimately show ?thesis using assms by auto
qed

lemma intervals_back_id:
  assumes "0 \<le> n" and "0 < d" and "n * d < 2 ^ 63"
  shows "intervals_back n d = - (n * d)"
proof -
  have "n \<le> n * d" using assms(1,2) by (simp add: mult_le_cancel_left1)
  then have "int64 (- n) = - n" using assms by (intro int64_id) auto
  moreover have "0 \<le> n * d" using assms(1,2) by simp
  ultimately show ?thesis unfolding intervals_back_def using assms(3) by (subst int64_id) auto
qed

lemma stats_entry:
  assumes xs: "listing (selected m (\<lambda>d. since \<le> discovered_on d)) xs"
    and s: "d = s * Second" "0 < s" "s dvd 86400" "d dvd a" and since: "0 \<le> since" "since \<le> Unix a"
  shows "(entry zero_stats (tally zero_stats (stats_bucket s) count_stats (map snd xs)) (Unix a))\<lparr>Timestamp := a\<rparr>
    = stats_between discovered_on doc_family m a (a + d)"
proof -
  define inside where "inside = (\<lambda>d'. Unix a \<le> discovered_on d' \<and> discovered_on d' < Unix (a + d))"
  define hit where "hit = filter (\<lambda>d'. stats_bucket s d' = Unix a) (map snd xs)"
  obtain k where k: "Unix a = k * s" "Unix (a + d) = k * s + s" using aligned_Unix [OF s] by blast
  have "stats_bucket s d' = Unix a \<longleftrightarrow> inside d'" if "d' \<in> set (map snd xs)" for d'
  proof -
    have "since \<le> discovered_on d'" using that listing_mem [OF xs] by (auto simp: selected_Some)
    then have "0 \<le> discovered_on d'" using since by simp
    from bucket_iff [OF s(2) this] show ?thesis by (simp add: stats_bucket_def inside_def k discovered_on_def)
  qed
  then have hit: "hit = filter inside (map snd xs)" unfolding hit_def by (rule filter_cong [OF refl])
  have num: "length (filter p hit) = number_of m (\<lambda>d'. inside d' \<and> p d')" for p
  proof -
    have "length (filter p hit) = number_of (selected m (\<lambda>d. since \<le> discovered_on d)) (\<lambda>d'. p d' \<and> inside d')"
      unfolding hit filter_filter using listing_filter [OF xs] by (simp add: conj_commute)
    also have "\<dots> = number_of m (\<lambda>d'. inside d' \<and> p d')"
      unfolding number_of_selected using since by (intro number_of_cong) (auto simp: inside_def)
    finally show ?thesis .
  qed
  show ?thesis
    using num [of "\<lambda>_. True"] num
    by (simp add: tally_entry fold_count_stats zero_stats_def stats_between_def doc_family_def Let_def flip: hit_def inside_def)
qed

lemma Unix_mono: "a \<le> b \<Longrightarrow> Unix a \<le> Unix b"
  by (simp add: Unix_def Second_def zdiv_mono1)

lemma clover_stats_direct:
  assumes "clover_ok C valid rows" and "where_ok C" and "never_fails C rows" and "valid db" and "dated (rows TorrentTable db)"
    and "d = GetIntervalDuration interval" and "0 \<le> n" and "n * d < 2 ^ 63" and "unix_epoch \<le> Truncate t d - n * d"
  shows "GetStatsByInterval C interval n t db =
    Returns (map (\<lambda>i. stats_between discovered_on doc_family (rows TorrentTable db) (Truncate t d - int i * d) (Truncate t d - int i * d + d)) [0..<nat n])"
proof -
  have d: "0 < d" using interval_positive assms(6) by simp
  obtain s where s: "d = s * Second" "0 < s" "s dvd 86400" using interval_seconds assms(6) by metis
  define since where "since = Unix (Truncate t d - n * d)"
  have ib: "intervals_back i d = - (i * d)" if "0 \<le> i" "i \<le> n" for i
    using that d assms(8) by (intro intervals_back_id) (auto intro: order_le_less_trans [OF mult_right_mono])
  obtain xs where xs: "FindAll C TorrentTable (Where_GtEq C ''DiscoveredOn'' since) db = Some xs"
    "listing (selected (rows TorrentTable db) (Where_GtEq C ''DiscoveredOn'' since)) xs"
    using found_listing [OF assms(1,3,4)] by blast
  have "selected (rows TorrentTable db) (Where_GtEq C ''DiscoveredOn'' since) = selected (rows TorrentTable db) (\<lambda>d'. since \<le> discovered_on d')"
    using datedD [OF assms(5)] assms(2) unfolding where_ok_def selected_def by (fastforce split: option.split)
  with xs(2) have ls: "listing (selected (rows TorrentTable db) (\<lambda>d'. since \<le> discovered_on d')) xs" by simp
  have "Unix unix_epoch \<le> since" unfolding since_def by (rule Unix_mono [OF assms(9)])
  then have "0 \<le> since" by (simp add: Unix_def)
  have entries: "(entry zero_stats (tally zero_stats (stats_bucket (d div Second)) count_stats (map snd xs)) (Unix a))\<lparr>Timestamp := a\<rparr>
      = stats_between discovered_on doc_family (rows TorrentTable db) a (a + d)" if a: "a = Truncate t d - int i * d" "int i < n" for a i
  proof -
    have "d dvd a" using d by (simp add: a(1) Truncate_def)
    moreover have "int i * d \<le> n * d" using a(2) d by (intro mult_right_mono) auto
    then have "since \<le> Unix a" unfolding since_def a(1) by (intro Unix_mono) simp
    moreover have "d div Second = s" by (simp add: s(1) Second_def)
    ultimately show ?thesis using stats_entry [OF ls s _ \<open>0 \<le> since\<close>] by simp
  qed
  have "GetStatsByInterval C interval n t db = Returns (map (\<lambda>i. let ts = Truncate t d + intervals_back (int i) d
      in (entry zero_stats (tally zero_stats (stats_bucket (d div Second)) count_stats (map snd xs)) (Unix ts))\<lparr>Timestamp := ts\<rparr>) [0..<nat n])"
    using xs(1) assms(7) ib [of n] by (simp add: GetStatsByInterval_def Let_def since_def flip: assms(6))
  also have "\<dots> = Returns (map (\<lambda>i. stats_between discovered_on doc_family (rows TorrentTable db) (Truncate t d - int i * d) (Truncate t d - int i * d + d)) [0..<nat n])"
    unfolding Let_def using entries ib by (intro arg_cong [of _ _ Returns] map_cong) auto
  finally show ?thesis .
qed

text \<open>C18. Statistics against a direct count: when the intervals asked for lie after 1970 and fit
  64-bit durations, \<open>GetStatsByInterval\<close> gives one entry per interval, newest first, the current
  one included, and each holds the number of stored torrents discovered in that interval, in
  total and by address family, as counting them one by one does.\<close>
theorem stats_equal_direct_count:
  assumes "clover_ok C valid rows" and "where_ok C" and "never_fails C rows" and "valid db" and "dated (rows TorrentTable db)"
    and "d = GetIntervalDuration interval" and "0 \<le> n" and "n * d < 2 ^ 63" and "unix_epoch \<le> Truncate t d - n * d"
  shows "GetStatsByInterval C interval n t db =
    Returns (map (\<lambda>i. stats_between discovered_on doc_family (rows TorrentTable db) (Truncate t d - int i * d) (Truncate t d - int i * d + d)) [0..<nat n])"
  using assms by (rule clover_stats_direct)

text \<open>A torrent discovered at second 5 of 1970 and a request in the second hour.\<close>
theorem stats_equal_direct_count_witness:
  "GetStatsByInterval list_clover ''hour'' 1 (unix_epoch + Hour + 5) sample_db =
    Returns [stats_between discovered_on doc_family (map_of (sample_db TorrentTable)) (unix_epoch + Hour) (unix_epoch + 2 * Hour)]"
proof -
  have "dated (map_of (sample_db TorrentTable))"
    by (simp add: dated_def sample_db_def torrent_doc_def)
  note st = stats_equal_direct_count [OF list_clover_ok list_where_ok list_never_fails, where db = sample_db, OF sample_valid this refl,
      where interval = "''hour''" and n = 1 and t = "unix_epoch + Hour + 5"]
  have d: "GetIntervalDuration ''hour'' = Hour" by (simp add: GetIntervalDuration_def)
  have t: "Truncate (unix_epoch + Hour + 5) Hour = unix_epoch + Hour"
    by (simp add: Truncate_def unix_epoch_def duration_defs)
  have "Hour < 2 ^ 63" by (simp add: duration_defs)
  then show ?thesis using st unfolding d t by (simp add: algebra_simps)
qed

end
