(* ===== verification/Repository_State.thy ===== *)
theory Repository_State
  imports Repository_Queries Cache
begin

text \<open>
  The database of the CloverDB repository over time: which documents its tables can hold after
  any sequence of the calls that change it (\<open>db/clover.go\<close>), what the blacklist, the random
  entries and the clearing of data do on such a database, and which hashes the process knows
  after a restart has read it (\<open>cache/cache.go\<close>).
\<close>

section \<open>What the tables hold\<close>

text \<open>
  Only documents written by the repository are in its tables, the torrents among \<open>M\<close>, and no blacklist entry is there
  twice. (The order of categories depends on a Go map, so the rules may differ from one
  insertion to the next.)
\<close>

definition written :: "'db Clover \<Rightarrow> Metadata set \<Rightarrow> (string \<rightharpoonup> Doc) \<Rightarrow> bool" where
  "written C M m \<longleftrightarrow> (\<forall>i d. m i = Some d \<longrightarrow> (\<exists>R. \<exists>md\<in>M. d = torrent_doc C R md))"

definition black_wf :: "(string \<rightharpoonup> Doc) \<Rightarrow> bool" where
  "black_wf m \<longleftrightarrow> (\<forall>i d. m i = Some d \<longrightarrow> (\<exists>f t. d = blacklist_doc f t)) \<and> inj_on m (dom m)"

definition watch_wf :: "(string \<rightharpoonup> Doc) \<Rightarrow> bool" where
  "watch_wf m \<longleftrightarrow> (\<forall>i d. m i = Some d \<longrightarrow> (\<exists>k s c. d = watch_doc k s c))"

definition repo_inv :: "'db Clover \<Rightarrow> Metadata set \<Rightarrow> ('db \<Rightarrow> bool) \<Rightarrow> (table \<Rightarrow> 'db \<Rightarrow> string \<rightharpoonup> Doc) \<Rightarrow> int \<Rightarrow> 'db \<Rightarrow> bool" where
  "repo_inv C M valid rows cap db \<longleftrightarrow>
    valid db \<and> written C M (rows TorrentTable db) \<and> black_wf (rows BlacklistTable db) \<and> watch_wf (rows WatchTable db)
    \<and> (0 < cap \<longrightarrow> card (dom (rows TorrentTable db)) \<le> nat cap)"

lemma written_dated: "written C M m \<Longrightarrow> dated m"
  by (fastforce simp: written_def dated_def torrent_doc_def)

lemma map_le_keeps:
  "m' \<subseteq>\<^sub>m m \<Longrightarrow> written C M m \<Longrightarrow> written C M m'"
  "m' \<subseteq>\<^sub>m m \<Longrightarrow> watch_wf m \<Longrightarrow> watch_wf m'"
  "m' \<subseteq>\<^sub>m m \<Longrightarrow> black_wf m \<Longrightarrow> black_wf m'"
proof -
  assume le: "m' \<subseteq>\<^sub>m m"
  then have sub: "m' i = Some d \<Longrightarrow> m i = Some d" for i d by (metis domI map_le_def)
  then show "written C M m \<Longrightarrow> written C M m'" "watch_wf m \<Longrightarrow> watch_wf m'"
    unfolding written_def watch_wf_def by blast+
  have "inj_on m (dom m) \<Longrightarrow> inj_on m' (dom m')" using le by (auto simp: inj_on_def map_le_def dom_def)
  then show "black_wf m \<Longrightarrow> black_wf m'" using sub unfolding black_wf_def by blast
qed

lemma delete_le: "m(i := None) \<subseteq>\<^sub>m m"
  by (simp add: map_le_def)

lemma written_insert: "written C M m \<Longrightarrow> written C (insert md M) (m(i \<mapsto> torrent_doc C R md))"
  unfolding written_def by (metis fun_upd_other fun_upd_same insert_iff option.inject)

lemma written_more: "written C M m \<Longrightarrow> M \<subseteq> M' \<Longrightarrow> written C M' m"
  unfolding written_def by blast

lemma watch_insert: "watch_wf m \<Longrightarrow> watch_wf (m(i \<mapsto> watch_doc k s c))"
  by (auto simp: watch_wf_def)

lemma blacklist_doc_eq [simp]: "blacklist_doc f t = blacklist_doc f' t' \<longleftrightarrow> f = f' \<and> t = t'"
proof
  assume "blacklist_doc f t = blacklist_doc f' t'"
  then have "blacklist_doc f t k = blacklist_doc f' t' k" for k by simp
  from this [of "''Filter''"] this [of "''Type''"] show "f = f' \<and> t = t'" by (simp add: blacklist_doc_def)
qed simp

lemma black_insert:
  assumes "black_wf m" and "m i = None" and "blacklist_doc f t \<notin> ran m"
  shows "black_wf (m(i \<mapsto> blacklist_doc f t))"
proof -
  have "Some (blacklist_doc f t) \<notin> m ` (dom m - {i})" using assms(3) by (force simp: ran_def)
  moreover have "inj_on m (dom m - {i})" using assms(1) by (auto simp: black_wf_def inj_on_def)
  ultimately have "inj_on (m(i \<mapsto> blacklist_doc f t)) (insert i (dom m))"
    by (auto simp: inj_on_def) (metis domI insertI1 Diff_iff imageI singletonD)+
  then show ?thesis using assms(1) unfolding black_wf_def by simp
qed

lemma isInBlacklist_iff:
  assumes "clover_ok C valid rows" and "where_ok C" and "never_fails C rows" and "valid db" and "black_wf (rows BlacklistTable db)"
  shows "isInBlacklist C f t db \<longleftrightarrow> blacklist_doc f t \<in> ran (rows BlacklistTable db)"
proof -
  have crit: "Where_Eq C ''Filter'' f (blacklist_doc f' t') \<longleftrightarrow> f' = f" "Where_Eq C ''Type'' t (blacklist_doc f' t') \<longleftrightarrow> t' = t" for f' t'
    using assms(2) unfolding where_ok_def by (simp_all add: blacklist_doc_def)
  have "isInBlacklist C f t db \<longleftrightarrow> (\<exists>i d. rows BlacklistTable db i = Some d \<and> Where_Eq C ''Filter'' f d \<and> Where_Eq C ''Type'' t d)"
    unfolding isInBlacklist_def by (rule or_empty_rows [OF assms(1,3,4)])
  also have "\<dots> \<longleftrightarrow> (\<exists>i. rows BlacklistTable db i = Some (blacklist_doc f t))"
    using assms(5) unfolding black_wf_def by (metis crit)
  finally show ?thesis by (simp add: ran_def)
qed

section \<open>Every operation keeps the tables well-formed\<close>

lemma add_filter_effect:
  assumes ok: "clover_ok C valid rows" "where_ok C" "never_fails C rows"
    and db: "valid db" "black_wf (rows BlacklistTable db)" and run: "add_filter C ty f (r, db) = (r', db')"
  shows "valid db' \<and> black_wf (rows BlacklistTable db') \<and> (\<forall>u. u \<noteq> BlacklistTable \<longrightarrow> rows u db' = rows u db)
    \<and> ran (rows BlacklistTable db') = insert (blacklist_doc f ty) (ran (rows BlacklistTable db))
    \<and> (r' \<longleftrightarrow> r \<or> blacklist_doc f ty \<notin> ran (rows BlacklistTable db))"
proof (cases "isInBlacklist C f ty db")
  case True
  then have "blacklist_doc f ty \<in> ran (rows BlacklistTable db)" using isInBlacklist_iff [OF ok db] by simp
  moreover have "r' = r" "db' = db" using run True by (simp_all add: add_filter_def)
  ultimately show ?thesis using db by auto
next
  case False
  then have new: "blacklist_doc f ty \<notin> ran (rows BlacklistTable db)" using isInBlacklist_iff [OF ok db] by simp
  obtain db1 where db1: "InsertOne C BlacklistTable (blacklist_doc f ty) db = Some db1" using never_failsD(4) [OF ok(3)] by blast
  then have eq: "r'" "db' = db1" using run False by (simp_all add: add_filter_def)
  from InsertOne_adds [OF ok(1) db(1) db1] obtain i where i: "valid db1" "rows BlacklistTable db i = None"
    "rows BlacklistTable db1 = (rows BlacklistTable db)(i \<mapsto> blacklist_doc f ty)" "\<And>u. u \<noteq> BlacklistTable \<Longrightarrow> rows u db1 = rows u db"
    by blast
  then show ?thesis using black_insert [OF db(2) i(2) new] new eq by (simp add: ran_map_upd)
qed

lemma AddToBlacklist_effect:
  assumes ok: "clover_ok C valid rows" "where_ok C" "never_fails C rows"
  shows "valid db \<Longrightarrow> black_wf (rows BlacklistTable db) \<Longrightarrow> fold (add_filter C ty) fs (r, db) = (r', db') \<Longrightarrow>
    valid db' \<and> black_wf (rows BlacklistTable db') \<and> (\<forall>u. u \<noteq> BlacklistTable \<longrightarrow> rows u db' = rows u db)
    \<and> ran (rows BlacklistTable db') = (\<lambda>f. blacklist_doc f ty) ` set fs \<union> ran (rows BlacklistTable db)
    \<and> (r' \<longleftrightarrow> r \<or> (\<exists>f\<in>set fs. blacklist_doc f ty \<notin> ran (rows BlacklistTable db)))"
proof (induction fs arbitrary: r db)
  case (Cons f fs)
  obtain r1 db1 where s: "add_filter C ty f (r, db) = (r1, db1)" by (rule prod.exhaust)
  note e = add_filter_effect [OF ok Cons.prems(1,2) s]
  then have "fold (add_filter C ty) fs (r1, db1) = (r', db')" using Cons.prems(3) s by simp
  with e Cons.IH [of db1 r1] show ?case by auto
qed simp

lemma repo_inv_more: "repo_inv C M valid rows cap db \<Longrightarrow> M \<subseteq> M' \<Longrightarrow> repo_inv C M' valid rows cap db"
  by (auto simp: repo_inv_def intro: written_more)

datatype repo_event =
    RInsert Rules bool bool Metadata
  | RAddWatch string string string
  | RDeleteWatch string
  | RAddBlack "string list" string
  | RDeleteBlack string
  | RStats Stats
  | RClear

text \<open>The calls that change the database; an error leaves what the call had done.\<close>

definition or_same :: "'a \<Rightarrow> 'a option \<Rightarrow> 'a" where
  "or_same db r = (case r of None \<Rightarrow> db | Some db' \<Rightarrow> db')"

fun repo_step :: "'db Clover \<Rightarrow> int \<Rightarrow> 'db \<Rightarrow> repo_event \<Rightarrow> 'db" where
  "repo_step C cap db (RInsert R chinese black md) =
    snd (InsertMetadata C R \<lparr>rc_OnlyChineseContent = chinese, rc_EnableBlacklist = black, rc_MaxSavedTorrents = cap\<rparr> md db)"
| "repo_step C cap db (RAddWatch key searchType searchInput) = snd (InsertWatchEntry C key searchType searchInput db)"
| "repo_step C cap db (RDeleteWatch i) = or_same db (DeleteWatchEntry C i db)"
| "repo_step C cap db (RAddBlack filters entryType) = snd (AddToBlacklist C filters entryType db)"
| "repo_step C cap db (RDeleteBlack i) = or_same db (DeleteBlacklistItem C i db)"
| "repo_step C cap db (RStats stats) = or_same db (InsertStats C stats db)"
| "repo_step C cap db RClear = snd (ClearCapturedData C db)"

lemma ClearCapturedData_effect:
  assumes "clover_ok C valid rows" and "never_fails C rows" and "valid db"
  obtains db' where "ClearCapturedData C db = (True, db')" and "valid db'"
    and "rows TorrentTable db' = Map.empty" and "rows StatsTable db' = Map.empty"
    and "rows WatchTable db' = rows WatchTable db" and "rows BlacklistTable db' = rows BlacklistTable db"
proof -
  obtain d1 where d1: "Delete C TorrentTable db = Some d1" using never_failsD(6) [OF assms(2)] by blast
  obtain d2 where d2: "Delete C StatsTable d1 = Some d2" using never_failsD(6) [OF assms(2)] by blast
  note r1 = Delete_empties [OF assms(1,3) d1] and r2 = Delete_empties [OF assms(1) Delete_empties(1) [OF assms(1,3) d1] d2]
  show thesis using r1 r2 d1 d2 by (intro that [of d2]) (simp_all add: ClearCapturedData_def)
qed

lemma insert_keeps:
  assumes ok: "clover_ok C valid rows" "never_fails C rows" and inv: "repo_inv C M valid rows (rc_MaxSavedTorrents cfg) db"
  shows "repo_inv C (insert md M) valid rows (rc_MaxSavedTorrents cfg) (snd (InsertMetadata C R cfg md db))"
proof (cases "fst (InsertMetadata C R cfg md db)")
  case False
  then have "snd (InsertMetadata C R cfg md db) = db" by (auto simp: InsertMetadata_def split: option.splits)
  then show ?thesis using repo_inv_more [OF inv] by auto
next
  case True
  then obtain db1 where db1: "InsertOne C TorrentTable (torrent_doc C R md) db = Some db1"
    "snd (InsertMetadata C R cfg md db) = pruneOldTorrents C cfg db1"
    by (auto simp: InsertMetadata_def split: if_splits option.splits)
  have "valid db" using inv by (simp add: repo_inv_def)
  from InsertOne_adds [OF ok(1) this db1(1)] obtain i where i: "valid db1"
    "rows TorrentTable db1 = (rows TorrentTable db)(i \<mapsto> torrent_doc C R md)" "\<And>u. u \<noteq> TorrentTable \<Longrightarrow> rows u db1 = rows u db"
    by blast
  then have w: "written C (insert md M) (rows TorrentTable db1)" using inv by (simp add: repo_inv_def written_insert)
  show ?thesis
  proof (cases "0 < rc_MaxSavedTorrents cfg")
    case True
    with prune_rows [OF ok i(1) True] i(3) w inv show ?thesis
      unfolding db1(2) by (auto simp: repo_inv_def pruned_to_def intro: map_le_keeps)
  next
    case False
    then show ?thesis using i w inv by (simp add: db1(2) pruneOldTorrents_def repo_inv_def)
  qed
qed

text \<open>The torrents a call was given.\<close>

fun inserted :: "repo_event \<Rightarrow> Metadata set" where
  "inserted (RInsert R chinese black md) = {md}"
| "inserted _ = {}"

lemma repo_step_keeps:
  assumes ok: "clover_ok C valid rows" "where_ok C" "never_fails C rows" and inv: "repo_inv C M valid rows cap db"
  shows "repo_inv C (M \<union> inserted e) valid rows cap (repo_step C cap db e)"
proof (cases e)
  case (RInsert R chinese black md)
  then show ?thesis using insert_keeps [OF ok(1,3), where cfg = "\<lparr>rc_OnlyChineseContent = chinese, rc_EnableBlacklist = black, rc_MaxSavedTorrents = cap\<rparr>"] inv by simp
next
  case (RAddWatch k s c)
  obtain db1 where db1: "InsertOne C WatchTable (watch_doc k s c) db = Some db1" using never_failsD(4) [OF ok(3)] by blast
  from inv have "valid db" by (simp add: repo_inv_def)
  from InsertOne_adds [OF ok(1) this db1] obtain i where i: "valid db1"
    "rows WatchTable db1 = (rows WatchTable db)(i \<mapsto> watch_doc k s c)" "\<And>u. u \<noteq> WatchTable \<Longrightarrow> rows u db1 = rows u db" by blast
  then show ?thesis using inv by (simp add: RAddWatch InsertWatchEntry_def db1 repo_inv_def watch_insert)
next
  case (RDeleteWatch i)
  from inv have v: "valid db" by (simp add: repo_inv_def)
  show ?thesis
    using DeleteById_removes [OF ok(1) v, of WatchTable i] inv map_le_keeps(2) [OF delete_le]
    by (auto simp: RDeleteWatch DeleteWatchEntry_def or_same_def repo_inv_def split: option.split)
next
  case (RAddBlack fs ty)
  obtain r db1 where run: "fold (add_filter C ty) fs (False, db) = (r, db1)" by (rule prod.exhaust)
  from inv have "valid db" "black_wf (rows BlacklistTable db)" by (simp_all add: repo_inv_def)
  from AddToBlacklist_effect [OF ok this run] inv show ?thesis by (simp add: RAddBlack AddToBlacklist_def run repo_inv_def)
next
  case (RDeleteBlack i)
  from inv have v: "valid db" by (simp add: repo_inv_def)
  show ?thesis
    using DeleteById_removes [OF ok(1) v, of BlacklistTable i] inv map_le_keeps(3) [OF delete_le]
    by (auto simp: RDeleteBlack DeleteBlacklistItem_def or_same_def repo_inv_def split: option.split)
next
  case (RStats s)
  obtain db1 where db1: "InsertOne C StatsTable (stats_doc s) db = Some db1" using never_failsD(4) [OF ok(3)] by blast
  from inv have "valid db" by (simp add: repo_inv_def)
  from InsertOne_adds [OF ok(1) this db1] obtain i where i: "valid db1" "\<And>u. u \<noteq> StatsTable \<Longrightarrow> rows u db1 = rows u db" by blast
  then show ?thesis using inv by (simp add: RStats InsertStats_def or_same_def db1 repo_inv_def)
next
  case RClear
  from inv have "valid db" by (simp add: repo_inv_def)
  from ClearCapturedData_effect [OF ok(1,3) this] obtain db' where "ClearCapturedData C db = (True, db')" "valid db'"
    "rows TorrentTable db' = Map.empty" "rows WatchTable db' = rows WatchTable db" "rows BlacklistTable db' = rows BlacklistTable db"
    by blast
  then show ?thesis using inv by (simp add: RClear repo_inv_def written_def)
qed

section \<open>Properties\<close>

lemma readback:
  "Document2MetaData R (torrent_doc C Q md) =
    \<lparr>m_Name = md_Name md, m_InfoHash = hex_EncodeToString (md_InfoHash md),
     m_DiscoveredOn = rfc822 R (time_Unix (md_DiscoveredOn md)), m_TotalSize = md_TotalSize md,
     m_Files = map (file_value C) (md_Files md), m_Categories = Categorize Q md, m_Family = md_Family md\<rparr>"
proof -
  have "strings_of (map DStr xs) = xs" for xs by (induction xs) (simp_all add: strings_of_def List.map_filter_def)
  then show ?thesis
    by (simp add: Document2MetaData_def torrent_doc_def doc_text_def doc_string_def doc_int_def doc_uint_def doc_categories_def numericInt_def)
qed

lemma repo_run_keeps:
  assumes "clover_ok C valid rows" and "where_ok C" and "never_fails C rows"
  shows "repo_inv C M valid rows cap db \<Longrightarrow> repo_inv C (M \<union> \<Union> (inserted ` set es)) valid rows cap (foldl (repo_step C cap) db es)"
proof (induction es arbitrary: db M)
  case (Cons e es)
  from Cons.IH [OF repo_step_keeps [OF assms Cons.prems]] show ?case by (simp add: Un_assoc)
qed simp

lemma repo_inv_empty: "valid db \<Longrightarrow> (\<And>t. rows t db = Map.empty) \<Longrightarrow> repo_inv C {} valid rows cap db"
  by (simp add: repo_inv_def written_def black_wf_def watch_wf_def)

lemma reachable_inv:
  assumes "clover_ok C valid rows" and "where_ok C" and "never_fails C rows" and "valid start" and "\<And>t. rows t start = Map.empty"
    and "db = foldl (repo_step C cap) start es"
  shows "repo_inv C (\<Union> (inserted ` set es)) valid rows cap db"
proof -
  have "repo_inv C {} valid rows cap start" using assms(4,5) by (rule repo_inv_empty)
  from repo_run_keeps [OF assms(1-3) this, of es] show ?thesis by (simp add: assms(6))
qed

text \<open>C16. The database stays well-formed: after any sequence of the calls that change it, from
  empty tables and with a fixed limit, every torrent is one that \<open>InsertMetadata\<close> was given and is
  read back with the name, hash, size, files, categories and family it was captured with, no
  blacklist entry is there twice, and there are never more torrents than the limit.\<close>
theorem database_reachable:
  assumes "clover_ok C valid rows" and "where_ok C" and "never_fails C rows" and "valid start" and "\<And>t. rows t start = Map.empty"
    and "db = foldl (repo_step C cap) start es"
  shows "valid db
    \<and> (\<forall>i d R. rows TorrentTable db i = Some d \<longrightarrow> (\<exists>md Q. md \<in> \<Union> (inserted ` set es) \<and> Document2MetaData R d =
        \<lparr>m_Name = md_Name md, m_InfoHash = hex_EncodeToString (md_InfoHash md),
         m_DiscoveredOn = rfc822 R (time_Unix (md_DiscoveredOn md)), m_TotalSize = md_TotalSize md,
         m_Files = map (file_value C) (md_Files md), m_Categories = Categorize Q md, m_Family = md_Family md\<rparr>))
    \<and> (\<forall>i j d. rows BlacklistTable db i = Some d \<and> rows BlacklistTable db j = Some d \<longrightarrow> i = j)
    \<and> (0 < cap \<longrightarrow> int (card (dom (rows TorrentTable db))) \<le> cap)"
proof -
  note inv = reachable_inv [OF assms]
  then have "inj_on (rows BlacklistTable db) (dom (rows BlacklistTable db))" by (simp add: repo_inv_def black_wf_def)
  then have "\<forall>i j d. rows BlacklistTable db i = Some d \<and> rows BlacklistTable db j = Some d \<longrightarrow> i = j"
    by (metis domI inj_onD)
  moreover have "\<exists>md Q. md \<in> \<Union> (inserted ` set es) \<and> Document2MetaData R d =
        \<lparr>m_Name = md_Name md, m_InfoHash = hex_EncodeToString (md_InfoHash md),
         m_DiscoveredOn = rfc822 R (time_Unix (md_DiscoveredOn md)), m_TotalSize = md_TotalSize md,
         m_Files = map (file_value C) (md_Files md), m_Categories = Categorize Q md, m_Family = md_Family md\<rparr>"
    if "rows TorrentTable db i = Some d" for i d R
  proof -
    have "written C (\<Union> (inserted ` set es)) (rows TorrentTable db)" using inv by (simp add: repo_inv_def)
    then obtain Q md where "md \<in> \<Union> (inserted ` set es)" "d = torrent_doc C Q md" using \<open>rows TorrentTable db i = Some d\<close>
      unfolding written_def by blast
    then show ?thesis using readback [of R C Q md] by blast
  qed
  moreover have "valid db" "0 < cap \<longrightarrow> int (card (dom (rows TorrentTable db))) \<le> cap" using inv by (auto simp: repo_inv_def)
  ultimately show ?thesis by blast
qed

lemma Populate_known:
  "infoHashExpiry c = [] \<Longrightarrow>
    infoHashExpiry (PopulateInfoHashCacheFromDatabase t (Some ihs) c) = []
    \<and> infoHashCache (PopulateInfoHashCacheFromDatabase t (Some ihs) c) = infoHashCache c \<union> {h. \<exists>ih\<in>set ihs. hex_DecodeString ih = Some h}"
proof (induction ihs arbitrary: c)
  case (Cons ih ihs)
  then show ?case
    using Cons.IH [of "snd (InfoHashCacheAdd t (the (hex_DecodeString ih)) c)"] Cons.IH [of c]
    by (cases "hex_DecodeString ih") (auto simp: PopulateInfoHashCacheFromDatabase_def)
qed (simp add: PopulateInfoHashCacheFromDatabase_def)

lemma known_iff_stored:
  assumes "clover_ok C valid rows" and "never_fails C rows" and "valid db" and w: "written C M (rows TorrentTable db)"
  shows "InfoHashCacheContains h (PopulateInfoHashCacheFromDatabase t (GetAllInfoHashes C db) empty_cache) \<longleftrightarrow>
    (\<exists>i Q md. rows TorrentTable db i = Some (torrent_doc C Q md) \<and> md_InfoHash md = h)"
proof -
  obtain xs where xs: "FindAll C TorrentTable (\<lambda>_. True) db = Some xs" "listing (rows TorrentTable db) xs"
    using found_listing [OF assms(1-3), of TorrentTable "\<lambda>_. True"] by auto
  have "hex_DecodeString (doc_text (torrent_doc C Q md ''InfoHash'')) = Some (md_InfoHash md)" for Q md
    by (simp add: torrent_doc_def doc_text_def doc_string_def hex_roundtrip)
  moreover have "\<exists>Q md. d = torrent_doc C Q md" if "(i, d) \<in> set xs" for i d
    using that w listing_mem [OF xs(2)] unfolding written_def by blast
  ultimately have "(\<exists>ih\<in>set (map (\<lambda>(i, d). doc_text (d ''InfoHash'')) xs). hex_DecodeString ih = Some h)
      \<longleftrightarrow> (\<exists>i Q md. (i, torrent_doc C Q md) \<in> set xs \<and> md_InfoHash md = h)"
    by (auto simp: Bex_def image_iff split: prod.splits) (metis option.inject)+
  then show ?thesis
    using Populate_known [of empty_cache t "map (\<lambda>(i, d). doc_text (d ''InfoHash'')) xs"] listing_mem [OF xs(2)]
    by (simp add: InfoHashCacheContains_def GetAllInfoHashes_def xs(1))
qed

text \<open>C19. Known hashes survive a restart: when the process starts and reads its database, the
  known hashes are exactly the info hashes of the torrents stored, whatever the calls that
  wrote them; a torrent that was pruned or cleared is unknown again.\<close>
theorem restart_knows_stored:
  assumes "clover_ok C valid rows" and "where_ok C" and "never_fails C rows" and "valid start" and "\<And>t. rows t start = Map.empty"
    and "db = foldl (repo_step C cap) start es"
  shows "InfoHashCacheContains h (PopulateInfoHashCacheFromDatabase t (GetAllInfoHashes C db) empty_cache) \<longleftrightarrow>
    (\<exists>i Q md. rows TorrentTable db i = Some (torrent_doc C Q md) \<and> md_InfoHash md = h)"
  using reachable_inv [OF assms] by (intro known_iff_stored [OF assms(1,3)]) (auto simp: repo_inv_def)

text \<open>Adding to the blacklist: on a working database every filter given is in the blacklist
  afterwards with its type, once, nothing else is added or removed there, the other tables do
  not change, and the answer says whether at least one filter was new.\<close>
theorem blacklist_add_exact:
  assumes "clover_ok C valid rows" and "where_ok C" and "never_fails C rows" and "valid db" and "black_wf (rows BlacklistTable db)"
    and "AddToBlacklist C filters entryType db = (added, db')"
  shows "black_wf (rows BlacklistTable db')
    \<and> ran (rows BlacklistTable db') = ran (rows BlacklistTable db) \<union> {blacklist_doc f entryType | f. f \<in> set filters}
    \<and> (\<forall>u. u \<noteq> BlacklistTable \<longrightarrow> rows u db' = rows u db)
    \<and> (added \<longleftrightarrow> (\<exists>f. f \<in> set filters \<and> blacklist_doc f entryType \<notin> ran (rows BlacklistTable db)))"
  using AddToBlacklist_effect [OF assms(1-5) assms(6) [unfolded AddToBlacklist_def]] by (auto simp: image_iff)

lemma stored_converted:
  assumes "listing m xs"
  shows "set (Documents2MetaData R xs) = {Document2MetaData R d | d. d \<in> ran m}"
  using listing_mem [OF assms] by (force simp: Documents2MetaData_def ran_def image_iff)

text \<open>Random entries: for a number that is not negative the page shows that many torrents, or
  as many as are stored if that is less, each of them stored (one may appear twice); for a
  negative number, which the page does not exclude, the request panics.\<close>
theorem random_entries_stored:
  assumes "clover_ok C valid rows" and "never_fails C rows" and "valid db"
    and "\<And>i. 0 < card (dom (rows TorrentTable db)) \<Longrightarrow> rnd i < card (dom (rows TorrentTable db))"
  shows "if N < 0 then GetNRandomEntries C R rnd N db = Panics
    else \<exists>xs. GetNRandomEntries C R rnd N db = Returns xs \<and> length xs = min (nat N) (card (dom (rows TorrentTable db)))
      \<and> set xs \<subseteq> {Document2MetaData R d | d. d \<in> ran (rows TorrentTable db)}"
proof -
  define n where "n = card (dom (rows TorrentTable db))"
  obtain xs where xs: "FindAll C TorrentTable (\<lambda>_. True) db = Some xs" "listing (rows TorrentTable db) xs"
    using found_listing [OF assms(1-3), of TorrentTable "\<lambda>_. True"] by auto
  obtain cnt where c: "Count C TorrentTable (\<lambda>_. True) db = Some cnt" using never_failsD(3) [OF assms(2)] by blast
  then have cnt: "cnt = n" using Count_card [OF assms(1,3) c] by (simp add: n_def)
  have len: "length xs = n" using listing_card [OF xs(2)] by (simp add: n_def)
  have neg: "GetNRandomEntries C R rnd N db = Panics" if "N < 0"
    using that by (simp add: GetNRandomEntries_def c Let_def)
  have pos: "\<exists>ys. GetNRandomEntries C R rnd N db = Returns ys \<and> length ys = min (nat N) n
      \<and> set ys \<subseteq> {Document2MetaData R d | d. d \<in> ran (rows TorrentTable db)}" if N: "\<not> N < 0"
  proof -
    define k where "k = min (nat N) n"
    have k: "nat (if int cnt < N then int cnt else N) = k" using N by (auto simp: k_def cnt)
    have r: "rnd i < length xs" if "i < k" for i using that assms(4) [folded n_def, of i] by (auto simp: k_def len)
    have "GetNRandomEntries C R rnd N db = Returns (Documents2MetaData R (map (\<lambda>i. xs ! rnd i) [0..<k]))"
      using N r unfolding GetNRandomEntries_def Let_def c xs(1) option.case or_empty_def k by (auto simp: not_le cnt)
    moreover have "set (Documents2MetaData R (map (\<lambda>i. xs ! rnd i) [0..<k])) \<subseteq> set (Documents2MetaData R xs)"
      using r by (force simp: Documents2MetaData_def intro!: nth_mem)
    ultimately show ?thesis using stored_converted [OF xs(2)] by (simp add: k_def Documents2MetaData_def)
  qed
  show ?thesis using neg pos by (simp add: n_def)
qed

lemma filter_one: "distinct ys \<Longrightarrow> length (filter (\<lambda>c. c = k) ys) = (if k \<in> set ys then 1 else 0)"
  by (induction ys) auto

lemma count_concat_distinct:
  "(\<And>x. x \<in> set xs \<Longrightarrow> distinct (f x)) \<Longrightarrow> length (filter (\<lambda>c. c = k) (concat (map f xs))) = length (filter (\<lambda>x. k \<in> set (f x)) xs)"
proof (induction xs)
  case (Cons x xs)
  have "distinct (f x)" using Cons.prems by simp
  then have "length (filter (\<lambda>c. c = k) (f x)) = (if k \<in> set (f x) then 1 else 0)"
    using filter_one [of "f x" k] by simp
  then show ?case using Cons by simp
qed simp

lemma tally_count: "tally 0 (\<lambda>c. c) (\<lambda>_. Suc) cs k =
    (if k \<in> set cs then Some (length (filter (\<lambda>c. c = k) cs)) else None)"
proof -
  have fs: "fold (\<lambda>_. Suc) ys n = n + length ys" for ys :: "'a list" and n by (induction ys arbitrary: n) auto
  have "k \<in> dom (tally 0 (\<lambda>c. c) (\<lambda>_. Suc) cs) \<longleftrightarrow> k \<in> set cs" by (simp add: tally_dom)
  moreover have "entry 0 (tally 0 (\<lambda>c. c) (\<lambda>_. Suc) cs) k = length (filter (\<lambda>c. c = k) cs)" by (simp add: tally_entry fs)
  ultimately show ?thesis by (auto simp: entry_def split: option.splits)
qed

text \<open>The category chart: with no category twice in one torrent, the number shown for a
  category is the number of stored torrents that have it, torrents without one counting as
  \<open>unknown\<close>, and a category is shown exactly when some torrent has it.\<close>
theorem categories_counted:
  assumes "clover_ok C valid rows" and "never_fails C rows" and "valid db"
    and "\<And>i d. rows TorrentTable db i = Some d \<Longrightarrow> distinct (dist_categories d)"
  shows "\<exists>dist. GetCategoryDistribution C db = Some dist
    \<and> (\<forall>c. dist c = (let n = number_of (rows TorrentTable db) (\<lambda>d. c \<in> set (dist_categories d)) in if n = 0 then None else Some n))"
proof -
  obtain xs where xs: "FindAll C TorrentTable (\<lambda>_. True) db = Some xs" "listing (rows TorrentTable db) xs"
    using found_listing [OF assms(1-3), of TorrentTable "\<lambda>_. True"] by auto
  define cs where "cs = concat (map dist_categories (map snd xs))"
  have "distinct (dist_categories d)" if "d \<in> set (map snd xs)" for d
    using that assms(4) listing_mem [OF xs(2)] by auto
  then have n: "length (filter (\<lambda>x. x = c) cs) = number_of (rows TorrentTable db) (\<lambda>d. c \<in> set (dist_categories d))" for c
    unfolding cs_def listing_filter [OF xs(2), symmetric] by (rule count_concat_distinct)
  have "GetCategoryDistribution C db = Some (tally 0 (\<lambda>c. c) (\<lambda>_. Suc) cs)"
    by (simp add: GetCategoryDistribution_def xs(1) cs_def case_prod_unfold comp_def)
  moreover have "tally 0 (\<lambda>c. c) (\<lambda>_. Suc) cs c = (let n = number_of (rows TorrentTable db) (\<lambda>d. c \<in> set (dist_categories d)) in if n = 0 then None else Some n)" for c
    unfolding tally_count n [symmetric] by (simp add: Let_def filter_empty_conv)
  ultimately show ?thesis by blast
qed

lemma fold_count_family:
  "fold count_family ds (a, b, c) =
    (a + length (filter (\<lambda>d. numericInt (d ''Family'') = 4) ds), b + length (filter (\<lambda>d. numericInt (d ''Family'') = 6) ds),
     c + length (filter (\<lambda>d. numericInt (d ''Family'') \<noteq> 4 \<and> numericInt (d ''Family'') \<noteq> 6) ds))"
  by (induction ds arbitrary: a b c) (simp_all add: Let_def)

text \<open>The counts by family add up to the number of torrents.\<close>
theorem family_counts_partition:
  "(case GetFamilyCounts C db of (ipv4, ipv6, unknown) \<Rightarrow> ipv4 + ipv6 + unknown) = GetInfoHashCount C db"
proof -
  have "length (filter (\<lambda>d. numericInt (d ''Family'') = 4) ds) + length (filter (\<lambda>d. numericInt (d ''Family'') = 6) ds)
      + length (filter (\<lambda>d. numericInt (d ''Family'') \<noteq> 4 \<and> numericInt (d ''Family'') \<noteq> 6) ds) = length ds" for ds :: "Doc list"
    by (induction ds) auto
  from this [of "map snd (or_empty (FindAll C TorrentTable (\<lambda>_. True) db))"]
  show ?thesis by (simp only: GetFamilyCounts_def GetInfoHashCount_def fold_count_family prod.case add_0 length_map)
qed

section \<open>Witnesses\<close>

definition no_rows :: list_db where
  "no_rows t = []"

lemma no_rows_valid: "list_valid no_rows"
  by (simp add: list_valid_def no_rows_def)

lemma no_rows_empty: "map_of (no_rows t) = Map.empty"
  by (simp add: no_rows_def)

definition hashed :: Metadata where
  "hashed = (named ''gamma'' 9)\<lparr>md_InfoHash := [7, 8]\<rparr>"

definition sample_calls :: "repo_event list" where
  "sample_calls = [RAddBlack [''beta'', ''beta''] ''0'', RInsert plain_rules False True (named ''beta'' 3), RInsert plain_rules False True hashed]"

lemma sample_run:
  "foldl (repo_step list_clover 5) no_rows sample_calls =
    no_rows(BlacklistTable := [(''x'', blacklist_doc ''beta'' ''0'')], TorrentTable := [(''x'', torrent_doc list_clover plain_rules hashed)])"
  by (simp add: sample_calls_def no_rows_def AddToBlacklist_def add_filter_def isInBlacklist_def list_clover_def or_empty_def
      blacklist_doc_def InsertMetadata_def IsBlacklisted_def blacklist_match_def plain_rules_def doc_text_def doc_string_def
      named_def hashed_def pruneOldTorrents_def fresh_id_def)

theorem database_reachable_witness:
  "inj_on (map_of (foldl (repo_step list_clover 5) no_rows sample_calls BlacklistTable)) {''x''}
   \<and> int (card (dom (map_of (foldl (repo_step list_clover 5) no_rows sample_calls TorrentTable)))) \<le> 5"
  using database_reachable [OF list_clover_ok list_where_ok list_never_fails, where start = no_rows and cap = 5 and es = sample_calls,
      OF no_rows_valid no_rows_empty refl]
  by simp

theorem restart_knows_stored_witness:
  "InfoHashCacheContains [7, 8] (PopulateInfoHashCacheFromDatabase 0
      (GetAllInfoHashes list_clover (foldl (repo_step list_clover 5) no_rows sample_calls)) empty_cache)"
proof -
  have "map_of (foldl (repo_step list_clover 5) no_rows sample_calls TorrentTable) ''x'' = Some (torrent_doc list_clover plain_rules hashed)"
    by (simp add: sample_run)
  moreover have "md_InfoHash hashed = [7, 8]" by (simp add: hashed_def)
  ultimately show ?thesis
    using restart_knows_stored [OF list_clover_ok list_where_ok list_never_fails, where start = no_rows and cap = 5 and es = sample_calls
        and h = "[7, 8]" and t = 0, OF no_rows_valid no_rows_empty refl]
    by blast
qed

theorem blacklist_add_exact_witness:
  "ran (map_of (snd (AddToBlacklist list_clover [''beta''] ''0'' no_rows) BlacklistTable)) = {blacklist_doc ''beta'' ''0''}"
proof -
  have "black_wf (map_of (no_rows BlacklistTable))" by (simp add: no_rows_def black_wf_def)
  from blacklist_add_exact [OF list_clover_ok list_where_ok list_never_fails, where db = no_rows and filters = "[''beta'']" and entryType = "''0''",
      OF no_rows_valid this prod.collapse [symmetric]]
  show ?thesis by (simp add: no_rows_def)
qed

lemma sample_torrents: "map_of (sample_db TorrentTable) = [''a'' \<mapsto> torrent_doc list_clover plain_rules (named ''alpha'' 5)]"
  by (simp add: sample_db_def)

theorem random_entries_stored_witness:
  "GetNRandomEntries list_clover plain_rules (\<lambda>_. 0) (- 1) sample_db = Panics
   \<and> (\<exists>xs. GetNRandomEntries list_clover plain_rules (\<lambda>_. 0) 3 sample_db = Returns xs \<and> length xs = 1)"
  using random_entries_stored [OF list_clover_ok list_never_fails, where db = sample_db, OF sample_valid, where rnd = "\<lambda>_. 0" and N = "- 1" and R = plain_rules]
    random_entries_stored [OF list_clover_ok list_never_fails, where db = sample_db, OF sample_valid, where rnd = "\<lambda>_. 0" and N = 3 and R = plain_rules]
  by (auto simp: sample_torrents)

lemma sample_categories: "dist_categories (torrent_doc list_clover plain_rules (named n t)) = [''Unknown'']"
  by (simp add: dist_categories_def torrent_doc_def Categorize_def named_def strings_of_def List.map_filter_def)

theorem categories_counted_witness:
  "\<exists>dist. GetCategoryDistribution list_clover sample_db = Some dist \<and> dist ''Unknown'' = Some 1 \<and> dist ''Video'' = None"
proof -
  have c: "dist_categories d = [''Unknown'']" if "map_of (sample_db TorrentTable) i = Some d" for i d
    using that sample_categories by (auto simp: sample_torrents split: if_splits)
  have "number_of (map_of (sample_db TorrentTable)) (\<lambda>d. ''Unknown'' \<in> set (dist_categories d)) = 1"
    by (simp add: number_of_def sample_torrents sample_categories)
  moreover have "number_of (map_of (sample_db TorrentTable)) (\<lambda>d. ''Video'' \<in> set (dist_categories d)) = 0"
    by (simp add: number_of_def sample_torrents sample_categories)
  ultimately show ?thesis
    using categories_counted [OF list_clover_ok list_never_fails, where db = sample_db, OF sample_valid] c by (fastforce simp: Let_def)
qed

end
