(* ===== verification/Web_Pages.thy ===== *)
theory Web_Pages
  imports Repository_State
begin

text \<open>
  The pages and JSON endpoints over the repository: \<open>ui/helpers.go\<close> (paging and search
  parameters), \<open>ui/api.go\<close>, \<open>ui/search.go\<close>, \<open>ui/discover.go\<close>, \<open>ui/blacklist.go\<close>, \<open>ui/watch.go\<close>,
  \<open>ui/saved.go\<close> and the choice of language in \<open>ui/i18n.go\<close>. A handler's result is what it hands to
  the template or the JSON encoder; an error of the repository answered with status 500 is
  \<open>None\<close>.
\<close>

section \<open>Parameters of a request\<close>

type_synonym Form = "string \<rightharpoonup> string"

text \<open>gin: \<open>DefaultQuery\<close>, and \<open>Query\<close> and \<open>PostForm\<close>, which give an empty text for an absent key.\<close>

definition DefaultQuery :: "Form \<Rightarrow> string \<Rightarrow> string \<Rightarrow> string" where
  "DefaultQuery q k d = (case q k of None \<Rightarrow> d | Some v \<Rightarrow> v)"

definition Query :: "Form \<Rightarrow> string \<Rightarrow> string" where
  "Query q k = DefaultQuery q k ''''"

definition parsePagination :: "Form \<Rightarrow> int \<times> int \<times> int" where
  "parsePagination q =
    (let page0 = Atoi_value (DefaultQuery q ''page'' ''1'');
         limit0 = Atoi_value (DefaultQuery q ''limit'' ''50'');
         page = (if page0 < 1 then 1 else page0);
         lmt = (if limit0 < 1 then 50 else limit0)
     in (page, lmt, int64 ((page - 1) * lmt)))"

record SearchParams =
  sp_Key :: string
  sp_MatchType :: string
  sp_SearchInput :: string
  sp_Page :: int
  sp_Limit :: int
  sp_Offset :: int
  sp_StartDateVal :: string
  sp_EndDateVal :: string
  sp_Filters :: SearchFilters

text \<open>
  \<open>day\<close> is \<open>time.Parse\<close> with the layout \<open>2006-01-02\<close>; when it fails the time is Go's zero time.
  \<open>strconv.ParseInt\<close> of a decimal number with its error ignored leaves what \<open>Atoi\<close> does.
\<close>

definition day_Unix :: "(string \<Rightarrow> instant option) \<Rightarrow> string \<Rightarrow> int" where
  "day_Unix day s = Unix (case day s of None \<Rightarrow> 0 | Some t \<Rightarrow> t)"

definition parseSearchParams :: "(string \<Rightarrow> instant option) \<Rightarrow> Form \<Rightarrow> SearchParams" where
  "parseSearchParams day q =
    (case parsePagination q of (page, lmt, offset) \<Rightarrow>
       let startDateVal = Query q ''start-date-val''; endDateVal = Query q ''end-date-val''
       in \<lparr>sp_Key = Query q ''key'', sp_MatchType = Query q ''match-type'', sp_SearchInput = Query q ''search-input'',
           sp_Page = page, sp_Limit = lmt, sp_Offset = offset,
           sp_StartDateVal = startDateVal, sp_EndDateVal = endDateVal,
           sp_Filters =
             \<lparr>MinSize = ParseUint_value (DefaultQuery q ''min-size'' ''0''),
              MaxSize = ParseUint_value (DefaultQuery q ''max-size'' ''0''),
              StartDate = (if startDateVal \<noteq> '''' then day_Unix day startDateVal
                           else Atoi_value (DefaultQuery q ''start-date'' ''0'')),
              EndDate = (if endDateVal \<noteq> '''' then day_Unix day endDateVal
                         else Atoi_value (DefaultQuery q ''end-date'' ''0''))\<rparr>\<rparr>)"

section \<open>Result pages\<close>

record ResultPage =
  rp_results :: "MetaData list"
  rp_total :: int
  rp_currentPage :: int
  rp_totalPages :: int

text \<open>\<open>(total + int64(limit) - 1) / int64(limit)\<close> in 64 bits.\<close>

definition totalPages :: "int \<Rightarrow> int \<Rightarrow> int" where
  "totalPages n lmt = go_div (int64 (n + lmt - 1)) lmt"

definition result_page :: "int \<Rightarrow> int \<Rightarrow> MetaData list \<times> nat \<Rightarrow> ResultPage" where
  "result_page page lmt r =
    \<lparr>rp_results = fst r, rp_total = int (snd r), rp_currentPage = page, rp_totalPages = totalPages (int (snd r)) lmt\<rparr>"

definition APISearch :: "'db Clover \<Rightarrow> Rules \<Rightarrow> (string \<Rightarrow> instant option) \<Rightarrow> Form \<Rightarrow> 'db \<Rightarrow> ResultPage option" where
  "APISearch C R day q db =
    (let p = parseSearchParams day q
     in case Search C R (sp_Key p) (sp_MatchType p) (sp_SearchInput p) (sp_Limit p) (sp_Offset p) (sp_Filters p) db of
          None \<Rightarrow> None
        | Some r \<Rightarrow> Some (result_page (sp_Page p) (sp_Limit p) r))"

text \<open>The search page without a search text shows no results; an error of the repository is ignored.\<close>

definition SearchGet :: "'db Clover \<Rightarrow> Rules \<Rightarrow> (string \<Rightarrow> instant option) \<Rightarrow> Form \<Rightarrow> 'db \<Rightarrow> ResultPage option" where
  "SearchGet C R day q db =
    (let p = parseSearchParams day q
     in if sp_SearchInput p = '''' then None
        else Some (result_page (sp_Page p) (sp_Limit p)
          (case Search C R (sp_Key p) (sp_MatchType p) (sp_SearchInput p) (sp_Limit p) (sp_Offset p) (sp_Filters p) db of
             None \<Rightarrow> ([], 0) | Some r \<Rightarrow> r)))"

text \<open>The parameters of the redirect that answers the search form, in the order they are added.\<close>

definition SearchPost :: "Form \<Rightarrow> (string \<times> string) list" where
  "SearchPost f =
    (let minSize = Query f ''min-size''; maxSize = Query f ''max-size'';
         startDateVal = Query f ''start-date-val''; endDateVal = Query f ''end-date-val''
     in [(''key'', Query f ''key''), (''match-type'', Query f ''match-type''), (''search-input'', Query f ''search-input'')]
        @ (if minSize \<noteq> ''0'' \<and> minSize \<noteq> '''' then [(''min-size'', minSize)] else [])
        @ (if maxSize \<noteq> ''0'' \<and> maxSize \<noteq> '''' then [(''max-size'', maxSize)] else [])
        @ (if startDateVal \<noteq> '''' then [(''start-date-val'', startDateVal)] else [])
        @ (if endDateVal \<noteq> '''' then [(''end-date-val'', endDateVal)] else []))"

definition APILatest :: "'db Clover \<Rightarrow> Rules \<Rightarrow> Form \<Rightarrow> 'db \<Rightarrow> ResultPage option" where
  "APILatest C R q db =
    (case parsePagination q of (page, lmt, offset) \<Rightarrow>
       case GetLatest C R lmt offset db of
         None \<Rightarrow> None
       | Some r \<Rightarrow> Some (result_page page lmt r))"

definition DiscoverGet :: "'db Clover \<Rightarrow> Rules \<Rightarrow> Form \<Rightarrow> 'db \<Rightarrow> ResultPage" where
  "DiscoverGet C R q db =
    (case parsePagination q of (page, lmt, offset) \<Rightarrow>
       result_page page lmt (case GetLatest C R lmt offset db of None \<Rightarrow> ([], 0) | Some r \<Rightarrow> r))"

definition DiscoverPost :: "'db Clover \<Rightarrow> Rules \<Rightarrow> (nat \<Rightarrow> nat) \<Rightarrow> Form \<Rightarrow> 'db \<Rightarrow> MetaData list outcome" where
  "DiscoverPost C R rnd f db =
    (let N = (case Atoi (Query f ''limit'') of None \<Rightarrow> 50 | Some n \<Rightarrow> n)
     in GetNRandomEntries C R rnd N db)"

record StatsPage =
  sg_stats :: "Stats list"
  sg_interval :: string
  sg_info_hash_count :: nat
  sg_family_counts :: "nat \<times> nat \<times> nat"

definition APIStats :: "'db Clover \<Rightarrow> Form \<Rightarrow> instant \<Rightarrow> 'db \<Rightarrow> StatsPage outcome" where
  "APIStats C q t db =
    (let lmt = Atoi_value (DefaultQuery q ''limit'' ''24''); interval = DefaultQuery q ''interval'' ''hour''
     in case GetStatsByInterval C interval lmt t db of
          Fails \<Rightarrow> Fails
        | Panics \<Rightarrow> Panics
        | Returns stats \<Rightarrow> Returns \<lparr>sg_stats = stats, sg_interval = interval,
            sg_info_hash_count = GetInfoHashCount C db, sg_family_counts = GetFamilyCounts C db\<rparr>)"

definition APICategories :: "'db Clover \<Rightarrow> 'db \<Rightarrow> (string \<rightharpoonup> nat) option" where
  "APICategories C db = GetCategoryDistribution C db"

section \<open>Editing pages\<close>

record 'e EditPage =
  ep_op :: string
  ep_opOk :: bool
  ep_results :: "'e list"

text \<open>The blacklist page also turns the blacklist of the configuration on and off.\<close>

definition BlacklistPost :: "'db Clover \<Rightarrow> Form \<Rightarrow> RepoConfig \<Rightarrow> 'db \<Rightarrow> BlacklistEntry EditPage \<times> RepoConfig \<times> 'db" where
  "BlacklistPost C f cfg db =
    (let op = Query f ''op'';
         (opOk, cfg', db') =
           (if op = ''add'' then (case AddToBlacklist C [Query f ''Filter''] (Query f ''Type'') db of (ok, d) \<Rightarrow> (ok, cfg, d))
            else if op = ''delete'' then (case DeleteBlacklistItem C (Query f ''Id'') db of None \<Rightarrow> (False, cfg, db) | Some d \<Rightarrow> (True, cfg, d))
            else if op = ''enable'' then (True, cfg\<lparr>rc_EnableBlacklist := True\<rparr>, db)
            else if op = ''disable'' then (True, cfg\<lparr>rc_EnableBlacklist := False\<rparr>, db)
            else (False, cfg, db))
     in (\<lparr>ep_op = op, ep_opOk = opOk, ep_results = GetBlacklistEntries C db'\<rparr>, cfg', db'))"

definition WatchPost :: "'db Clover \<Rightarrow> Form \<Rightarrow> 'db \<Rightarrow> WatchEntry EditPage \<times> 'db" where
  "WatchPost C f db =
    (let op = Query f ''op'';
         (opOk, db') =
           (if op = ''add'' then InsertWatchEntry C (Query f ''key'') (Query f ''match-type'') (Query f ''search-input'') db
            else if op = ''delete'' then (case DeleteWatchEntry C (Query f ''id'') db of None \<Rightarrow> (False, db) | Some d \<Rightarrow> (True, d))
            else (False, db))
     in (\<lparr>ep_op = op, ep_opOk = opOk, ep_results = GetWatchEntries C db'\<rparr>, db'))"

datatype clear_answer = ClearNotConfirmed | ClearError | ClearDone

definition ClearDataPost :: "'db Clover \<Rightarrow> Form \<Rightarrow> 'db \<Rightarrow> clear_answer \<times> 'db" where
  "ClearDataPost C f db =
    (if Query f ''confirm'' \<noteq> ''CLEAR'' then (ClearNotConfirmed, db)
     else case ClearCapturedData C db of
       (True, db') \<Rightarrow> (ClearDone, db')
     | (False, db') \<Rightarrow> (ClearError, db'))"

section \<open>The language of a page\<close>

definition defaultLanguage :: string where
  "defaultLanguage = ''en-US''"

definition chineseLanguage :: string where
  "chineseLanguage = ''zh-CN''"

text \<open>\<open>texts\<close> is the table of translations, by language and key.\<close>

definition translate :: "(string \<Rightarrow> string \<rightharpoonup> string) \<Rightarrow> string \<Rightarrow> string \<Rightarrow> string" where
  "translate texts lang key =
    (case texts lang key of
       Some v \<Rightarrow> v
     | None \<Rightarrow> (case texts defaultLanguage key of Some v \<Rightarrow> v | None \<Rightarrow> key))"

definition normalizeLanguage :: "string \<Rightarrow> string" where
  "normalizeLanguage lang0 =
    (let lang = TrimSpace (ToLower lang0)
     in if lang \<in> set [''zh'', ''zh-cn'', ''zh_hans'', ''zh-hans'', ''cn''] then chineseLanguage
        else if lang \<in> set [''en'', ''en-us'', ''en-gb''] then defaultLanguage
        else '''')"

definition languageFromAcceptHeader :: "string \<Rightarrow> string" where
  "languageFromAcceptHeader header =
    (case filter (\<lambda>l. l \<noteq> '''') (map (\<lambda>part. normalizeLanguage (hd (split_at CHR '';'' part))) (split_at CHR '','' header)) of
       [] \<Rightarrow> defaultLanguage
     | l # _ \<Rightarrow> l)"

text \<open>The language and the cookie that is set, if one is.\<close>

definition detectLanguage :: "Form \<Rightarrow> string option \<Rightarrow> string \<Rightarrow> string \<times> string option" where
  "detectLanguage q cookie header =
    (let lang = normalizeLanguage (Query q ''lang'')
     in if lang \<noteq> '''' then (lang, Some lang)
        else case cookie of
          Some c \<Rightarrow> (if normalizeLanguage c \<noteq> '''' then (normalizeLanguage c, None) else (languageFromAcceptHeader header, None))
        | None \<Rightarrow> (languageFromAcceptHeader header, None))"

section \<open>Paging\<close>

lemma parsePagination_range:
  assumes "parsePagination q = (page, lmt, offset)"
  shows "1 \<le> page" and "1 \<le> lmt" and "lmt < 2 ^ 63" and "(page - 1) * lmt < 2 ^ 63 \<Longrightarrow> offset = (page - 1) * lmt"
proof -
  show p: "1 \<le> page" and l: "1 \<le> lmt" using assms by (auto simp: parsePagination_def Let_def)
  have "lmt = 50 \<or> lmt = Atoi_value (DefaultQuery q ''limit'' ''50'')" using assms by (auto simp: parsePagination_def Let_def)
  then show "lmt < 2 ^ 63" using Atoi_value_range by auto
  assume "(page - 1) * lmt < 2 ^ 63"
  moreover have "0 \<le> (page - 1) * lmt" using p l by simp
  moreover have "offset = int64 ((page - 1) * lmt)" using assms by (auto simp: parsePagination_def Let_def)
  ultimately show "offset = (page - 1) * lmt" by (simp add: int64_id)
qed

text \<open>The number of pages is the least that has room for all results.\<close>

lemma totalPages_ceiling:
  assumes "0 \<le> n" and "1 \<le> lmt" and "n + lmt \<le> 2 ^ 63"
  shows "n \<le> totalPages n lmt * lmt" and "0 < n \<Longrightarrow> (totalPages n lmt - 1) * lmt < n" and "0 \<le> totalPages n lmt"
    and "totalPages 0 lmt = 0"
proof -
  have t: "totalPages n lmt = (n + lmt - 1) div lmt"
    using assms unfolding totalPages_def by (subst int64_id) auto
  have e: "(n + lmt - 1) div lmt * lmt + (n + lmt - 1) mod lmt = n + lmt - 1" by simp
  have m: "0 \<le> (n + lmt - 1) mod lmt" "(n + lmt - 1) mod lmt < lmt" using assms by simp_all
  show "n \<le> totalPages n lmt * lmt" using e m unfolding t by linarith
  show "(totalPages n lmt - 1) * lmt < n" using e m unfolding t left_diff_distrib by linarith
  show "0 \<le> totalPages n lmt" unfolding t using assms by (intro pos_imp_zdiv_nonneg_iff [THEN iffD2]) auto
  have "int64 (lmt - 1) = lmt - 1" using assms by (intro int64_id) auto
  then show "totalPages 0 lmt = 0" using assms(2) by (simp add: totalPages_def)
qed

lemma GetLatest_pages:
  assumes "clover_ok C valid rows" and "never_fails C rows" and "valid db"
  obtains ys where "listing (rows TorrentTable db) ys" and "ordered discovered_on False ys" and "length ys = card (dom (rows TorrentTable db))"
    and "\<And>l s. 0 \<le> l \<Longrightarrow> 0 \<le> s \<Longrightarrow> GetLatest C R l s db = Some (Documents2MetaData R (take (nat l) (drop (nat s) ys)), length ys)"
proof -
  obtain ys where ys: "listing (rows TorrentTable db) ys" "ordered discovered_on False ys"
    "\<And>l s xs. 0 \<le> l \<Longrightarrow> 0 \<le> s \<Longrightarrow> FindSorted C TorrentTable (\<lambda>_. True) False l s db = Some xs \<Longrightarrow> xs = take (nat l) (drop (nat s) ys)"
    using FindSorted_pages [OF assms(1,3), where t = TorrentTable and p = "\<lambda>_. True" and asc = False] by auto
  obtain cnt where c: "Count C TorrentTable (\<lambda>_. True) db = Some cnt" using never_failsD(3) [OF assms(2)] by blast
  have len: "length ys = card (dom (rows TorrentTable db))" using listing_card [OF ys(1)] by simp
  moreover have "cnt = length ys" using Count_card [OF assms(1,3) c] len by simp
  ultimately show thesis
    using ys never_failsD(2) [OF assms(2), of TorrentTable "\<lambda>_. True" False] c
    by (intro that [of ys]) (fastforce simp: GetLatest_def)+
qed

definition latest_query :: "string \<Rightarrow> string \<Rightarrow> Form" where
  "latest_query page lmt = [''page'' \<mapsto> page, ''limit'' \<mapsto> lmt]"

lemma latest_query_pagination:
  assumes "Atoi_value pg = page" and "Atoi_value lm = lmt" and "1 \<le> page" and "1 \<le> lmt" and "(page - 1) * lmt < 2 ^ 63"
  shows "parsePagination (latest_query pg lm) = (page, lmt, (page - 1) * lmt)"
proof -
  have "parsePagination (latest_query pg lm) = (page, lmt, int64 ((page - 1) * lmt))"
    using assms(1-4) by (simp add: parsePagination_def latest_query_def DefaultQuery_def)
  moreover from this have "int64 ((page - 1) * lmt) = (page - 1) * lmt" by (rule parsePagination_range(4)) (rule assms(5))
  ultimately show ?thesis by simp
qed

text \<open>C26. Paging through the latest torrents: with any page length that is a positive number,
  the pages from the first to the number of pages announced give, one after the other, every
  stored torrent once, newest first; every page announces the same total, the number of
  stored torrents.\<close>
theorem latest_pages_complete:
  assumes "clover_ok C valid rows" and "never_fails C rows" and "valid db"
    and "n = card (dom (rows TorrentTable db))" and "Atoi_value lm = lmt" and "1 \<le> lmt" and "int n + lmt \<le> 2 ^ 63"
    and "m = nat (totalPages (int n) lmt)" and "\<And>k. k < m \<Longrightarrow> Atoi_value (pg k) = int k + 1"
  shows "\<exists>ys. listing (rows TorrentTable db) ys \<and> ordered discovered_on False ys
    \<and> concat (map (\<lambda>k. rp_results (the (APILatest C R (latest_query (pg k) lm) db))) [0..<m]) = Documents2MetaData R ys
    \<and> (\<forall>k. k < m \<longrightarrow> rp_total (the (APILatest C R (latest_query (pg k) lm) db)) = int n
          \<and> rp_totalPages (the (APILatest C R (latest_query (pg k) lm) db)) = int m)"
proof -
  obtain ys where ys: "listing (rows TorrentTable db) ys" "ordered discovered_on False ys" "length ys = n"
    "\<And>l s. 0 \<le> l \<Longrightarrow> 0 \<le> s \<Longrightarrow> GetLatest C R l s db = Some (Documents2MetaData R (take (nat l) (drop (nat s) ys)), length ys)"
    using GetLatest_pages [OF assms(1-3), of R] assms(4) by metis
  note ceil = totalPages_ceiling [of "int n" lmt, OF _ assms(6,7)]
  have m: "int m = totalPages (int n) lmt" using ceil(3) assms(8) by simp
  have page: "APILatest C R (latest_query (pg k) lm) db =
      Some \<lparr>rp_results = Documents2MetaData R (take (nat lmt) (drop (k * nat lmt) ys)), rp_total = int n,
            rp_currentPage = int k + 1, rp_totalPages = int m\<rparr>" if k: "k < m" for k
  proof -
    have "0 < n" using k m ceil(4) by (cases n) auto
    then have "(int m - 1) * lmt < int n" using ceil(2) m by simp
    moreover have "int k * lmt \<le> (int m - 1) * lmt" using k assms(6) by (intro mult_right_mono) auto
    ultimately have "int k * lmt < 2 ^ 63" using assms(6,7) by linarith
    then have "parsePagination (latest_query (pg k) lm) = (int k + 1, lmt, int k * lmt)"
      using latest_query_pagination [OF assms(9) [OF k] assms(5)] assms(6) by simp
    moreover have "nat (int k * lmt) = k * nat lmt" using assms(6) by (simp add: nat_mult_distrib)
    ultimately show ?thesis using ys(3,4) assms(6) m by (simp add: APILatest_def result_page_def)
  qed
  have "concat (map (\<lambda>k. rp_results (the (APILatest C R (latest_query (pg k) lm) db))) [0..<m])
      = concat (map (\<lambda>k. Documents2MetaData R (take (nat lmt) (drop (k * nat lmt) ys))) [0..<m])"
    using page by (intro arg_cong [of _ _ concat] map_cong) auto
  also have "\<dots> = Documents2MetaData R (take (m * nat lmt) ys)" by (simp add: Documents_concat concat_pages)
  also have "take (m * nat lmt) ys = ys"
  proof (rule take_all)
    have "int n \<le> int m * lmt" using ceil(1) m by simp
    also have "\<dots> = int (m * nat lmt)" using assms(6) by simp
    finally show "length ys \<le> m * nat lmt" using ys(3) by linarith
  qed
  finally show ?thesis using ys(1,2) page by auto
qed

text \<open>A list of two torrents, in pages of one.\<close>

definition two_db :: list_db where
  "two_db = no_rows(TorrentTable := [(''a'', torrent_doc list_clover plain_rules (named ''alpha'' 5)), (''b'', torrent_doc list_clover plain_rules (named ''beta'' 7))])"

lemma two_valid: "list_valid two_db"
  by (simp add: list_valid_def two_db_def no_rows_def)

lemma two_card: "card (dom (map_of (two_db TorrentTable))) = 2"
  by (simp add: two_db_def)

lemma small_numbers: "Atoi_value ''1'' = 1" "Atoi_value ''2'' = 2" "Atoi ''-1'' = Some (- 1)"
  by code_simp+

theorem latest_pages_complete_witness:
  "\<exists>ys. listing (map_of (two_db TorrentTable)) ys \<and> ordered discovered_on False ys
    \<and> rp_results (the (APILatest list_clover plain_rules (latest_query ''1'' ''1'') two_db))
        @ rp_results (the (APILatest list_clover plain_rules (latest_query ''2'' ''1'') two_db)) = Documents2MetaData plain_rules ys"
proof -
  have pages: "totalPages 2 1 = 2" by (simp add: totalPages_def int64_id)
  have upt: "[0..<2] = [0, 1 :: nat]" by (simp add: upt_rec numeral_2_eq_2)
  have pg: "Atoi_value ((\<lambda>k. if k = 0 then ''1'' else ''2'') k) = int k + 1" if "k < 2" for k
    using that by (auto simp: small_numbers less_2_cases_iff)
  show ?thesis
    using latest_pages_complete [OF list_clover_ok list_never_fails, where db = two_db and n = 2 and m = 2 and lm = "''1''" and lmt = 1
        and R = plain_rules and pg = "\<lambda>k. if k = 0 then ''1'' else ''2''", OF two_valid two_card [symmetric] small_numbers(1) _ _ _ pg]
    by (auto simp: pages upt)
qed

section \<open>The search form\<close>

text \<open>The search form survives its redirect: the page that answers the redirect searches with
  the key, match type, text, sizes and dates that were filled in, on the first page.\<close>
theorem search_redirect_keeps_form:
  "parseSearchParams day (map_of (SearchPost f)) =
    \<lparr>sp_Key = Query f ''key'', sp_MatchType = Query f ''match-type'', sp_SearchInput = Query f ''search-input'',
     sp_Page = 1, sp_Limit = 50, sp_Offset = 0,
     sp_StartDateVal = Query f ''start-date-val'', sp_EndDateVal = Query f ''end-date-val'',
     sp_Filters =
       \<lparr>MinSize = ParseUint_value (Query f ''min-size''), MaxSize = ParseUint_value (Query f ''max-size''),
        StartDate = (if Query f ''start-date-val'' = '''' then 0 else day_Unix day (Query f ''start-date-val'')),
        EndDate = (if Query f ''end-date-val'' = '''' then 0 else day_Unix day (Query f ''end-date-val''))\<rparr>\<rparr>"
proof -
  define q where "q = map_of (SearchPost f)"
  have num: "Atoi_value ''1'' = 1" "Atoi_value ''50'' = 50" "Atoi_value ''0'' = 0" "ParseUint_value ''0'' = 0" "ParseUint_value '''' = 0"
    by code_simp+
  have absent: "q ''page'' = None" "q ''limit'' = None" "q ''start-date'' = None" "q ''end-date'' = None"
    by (simp_all add: q_def SearchPost_def Let_def)
  have present: "q ''key'' = Some (Query f ''key'')" "q ''match-type'' = Some (Query f ''match-type'')"
    "q ''search-input'' = Some (Query f ''search-input'')"
    "q ''min-size'' = (if Query f ''min-size'' = ''0'' \<or> Query f ''min-size'' = '''' then None else Some (Query f ''min-size''))"
    "q ''max-size'' = (if Query f ''max-size'' = ''0'' \<or> Query f ''max-size'' = '''' then None else Some (Query f ''max-size''))"
    "q ''start-date-val'' = (if Query f ''start-date-val'' = '''' then None else Some (Query f ''start-date-val''))"
    "q ''end-date-val'' = (if Query f ''end-date-val'' = '''' then None else Some (Query f ''end-date-val''))"
    by (simp_all add: q_def SearchPost_def Let_def)
  have same: "Query q ''key'' = Query f ''key''" "Query q ''match-type'' = Query f ''match-type''"
    "Query q ''search-input'' = Query f ''search-input''" "Query q ''start-date-val'' = Query f ''start-date-val''"
    "Query q ''end-date-val'' = Query f ''end-date-val''"
    by (simp_all add: Query_def [of q] DefaultQuery_def [of q] present)
  have "ParseUint_value (DefaultQuery q ''min-size'' ''0'') = ParseUint_value (Query f ''min-size'')"
    "ParseUint_value (DefaultQuery q ''max-size'' ''0'') = ParseUint_value (Query f ''max-size'')"
    by (auto simp: DefaultQuery_def [of q] present num)
  moreover have "parsePagination q = (1, 50, 0)"
    by (simp add: parsePagination_def DefaultQuery_def absent num int64_def)
  moreover have "DefaultQuery q ''start-date'' ''0'' = ''0''" "DefaultQuery q ''end-date'' ''0'' = ''0''"
    by (simp_all add: DefaultQuery_def absent)
  ultimately show ?thesis
    unfolding q_def [symmetric] by (simp add: parseSearchParams_def same num Let_def)
qed

section \<open>Clearing and negative numbers\<close>


lemma GetStats_negative:
  assumes "never_fails C rows" and "n < 0"
  shows "GetStatsByInterval C interval n t db = Panics"
proof -
  obtain docs where "FindAll C TorrentTable (Where_GtEq C ''DiscoveredOn''
      (Unix (Truncate t (GetIntervalDuration interval) + intervals_back n (GetIntervalDuration interval)))) db = Some docs"
    using never_failsD(1) [OF assms(1)] by blast
  then show ?thesis using assms(2) by (simp add: GetStatsByInterval_def Let_def)
qed

text \<open>Negative numbers in a request: the statistics endpoint and the page of random torrents
  pass them on, and the request panics in \<open>make\<close>, whatever the database holds.\<close>
theorem negative_limit_panics:
  assumes "never_fails C rows" and "Atoi s = Some n" and "n < 0"
  shows "APIStats C [''limit'' \<mapsto> s] t db = Panics \<and> DiscoverPost C R rnd [''limit'' \<mapsto> s] db = Panics"
proof -
  obtain cnt where "Count C TorrentTable (\<lambda>_. True) db = Some cnt" using never_failsD(3) [OF assms(1)] by blast
  then have "GetNRandomEntries C R rnd n db = Panics" using assms(3) by (simp add: GetNRandomEntries_def Let_def)
  then show ?thesis
    using assms Atoi_value_of [OF assms(2)] by (simp add: APIStats_def DiscoverPost_def DefaultQuery_def Query_def GetStats_negative [OF assms(1)])
qed

theorem negative_limit_panics_witness:
  "APIStats list_clover [''limit'' \<mapsto> ''-1''] 0 two_db = Panics \<and> DiscoverPost list_clover plain_rules (\<lambda>_. 0) [''limit'' \<mapsto> ''-1''] two_db = Panics"
  by (rule negative_limit_panics [OF list_never_fails small_numbers(3)]) simp


section \<open>Languages\<close>

lemma normalizeLanguage_cases: "normalizeLanguage l \<in> {'''', defaultLanguage, chineseLanguage}"
  by (simp add: normalizeLanguage_def Let_def)

lemma accepted_supported: "languageFromAcceptHeader header \<in> {defaultLanguage, chineseLanguage}"
proof (cases "filter (\<lambda>l. l \<noteq> '''') (map (\<lambda>part. normalizeLanguage (hd (split_at CHR '';'' part))) (split_at CHR '','' header))")
  case Nil
  then show ?thesis by (simp add: languageFromAcceptHeader_def)
next
  case (Cons l ls)
  then have "l \<in> set (filter (\<lambda>l. l \<noteq> '''') (map (\<lambda>part. normalizeLanguage (hd (split_at CHR '';'' part))) (split_at CHR '','' header)))" by simp
  then have "l \<noteq> ''''" "\<exists>x. l = normalizeLanguage x" by auto
  then show ?thesis using Cons normalizeLanguage_cases by (fastforce simp: languageFromAcceptHeader_def)
qed

text \<open>The language of a page is one the program has texts for, whatever the request says, and a
  cookie is set exactly when the request asks for such a language, to that language.\<close>
theorem language_supported:
  "fst (detectLanguage q cookie header) \<in> {defaultLanguage, chineseLanguage}
   \<and> (case snd (detectLanguage q cookie header) of
        None \<Rightarrow> normalizeLanguage (Query q ''lang'') = ''''
      | Some l \<Rightarrow> l = normalizeLanguage (Query q ''lang'') \<and> fst (detectLanguage q cookie header) = l)"
  using normalizeLanguage_cases [of "Query q ''lang''"] normalizeLanguage_cases [of "the cookie"] accepted_supported [of header]
  by (auto simp: detectLanguage_def Let_def split: option.split)

end
