(* ===== verification/Mcp.thy ===== *)
theory Mcp
  imports Web_Pages
begin

text \<open>
  The endpoint for the Model Context Protocol, \<open>ui/mcp.go\<close>: JSON-RPC requests answered from the
  repository. What \<open>encoding/json\<close> makes of a message is an argument: the request of a body, the
  tool call of its parameters, and of a tool's arguments the values that could be read with
  whether reading failed (a failure leaves the other values). Results are kept as values; the
  text they are printed to is not modelled.
\<close>

record ('i, 'j) mcpRequest =
  rq_ID :: 'i
  rq_Method :: string
  rq_Params :: 'j

record mcpArgs =
  ma_Query :: string
  ma_Key :: string
  ma_MatchType :: string
  ma_Interval :: string
  ma_Limit :: int

record 'j Json =
  call_of :: "'j \<Rightarrow> (string \<times> 'j) option"
  args_of :: "'j \<Rightarrow> bool \<times> mcpArgs"

datatype mcp_result =
    Initialized
  | ToolList "string list"
  | TorrentList "MetaData list" nat
  | StatsList "Stats list" string nat
  | Categories "string \<rightharpoonup> nat"

datatype tool_error = BadParams | UnknownTool string | BadArguments | QueryRequired | DatabaseError

definition mcpTools :: "string list" where
  "mcpTools = [''search_torrents'', ''latest_torrents'', ''torrent_stats'', ''category_distribution'']"

definition clampLimit :: "int \<Rightarrow> int \<Rightarrow> int" where
  "clampLimit lmt fallback =
    (let l = (if lmt < 1 then fallback else lmt) in if l > 100 then 100 else l)"

definition mcpLimit :: "'j Json \<Rightarrow> 'j \<Rightarrow> int \<Rightarrow> int" where
  "mcpLimit J raw fallback = clampLimit (ma_Limit (snd (args_of J raw))) fallback"

text \<open>The tools return their result, an error, or panic in the repository.\<close>

type_synonym tool_outcome = "(tool_error + mcp_result) option"

definition search_all :: SearchFilters where
  "search_all = \<lparr>MinSize = 0, MaxSize = 0, StartDate = 0, EndDate = 0\<rparr>"

definition mcpSearch :: "'j Json \<Rightarrow> 'db Clover \<Rightarrow> Rules \<Rightarrow> 'j \<Rightarrow> 'db \<Rightarrow> tool_outcome" where
  "mcpSearch J C R raw db =
    (case args_of J raw of (ok, a) \<Rightarrow>
       if \<not> ok then Some (Inl BadArguments)
       else if ma_Query a = '''' then Some (Inl QueryRequired)
       else
         let key = (if ma_Key a = '''' then ''All'' else ma_Key a);
             matchType = (if ma_MatchType a = '''' then ''contains'' else ma_MatchType a);
             lmt = clampLimit (ma_Limit a) 10
         in case Search C R key matchType (ma_Query a) lmt 0 search_all db of
              None \<Rightarrow> Some (Inl DatabaseError)
            | Some (results, n) \<Rightarrow> Some (Inr (TorrentList results n)))"

definition mcpLatest :: "'j Json \<Rightarrow> 'db Clover \<Rightarrow> Rules \<Rightarrow> 'j \<Rightarrow> 'db \<Rightarrow> tool_outcome" where
  "mcpLatest J C R raw db =
    (case GetLatest C R (mcpLimit J raw 10) 0 db of
       None \<Rightarrow> Some (Inl DatabaseError)
     | Some (results, n) \<Rightarrow> Some (Inr (TorrentList results n)))"

definition mcpStats :: "'j Json \<Rightarrow> 'db Clover \<Rightarrow> 'j \<Rightarrow> instant \<Rightarrow> 'db \<Rightarrow> tool_outcome" where
  "mcpStats J C raw t db =
    (let a = snd (args_of J raw);
         interval = (if ma_Interval a = '''' then ''hour'' else ma_Interval a)
     in case GetStatsByInterval C interval (clampLimit (ma_Limit a) 24) t db of
          Fails \<Rightarrow> Some (Inl DatabaseError)
        | Panics \<Rightarrow> None
        | Returns stats \<Rightarrow> Some (Inr (StatsList stats interval (GetInfoHashCount C db))))"

definition mcpCategories :: "'db Clover \<Rightarrow> 'db \<Rightarrow> tool_outcome" where
  "mcpCategories C db =
    (case GetCategoryDistribution C db of
       None \<Rightarrow> Some (Inl DatabaseError)
     | Some cs \<Rightarrow> Some (Inr (Categories cs)))"

definition handleMCPToolCall :: "'j Json \<Rightarrow> 'db Clover \<Rightarrow> Rules \<Rightarrow> 'j \<Rightarrow> instant \<Rightarrow> 'db \<Rightarrow> tool_outcome" where
  "handleMCPToolCall J C R raw t db =
    (case call_of J raw of
       None \<Rightarrow> Some (Inl BadParams)
     | Some (name, arguments) \<Rightarrow>
         if name = ''search_torrents'' then mcpSearch J C R arguments db
         else if name = ''latest_torrents'' then mcpLatest J C R arguments db
         else if name = ''torrent_stats'' then mcpStats J C arguments t db
         else if name = ''category_distribution'' then mcpCategories C db
         else Some (Inl (UnknownTool name)))"

text \<open>
  The answers: the status page of a \<open>GET\<close>, status 400 with a JSON-RPC error, status 202 with no
  body, a JSON-RPC reply, or a panic.
\<close>

datatype 'i mcp_answer =
    McpOnline
  | McpMalformed int
  | McpAccepted
  | McpResult 'i mcp_result
  | McpError 'i int
  | McpPanic

definition MCP ::
  "'j Json \<Rightarrow> 'db Clover \<Rightarrow> Rules \<Rightarrow> http_method \<Rightarrow> ('i, 'j) mcpRequest option \<Rightarrow> instant \<Rightarrow> 'db \<Rightarrow> 'i mcp_answer" where
  "MCP J C R meth body t db =
    (if meth = GET then McpOnline
     else case body of
       None \<Rightarrow> McpMalformed (- 32700)
     | Some req \<Rightarrow>
         if rq_Method req = ''initialize'' then McpResult (rq_ID req) Initialized
         else if rq_Method req = ''notifications/initialized'' then McpAccepted
         else if rq_Method req = ''tools/list'' then McpResult (rq_ID req) (ToolList mcpTools)
         else if rq_Method req = ''tools/call'' then
           (case handleMCPToolCall J C R (rq_Params req) t db of
              None \<Rightarrow> McpPanic
            | Some (Inl e) \<Rightarrow> McpError (rq_ID req) (- 32602)
            | Some (Inr result) \<Rightarrow> McpResult (rq_ID req) result)
         else McpError (rq_ID req) (- 32601))"

section \<open>Limits and errors\<close>

lemma clampLimit_range: "1 \<le> fallback \<Longrightarrow> 1 \<le> clampLimit lmt fallback \<and> clampLimit lmt fallback \<le> 100"
  by (simp add: clampLimit_def Let_def)

lemma GetStats_returns:
  assumes "never_fails C rows" and "0 \<le> n"
  obtains stats where "GetStatsByInterval C interval n t db = Returns stats" and "length stats = nat n"
proof -
  obtain docs where "FindAll C TorrentTable (Where_GtEq C ''DiscoveredOn''
      (Unix (Truncate t (GetIntervalDuration interval) + intervals_back n (GetIntervalDuration interval)))) db = Some docs"
    using never_failsD(1) [OF assms(1)] by blast
  then show thesis using assms(2) by (intro that) (auto simp: GetStatsByInterval_def Let_def)
qed

text \<open>What a tool call gives on a working database: no panic, and never more than asked for and never more than 100 entries.\<close>

definition bounded_result :: "mcp_result \<Rightarrow> bool" where
  "bounded_result r =
    (case r of TorrentList results n \<Rightarrow> length results \<le> 100 \<and> length results \<le> n
     | StatsList stats interval n \<Rightarrow> 1 \<le> length stats \<and> length stats \<le> 100
     | _ \<Rightarrow> True)"

lemma mcpSearch_bounded:
  assumes "clover_ok C valid rows" and "never_fails C rows" and "valid db"
  shows "case mcpSearch J C R raw db of Some (Inr r) \<Rightarrow> bounded_result r | Some (Inl e) \<Rightarrow> e \<in> {BadArguments, QueryRequired} | None \<Rightarrow> False"
proof -
  have page: "\<exists>results n. Search C R key ty inp l 0 search_all db = Some (results, n) \<and> length results \<le> 100 \<and> length results \<le> n"
    if l: "1 \<le> l" "l \<le> 100" for key ty inp l
  proof -
    define p where "p = search_match R key ty inp search_all"
    obtain ys where ys: "listing (selected (rows TorrentTable db) p) ys" "ordered discovered_on False ys"
      "\<And>l s xs. 0 \<le> l \<Longrightarrow> 0 \<le> s \<Longrightarrow> FindSorted C TorrentTable p False l s db = Some xs \<Longrightarrow> xs = take (nat l) (drop (nat s) ys)"
      using FindSorted_pages [OF assms(1,3), where t = TorrentTable and p = p and asc = False] by auto
    obtain xs where xs: "FindSorted C TorrentTable p False l 0 db = Some xs" using never_failsD(2) [OF assms(2)] by blast
    then have "xs = take (nat l) ys" using ys(3) [OF _ _ xs] l by simp
    moreover obtain cnt where c: "Count C TorrentTable p db = Some cnt" using never_failsD(3) [OF assms(2)] by blast
    moreover have "cnt = length ys" using Count_card [OF assms(1,3) c] listing_card [OF ys(1)] by simp
    ultimately show ?thesis using l xs by (simp add: Search_def Documents2MetaData_def flip: p_def)
  qed
  obtain ok a where a: "args_of J raw = (ok, a)" by (rule prod.exhaust)
  have "1 \<le> clampLimit (ma_Limit a) 10" "clampLimit (ma_Limit a) 10 \<le> 100" using clampLimit_range [of 10] by simp_all
  from page [OF this] obtain results n where r: "Search C R (if ma_Key a = '''' then ''All'' else ma_Key a)
      (if ma_MatchType a = '''' then ''contains'' else ma_MatchType a) (ma_Query a) (clampLimit (ma_Limit a) 10) 0 search_all db
      = Some (results, n)" "length results \<le> 100" "length results \<le> n"
    by blast
  show ?thesis unfolding mcpSearch_def a prod.case Let_def r(1) using r(2,3) by (simp add: bounded_result_def)
qed
lemma mcpLatest_bounded:
  assumes "clover_ok C valid rows" and "never_fails C rows" and "valid db"
  shows "case mcpLatest J C R raw db of Some (Inr r) \<Rightarrow> bounded_result r | _ \<Rightarrow> False"
proof -
  obtain ys where ys: "\<And>l s. 0 \<le> l \<Longrightarrow> 0 \<le> s \<Longrightarrow>
      GetLatest C R l s db = Some (Documents2MetaData R (take (nat l) (drop (nat s) ys)), length ys)"
    using GetLatest_pages [OF assms, of R] by metis
  have "1 \<le> mcpLimit J raw 10 \<and> mcpLimit J raw 10 \<le> 100" unfolding mcpLimit_def by (rule clampLimit_range) simp
  then show ?thesis using ys [of "mcpLimit J raw 10" 0] by (auto simp: mcpLatest_def bounded_result_def Documents2MetaData_def min_le_iff_disj)
qed

lemma mcpStats_bounded:
  assumes "never_fails C rows"
  shows "case mcpStats J C raw t db of Some (Inr r) \<Rightarrow> bounded_result r | _ \<Rightarrow> False"
proof -
  define a where "a = snd (args_of J raw)"
  define interval where "interval = (if ma_Interval a = '''' then ''hour'' else ma_Interval a)"
  have l: "1 \<le> clampLimit (ma_Limit a) 24 \<and> clampLimit (ma_Limit a) 24 \<le> 100" by (rule clampLimit_range) simp
  then obtain stats where "GetStatsByInterval C interval (clampLimit (ma_Limit a) 24) t db = Returns stats"
    "length stats = nat (clampLimit (ma_Limit a) 24)"
    using GetStats_returns [OF assms, of "clampLimit (ma_Limit a) 24" interval t db] by auto
  then show ?thesis
    using l unfolding mcpStats_def Let_def a_def [symmetric] interval_def [symmetric] by (auto simp: bounded_result_def)
qed

lemma tool_call_bounded:
  assumes "clover_ok C valid rows" and "never_fails C rows" and "valid db"
  shows "case handleMCPToolCall J C R raw t db of
      Some (Inr r) \<Rightarrow> bounded_result r
    | Some (Inl e) \<Rightarrow> call_of J raw = None \<or> (\<exists>name a. call_of J raw = Some (name, a) \<and> (name \<notin> set mcpTools
        \<or> name = ''search_torrents'' \<and> (\<not> fst (args_of J a) \<or> ma_Query (snd (args_of J a)) = '''')))
    | None \<Rightarrow> False"
proof (cases "call_of J raw")
  case None
  then show ?thesis by (simp add: handleMCPToolCall_def)
next
  case (Some p)
  obtain name a where p: "p = (name, a)" by (rule prod.exhaust)
  obtain xs where "FindAll C TorrentTable (\<lambda>_. True) db = Some xs" using never_failsD(1) [OF assms(2)] by blast
  then have cat: "case mcpCategories C db of Some (Inr r) \<Rightarrow> bounded_result r | _ \<Rightarrow> False"
    by (simp add: mcpCategories_def GetCategoryDistribution_def bounded_result_def)
  have search: "mcpSearch J C R a db = Some (Inl e) \<Longrightarrow> \<not> fst (args_of J a) \<or> ma_Query (snd (args_of J a)) = ''''" for e
    using mcpSearch_bounded [OF assms, of J R a] by (auto simp: mcpSearch_def Let_def split: prod.splits if_splits option.splits)
  show ?thesis
    using mcpSearch_bounded [OF assms, of J R a] mcpLatest_bounded [OF assms, of J R a] mcpStats_bounded [OF assms(2), of J a t db] cat search
    by (auto simp: handleMCPToolCall_def Some p mcpTools_def split: option.splits sum.splits)
qed


definition sample_json :: "mcpArgs Json" where
  "sample_json = \<lparr>call_of = (\<lambda>a. Some (''latest_torrents'', a)), args_of = (\<lambda>a. (True, a))\<rparr>"

definition greedy_args :: mcpArgs where
  "greedy_args = \<lparr>ma_Query = '''', ma_Key = '''', ma_MatchType = '''', ma_Interval = '''', ma_Limit = 5000\<rparr>"


end
