(* ===== verification/Web_Server.thy ===== *)
theory Web_Server
  imports Master
begin

text \<open>
  The web server of \<open>ui/ui.go\<close> (\<open>RunWebServer\<close>): the routes it registers and the password that,
  when one is configured, gin's \<open>BasicAuth\<close> asks of every request. The route for workers that
  push their records (\<open>cluster/transport.go\<close>) is one of them. gin is not part of the repository:
  the choice of the route and the check of a header are arguments.
\<close>

record ServerConfig =
  sv_AuthUser :: string
  sv_AuthPass :: string
  sv_NodeRole :: string
  sv_ClusterToken :: string

definition flush_route :: "http_method \<times> string" where
  "flush_route = (POST, ''/api/master/v1/flush'')"

definition routes :: "ServerConfig \<Rightarrow> (http_method \<times> string) list" where
  "routes cfg =
    [(GET, ''/''), (GET, ''/dashboard''), (GET, ''/workers''), (GET, ''/search''), (POST, ''/search''),
     (GET, ''/discover''), (POST, ''/discover''), (POST, ''/data/clear''), (GET, ''/watches''), (POST, ''/watches''),
     (GET, ''/blacklist''), (POST, ''/blacklist''), (GET, ''/settings''), (POST, ''/settings''),
     (POST, ''/crawler/start''), (POST, ''/crawler/stop''), (GET, ''/trawl''), (GET, ''/ws/trawl''),
     (GET, ''/download/transmission''), (GET, ''/download/aria2''), (GET, ''/download/deluge''),
     (GET, ''/download/qbittorrent''), (POST, ''/download/test/:service''), (GET, ''/health'')]
    @ (if sv_NodeRole cfg = ''master'' \<and> sv_ClusterToken cfg \<noteq> '''' then [flush_route] else [])
    @ [(GET, ''/mcp''), (POST, ''/mcp''),
       (GET, ''/api/search''), (GET, ''/api/stats''), (GET, ''/api/categories''), (GET, ''/api/latest''), (GET, ''/api/workers''),
       (POST, ''/api/workers/pause''), (POST, ''/api/workers/resume''), (GET, ''/css/*filepath''), (GET, ''/js/*filepath'')]"

text \<open>
  gin: \<open>find\<close> gives the registered route of a request, \<open>basic_ok user pass header\<close> whether
  \<open>BasicAuth\<close> lets a request with that Authorization header pass.
\<close>

record Gin =
  find_route :: "(http_method \<times> string) list \<Rightarrow> http_method \<Rightarrow> string \<Rightarrow> (http_method \<times> string) option"
  basic_ok :: "string \<Rightarrow> string \<Rightarrow> string \<Rightarrow> bool"

definition auth_required :: "ServerConfig \<Rightarrow> bool" where
  "auth_required cfg \<longleftrightarrow> sv_AuthUser cfg \<noteq> '''' \<and> sv_AuthPass cfg \<noteq> ''''"

definition flush_status :: "flush_response \<Rightarrow> nat \<times> uint64 list option" where
  "flush_status r =
    (case r of
       FlushUnauthorized \<Rightarrow> (401, None)
     | FlushNotAllowed \<Rightarrow> (405, None)
     | FlushInvalid \<Rightarrow> (400, None)
     | FlushAck ids \<Rightarrow> (200, Some ids))"

text \<open>
  One request: a header that does not pass is answered 401 whatever its path, an unknown path 404;
  \<open>other\<close> stands for the handlers of the other routes. The answer is its status and, from the
  flush handler, the ids acknowledged.
\<close>

definition serve ::
  "Gin \<Rightarrow> ServerConfig \<Rightarrow> 'w Client \<Rightarrow> (http_method \<times> string \<Rightarrow> 'w \<Rightarrow> (nat \<times> uint64 list option) \<times> 'w)
    \<Rightarrow> http_method \<Rightarrow> string \<Rightarrow> string \<Rightarrow> Batch option \<Rightarrow> 'w \<Rightarrow> (nat \<times> uint64 list option) \<times> 'w" where
  "serve G cfg c other meth path header body w =
    (if auth_required cfg \<and> \<not> basic_ok G (sv_AuthUser cfg) (sv_AuthPass cfg) header then ((401, None), w)
     else case find_route G (routes cfg) meth path of
       None \<Rightarrow> ((404, None), w)
     | Some r \<Rightarrow>
         if r = flush_route
         then (case masterFlushHandler c (sv_ClusterToken cfg) header meth body w of (a, w') \<Rightarrow> (flush_status a, w'))
         else other r w)"

text \<open>A worker's push: \<open>POST\<close> with the cluster token as bearer token.\<close>

definition push_reply_of ::
  "Gin \<Rightarrow> ServerConfig \<Rightarrow> 'w Client \<Rightarrow> (http_method \<times> string \<Rightarrow> 'w \<Rightarrow> (nat \<times> uint64 list option) \<times> 'w)
    \<Rightarrow> string \<Rightarrow> 'w \<Rightarrow> Batch \<Rightarrow> push_reply" where
  "push_reply_of G cfg c other token w batch =
    (case fst (serve G cfg c other POST ''/api/master/v1/flush'' (''Bearer '' @ token) (Some batch) w) of
       (st, ids) \<Rightarrow> PushReply st ids)"

text \<open>
  What the code relies on: a registered path without parameters is found under itself, and
  \<open>BasicAuth\<close> lets only headers of the Basic scheme pass.
\<close>

definition gin_ok :: "Gin \<Rightarrow> bool" where
  "gin_ok G \<longleftrightarrow>
    (\<forall>rs m p. CHR '':'' \<notin> set p \<longrightarrow> CHR ''*'' \<notin> set p \<longrightarrow> (m, p) \<in> set rs \<longrightarrow> find_route G rs m p = Some (m, p))
    \<and> (\<forall>rs m p r. find_route G rs m p = Some r \<longrightarrow> r \<in> set rs)
    \<and> (\<forall>u pw h. basic_ok G u pw h \<longrightarrow> take 6 h = ''Basic '')"

lemma bearer_not_basic: "gin_ok G \<Longrightarrow> \<not> basic_ok G u pw (''Bearer '' @ token)"
  by (fastforce simp: gin_ok_def)

lemma flush_registered: "flush_route \<in> set (routes cfg) \<longleftrightarrow> sv_NodeRole cfg = ''master'' \<and> sv_ClusterToken cfg \<noteq> ''''"
  by (simp add: routes_def flush_route_def)

text \<open>The password guards every route: when a user and a password are configured, a request
  whose header does not pass changes nothing and is answered 401, also on a path that does not
  exist. The master's ingest route exists only on a master with a cluster token: elsewhere no
  request reaches the flush handler.\<close>
theorem password_guards_every_route:
  assumes "gin_ok G"
  shows "(auth_required cfg \<and> \<not> basic_ok G (sv_AuthUser cfg) (sv_AuthPass cfg) header
      \<longrightarrow> serve G cfg c other meth path header body w = ((401, None), w))
    \<and> (sv_NodeRole cfg \<noteq> ''master'' \<or> sv_ClusterToken cfg = ''''
      \<longrightarrow> (\<exists>a. serve G cfg c other meth path header body w = (a, w))
         \<or> (\<exists>r. r \<noteq> flush_route \<and> r \<in> set (routes cfg) \<and> serve G cfg c other meth path header body w = other r w))"
proof (intro conjI impI)
  assume "auth_required cfg \<and> \<not> basic_ok G (sv_AuthUser cfg) (sv_AuthPass cfg) header"
  then show "serve G cfg c other meth path header body w = ((401, None), w)" by (simp add: serve_def)
next
  assume "sv_NodeRole cfg \<noteq> ''master'' \<or> sv_ClusterToken cfg = ''''"
  then have none: "flush_route \<notin> set (routes cfg)" using flush_registered by blast
  show "(\<exists>a. serve G cfg c other meth path header body w = (a, w))
      \<or> (\<exists>r. r \<noteq> flush_route \<and> r \<in> set (routes cfg) \<and> serve G cfg c other meth path header body w = other r w)"
  proof (cases "find_route G (routes cfg) meth path")
    case None
    then show ?thesis by (simp add: serve_def)
  next
    case (Some r)
    then have "r \<in> set (routes cfg)" using assms unfolding gin_ok_def by blast
    moreover from this none have "r \<noteq> flush_route" by blast
    moreover from this Some have "serve G cfg c other meth path header body w
        = (if auth_required cfg \<and> \<not> basic_ok G (sv_AuthUser cfg) (sv_AuthPass cfg) header then ((401, None), w) else other r w)"
      by (simp add: serve_def)
    ultimately show ?thesis by (metis (full_types))
  qed
qed

lemma flush_path: "CHR '':'' \<notin> set ''/api/master/v1/flush''" "CHR ''*'' \<notin> set ''/api/master/v1/flush''"
  by simp_all

text \<open>A router that looks paths up and accepts one header, and a master with and without password.\<close>

definition plain_gin :: Gin where
  "plain_gin = \<lparr>find_route = (\<lambda>rs m p. if (m, p) \<in> set rs then Some (m, p) else None), basic_ok = (\<lambda>u pw h. h = ''Basic dTpw'')\<rparr>"

lemma plain_gin_ok: "gin_ok plain_gin"
  by (simp add: gin_ok_def plain_gin_def)

definition master_config :: "string \<Rightarrow> ServerConfig" where
  "master_config user = \<lparr>sv_AuthUser = user, sv_AuthPass = ''p'', sv_NodeRole = ''master'', sv_ClusterToken = ''t''\<rparr>"

definition pushing_queue :: WorkerQueue where
  "pushing_queue = sample_queue\<lparr>masterURL := ''http://m'', clusterToken := ''t''\<rparr>"

lemma pushing_queue_fields: "clusterToken pushing_queue = ''t''" "masterURL pushing_queue = ''http://m''" "items pushing_queue \<noteq> []"
  by (simp_all add: pushing_queue_def sample_queue_items)

theorem password_guards_every_route_witness:
  "serve plain_gin (master_config ''u'') (worker_client sample_setup) (\<lambda>_ w. ((200, None), w)) GET ''/mcp'' '''' None sample_world
    = ((401, None), sample_world)"
  using password_guards_every_route [OF plain_gin_ok, of "master_config ''u''" "''''" "worker_client sample_setup" "\<lambda>_ w. ((200, None), w)"
      GET "''/mcp''" None sample_world]
  by (simp add: auth_required_def master_config_def plain_gin_def)


section \<open>The workers page\<close>

text \<open>
  \<open>APIWorkers\<close>, \<open>APIWorkerPause\<close> and \<open>APIWorkerResume\<close> of \<open>ui/workers.go\<close>. The last two answer with
  a status; \<open>body\<close> is the URL of the decoded request, \<open>None\<close> when it does not decode. Beside the
  status the model returns the control request handed to the HTTP client: its address, token and
  action.
\<close>

definition APIWorkers :: "string \<Rightarrow> MasterPuller option \<Rightarrow> instant \<Rightarrow> WorkerStatus list" where
  "APIWorkers nodeRole monitor t =
    (if nodeRole \<noteq> ''master'' then []
     else case monitor of None \<Rightarrow> [] | Some p \<Rightarrow> Status t p)"

definition control_sent :: "string \<Rightarrow> string \<Rightarrow> MasterPuller \<Rightarrow> string \<times> string \<times> string" where
  "control_sent workerURL act p = (workerURL @ ''/api/worker/v1/control'', mp_token p, act)"

definition worker_action ::
  "(string \<Rightarrow> MasterPuller \<Rightarrow> string option) \<Rightarrow> string \<Rightarrow> string \<Rightarrow> MasterPuller option \<Rightarrow> string option
    \<Rightarrow> nat \<times> (string \<times> string \<times> string) list" where
  "worker_action control act nodeRole monitor body =
    (case monitor of
       None \<Rightarrow> (403, [])
     | Some p \<Rightarrow>
         if nodeRole \<noteq> ''master'' then (403, [])
         else case body of
           None \<Rightarrow> (400, [])
         | Some url \<Rightarrow>
             if url = '''' then (400, [])
             else (case control url p of Some err \<Rightarrow> 500 | None \<Rightarrow> 200, [control_sent url act p]))"

definition APIWorkerPause ::
  "(string \<Rightarrow> string \<Rightarrow> string \<Rightarrow> post_reply) \<Rightarrow> string \<Rightarrow> MasterPuller option \<Rightarrow> string option
    \<Rightarrow> nat \<times> (string \<times> string \<times> string) list" where
  "APIWorkerPause post nodeRole monitor body = worker_action (PauseWorker post) ''pause'' nodeRole monitor body"

definition APIWorkerResume ::
  "(string \<Rightarrow> string \<Rightarrow> string \<Rightarrow> post_reply) \<Rightarrow> string \<Rightarrow> MasterPuller option \<Rightarrow> string option
    \<Rightarrow> nat \<times> (string \<times> string \<times> string) list" where
  "APIWorkerResume post nodeRole monitor body = worker_action (ResumeWorker post) ''resume'' nodeRole monitor body"

text \<open>The workers page hands out the cluster token: on a master, a request to pause a worker
  sends the cluster token to whatever address the request names, one of the configured workers
  or not, and reports success exactly when that address answers with a status in the two
  hundreds.\<close>
theorem pause_sends_token_anywhere:
  assumes "url \<noteq> ''''"
  shows "snd (APIWorkerPause post ''master'' (Some p) (Some url)) = [(url @ ''/api/worker/v1/control'', mp_token p, ''pause'')]
    \<and> (fst (APIWorkerPause post ''master'' (Some p) (Some url)) = 200
        \<longleftrightarrow> (\<exists>st. post (url @ ''/api/worker/v1/control'') (mp_token p) ''pause'' = PostReply st \<and> st div 100 = 2))"
  using assms
  by (auto simp: APIWorkerPause_def worker_action_def control_sent_def PauseWorker_def sendControl_def split: post_reply.split option.split)

theorem pause_sends_token_anywhere_witness:
  "snd (APIWorkerPause (\<lambda>_ _ _. PostReply 200) ''master'' (Some \<lparr>mp_workers = [], mp_token = ''secret'', mp_status = Map.empty\<rparr>) (Some ''http://elsewhere''))
    = [(''http://elsewhere/api/worker/v1/control'', ''secret'', ''pause'')]"
  using pause_sends_token_anywhere [of "''http://elsewhere''" "\<lambda>_ _ _. PostReply 200" "\<lparr>mp_workers = [], mp_token = ''secret'', mp_status = Map.empty\<rparr>"]
  by simp

end
