(* ===== verification/Notifier.thy ===== *)
theory Notifier
  imports Repository
begin

text \<open>
  Notifications, \<open>notifier/notifier.go\<close> with its back ends \<open>telegram.go\<close>, \<open>discord.go\<close>, \<open>slack.go\<close>
  and \<open>gotify.go\<close>. What a back end does is the list of its outgoing calls; how the other side
  answers is an argument (\<open>net/http\<close> and the Telegram library).
\<close>

section \<open>Back ends\<close>

record NotifyConfig =
  nc_TelegramToken :: string
  nc_TelegramUsername :: string
  nc_DiscordWebhook :: string
  nc_SlackWebhook :: string
  nc_GotifyURL :: string
  nc_GotifyToken :: string

datatype backend =
    TelegramNotifier
  | DiscordNotifier string
  | SlackNotifier string
  | GotifyNotifier string string

text \<open>A call: a \<open>POST\<close> of a JSON object, the search for a Telegram chat, or a Telegram message.\<close>

datatype json_value = JStr string | JNum int

datatype out_call =
    HttpPost string "(string \<times> json_value) list"
  | ChatByUsername string
  | TelegramSend string string

text \<open>
  \<open>web\<close> gives the status of a \<open>POST\<close>, \<open>None\<close> when it fails; \<open>new_bot\<close> whether a token gives a bot;
  \<open>chat\<close> whether a user has a chat.
\<close>

record Outside =
  web :: "string \<Rightarrow> nat option"
  new_bot :: "string \<Rightarrow> bool"
  chat :: "string \<Rightarrow> bool"

text \<open>The error that \<open>Notify\<close> of a back end returns is a status, or the error of the request.\<close>

datatype notify_error = RequestFailed | BadStatus nat

definition post_result :: "Outside \<Rightarrow> string \<Rightarrow> notify_error option" where
  "post_result O' url =
    (case web O' url of
       None \<Rightarrow> Some RequestFailed
     | Some st \<Rightarrow> if st \<ge> 400 then Some (BadStatus st) else None)"

definition NotifyTelegram :: "Outside \<Rightarrow> NotifyConfig \<Rightarrow> string \<Rightarrow> out_call list" where
  "NotifyTelegram O' cfg message =
    ChatByUsername (nc_TelegramUsername cfg)
    # (if chat O' (nc_TelegramUsername cfg) then [TelegramSend (nc_TelegramUsername cfg) message] else [])"

definition gotify_url :: "string \<Rightarrow> string \<Rightarrow> string" where
  "gotify_url url token = url @ ''/message?token='' @ token"

definition Discord_Notify :: "Outside \<Rightarrow> string \<Rightarrow> string \<Rightarrow> out_call list \<times> notify_error option" where
  "Discord_Notify O' url message =
    (if url = '''' then ([], None)
     else ([HttpPost url [(''content'', JStr message)]], post_result O' url))"

definition Slack_Notify :: "Outside \<Rightarrow> string \<Rightarrow> string \<Rightarrow> out_call list \<times> notify_error option" where
  "Slack_Notify O' url message =
    (if url = '''' then ([], None)
     else ([HttpPost url [(''text'', JStr message)]], post_result O' url))"

definition Gotify_Notify :: "Outside \<Rightarrow> string \<Rightarrow> string \<Rightarrow> string \<Rightarrow> out_call list \<times> notify_error option" where
  "Gotify_Notify O' url token message =
    (if url = '''' \<or> token = '''' then ([], None)
     else let u = gotify_url url token
          in ([HttpPost u [(''message'', JStr message), (''priority'', JNum 5), (''title'', JStr ''dhtc'')]], post_result O' u))"

definition backend_Notify :: "Outside \<Rightarrow> NotifyConfig \<Rightarrow> backend \<Rightarrow> string \<Rightarrow> out_call list \<times> notify_error option" where
  "backend_Notify O' cfg b message =
    (case b of
       TelegramNotifier \<Rightarrow> (NotifyTelegram O' cfg message, None)
     | DiscordNotifier url \<Rightarrow> Discord_Notify O' url message
     | SlackNotifier url \<Rightarrow> Slack_Notify O' url message
     | GotifyNotifier url token \<Rightarrow> Gotify_Notify O' url token message)"

section \<open>The manager\<close>

definition Notifier_Setup :: "Outside \<Rightarrow> NotifyConfig \<Rightarrow> backend list" where
  "Notifier_Setup O' cfg =
    (if nc_TelegramToken cfg \<noteq> '''' \<and> new_bot O' (nc_TelegramToken cfg) then [TelegramNotifier] else [])
    @ (if nc_DiscordWebhook cfg \<noteq> '''' then [DiscordNotifier (nc_DiscordWebhook cfg)] else [])
    @ (if nc_SlackWebhook cfg \<noteq> '''' then [SlackNotifier (nc_SlackWebhook cfg)] else [])
    @ (if nc_GotifyURL cfg \<noteq> '''' \<and> nc_GotifyToken cfg \<noteq> '''' then [GotifyNotifier (nc_GotifyURL cfg) (nc_GotifyToken cfg)] else [])"

text \<open>\<open>Manager.Notify\<close> asks every back end in turn and ignores their errors.\<close>

definition Manager_Notify :: "Outside \<Rightarrow> NotifyConfig \<Rightarrow> backend list \<Rightarrow> string \<Rightarrow> out_call list" where
  "Manager_Notify O' cfg notifiers message = concat (map (\<lambda>n. fst (backend_Notify O' cfg n message)) notifiers)"

text \<open>The notifications of one ingested torrent, as \<open>CheckWatches\<close> sends them.\<close>

definition notify_all :: "Outside \<Rightarrow> NotifyConfig \<Rightarrow> backend list \<Rightarrow> string list \<Rightarrow> out_call list" where
  "notify_all O' cfg notifiers messages = concat (map (Manager_Notify O' cfg notifiers) messages)"

section \<open>Every back end gets every message\<close>

definition posts_to :: "string \<Rightarrow> out_call list \<Rightarrow> (string \<times> json_value) list list" where
  "posts_to url calls = List.map_filter (\<lambda>c. case c of HttpPost u p \<Rightarrow> if u = url then Some p else None | _ \<Rightarrow> None) calls"

definition sent_to :: "out_call list \<Rightarrow> (string \<times> string) list" where
  "sent_to calls = List.map_filter (\<lambda>c. case c of TelegramSend u m \<Rightarrow> Some (u, m) | _ \<Rightarrow> None) calls"

lemma posts_to_append [simp]: "posts_to url (xs @ ys) = posts_to url xs @ posts_to url ys"
  by (simp add: posts_to_def List.map_filter_def)

lemma sent_to_append [simp]: "sent_to (xs @ ys) = sent_to xs @ sent_to ys"
  by (simp add: sent_to_def List.map_filter_def)

lemma call_simps [simp]:
  "posts_to url [] = []" "sent_to [] = []"
  "posts_to url (HttpPost u p # cs) = (if u = url then p # posts_to url cs else posts_to url cs)"
  "posts_to url (ChatByUsername n # cs) = posts_to url cs" "posts_to url (TelegramSend n m # cs) = posts_to url cs"
  "sent_to (HttpPost u p # cs) = sent_to cs" "sent_to (ChatByUsername n # cs) = sent_to cs"
  "sent_to (TelegramSend n m # cs) = (n, m) # sent_to cs"
  by (simp_all add: posts_to_def sent_to_def List.map_filter_def)

lemma notify_all_Cons: "notify_all O' cfg ns (m # ms) = Manager_Notify O' cfg ns m @ notify_all O' cfg ns ms"
  by (simp add: notify_all_def)

text \<open>Notifications reach every back end: whatever the services answer, each configured back end
  gets every message, once and in order, a failing back end keeping no other from its
  messages; a back end that is not configured gets none.\<close>
theorem notifications_reach_all:
  assumes "nc_DiscordWebhook cfg = '''' \<or> nc_DiscordWebhook cfg \<noteq> nc_SlackWebhook cfg"
    and "gotify_url (nc_GotifyURL cfg) (nc_GotifyToken cfg) \<notin> {nc_DiscordWebhook cfg, nc_SlackWebhook cfg}"
    and "calls = notify_all O' cfg (Notifier_Setup O' cfg) messages"
  shows "posts_to (nc_DiscordWebhook cfg) calls = (if nc_DiscordWebhook cfg = '''' then [] else map (\<lambda>m. [(''content'', JStr m)]) messages)
    \<and> posts_to (nc_SlackWebhook cfg) calls = (if nc_SlackWebhook cfg = '''' then [] else map (\<lambda>m. [(''text'', JStr m)]) messages)
    \<and> posts_to (gotify_url (nc_GotifyURL cfg) (nc_GotifyToken cfg)) calls =
        (if nc_GotifyURL cfg = '''' \<or> nc_GotifyToken cfg = '''' then []
         else map (\<lambda>m. [(''message'', JStr m), (''priority'', JNum 5), (''title'', JStr ''dhtc'')]) messages)
    \<and> sent_to calls = (if nc_TelegramToken cfg \<noteq> '''' \<and> new_bot O' (nc_TelegramToken cfg) \<and> chat O' (nc_TelegramUsername cfg)
         then map (\<lambda>m. (nc_TelegramUsername cfg, m)) messages else [])"
proof -
  define g where "g = gotify_url (nc_GotifyURL cfg) (nc_GotifyToken cfg)"
  have d: "nc_DiscordWebhook cfg \<noteq> g" "nc_SlackWebhook cfg \<noteq> g" using assms(2) by (auto simp: g_def)
  have one: "posts_to (nc_DiscordWebhook cfg) (Manager_Notify O' cfg (Notifier_Setup O' cfg) m) = (if nc_DiscordWebhook cfg = '''' then [] else [[(''content'', JStr m)]])"
    "posts_to (nc_SlackWebhook cfg) (Manager_Notify O' cfg (Notifier_Setup O' cfg) m) = (if nc_SlackWebhook cfg = '''' then [] else [[(''text'', JStr m)]])"
    "posts_to g (Manager_Notify O' cfg (Notifier_Setup O' cfg) m) = (if nc_GotifyURL cfg = '''' \<or> nc_GotifyToken cfg = '''' then []
       else [[(''message'', JStr m), (''priority'', JNum 5), (''title'', JStr ''dhtc'')]])"
    "sent_to (Manager_Notify O' cfg (Notifier_Setup O' cfg) m) = (if nc_TelegramToken cfg \<noteq> '''' \<and> new_bot O' (nc_TelegramToken cfg) \<and> chat O' (nc_TelegramUsername cfg)
       then [(nc_TelegramUsername cfg, m)] else [])" for m
    using assms(1) d d [symmetric] by (auto simp: Manager_Notify_def Notifier_Setup_def backend_Notify_def Discord_Notify_def Slack_Notify_def Gotify_Notify_def NotifyTelegram_def Let_def simp flip: g_def)
  show ?thesis
    unfolding assms(3) g_def [symmetric]
    by (induction messages) (auto simp: notify_all_Cons one simp: notify_all_def)
qed

definition busy_config :: NotifyConfig where
  "busy_config = \<lparr>nc_TelegramToken = '''', nc_TelegramUsername = '''', nc_DiscordWebhook = ''d'', nc_SlackWebhook = ''s'',
     nc_GotifyURL = '''', nc_GotifyToken = ''''\<rparr>"

definition discord_down :: Outside where
  "discord_down = \<lparr>web = (\<lambda>u. if u = ''d'' then None else Some 200), new_bot = (\<lambda>_. False), chat = (\<lambda>_. False)\<rparr>"

theorem notifications_reach_all_witness:
  "posts_to ''s'' (notify_all discord_down busy_config (Notifier_Setup discord_down busy_config) [''a'', ''b''])
    = [[(''text'', JStr ''a'')], [(''text'', JStr ''b'')]]"
  using notifications_reach_all [OF _ _ refl, of busy_config discord_down "[''a'', ''b'']"]
  by (simp add: busy_config_def gotify_url_def)

end
