(* ===== verification/Program.thy ===== *)
theory Program
  imports Settings Crawl_Runs Repository_State Notifier
begin

text \<open>
  The start of the program, \<open>cmd/dhtc/main.go\<close>: the lines of the bootstrap and blacklist files, the
  choice of bootstrap nodes, what a node with a database and what a worker has set up when it
  begins to serve, one turn of the statistics loop; and what the dashboard shows of the crawler,
  \<open>Status\<close> of \<open>ui/crawler.go\<close>, with its two buttons (\<open>ui/crawler_controls.go\<close>).
\<close>

section \<open>Files and lists\<close>

text \<open>
  The lines \<open>bufio.Scanner\<close> gives: without the line end and a carriage return before it, none for
  an empty rest, and nothing from the first line on that does not fit its buffer of 64 KiB.
\<close>

definition drop_cr :: "string \<Rightarrow> string" where
  "drop_cr l = (case rev l of c # r \<Rightarrow> if c = CHR 0x0D then rev r else l | [] \<Rightarrow> l)"

definition scan_lines :: "string \<Rightarrow> string list" where
  "scan_lines content =
    (let ls = split_at CHR 0x0A content;
         full = (case rev ls of [] # r \<Rightarrow> rev r | _ \<Rightarrow> ls)
     in map drop_cr (takeWhile (\<lambda>l. length l < 65536) full))"

text \<open>\<open>disk\<close> gives the contents of the files that can be opened.\<close>

definition ReadFileLines :: "(string \<rightharpoonup> string) \<Rightarrow> string \<Rightarrow> string list" where
  "ReadFileLines disk filePath =
    (if filePath = '''' then []
     else case disk filePath of
       None \<Rightarrow> []
     | Some content \<Rightarrow> filter (\<lambda>l. l \<noteq> '''' \<and> take 1 l \<noteq> ''#'') (map TrimSpace (scan_lines content)))"

definition splitList :: "string \<Rightarrow> string list" where
  "splitList v = fields_func [] v"

definition defaultBootstrapNodes :: "string list" where
  "defaultBootstrapNodes =
    [''router.bittorrent.com:6881'', ''router.utorrent.com:6881'', ''dht.transmissionbt.com:6881'', ''dht.libtorrent.org:25401'']"

section \<open>A node with a database\<close>

record ProgramConfig =
  pc_BootstrapNodeFile :: string
  pc_BootstrapIPv4 :: "string list"
  pc_NodeRole :: string
  pc_NameBlacklist :: string
  pc_FileBlacklist :: string
  pc_Statistics :: bool
  pc_CrawlerStartOnLaunch :: bool
  pc_crawler :: CrawlerConfig
  pc_notify :: NotifyConfig
  pc_WorkerURLs :: string
  pc_ClusterToken :: string
  pc_MasterURL :: string
  pc_WorkerCacheDir :: string
  pc_Address :: string
  pc_WorkerID :: string
  pc_WorkerQueue :: int
  pc_WorkerBatch :: int

definition bootstrap_nodes :: "(string \<rightharpoonup> string) \<Rightarrow> ProgramConfig \<Rightarrow> string list" where
  "bootstrap_nodes disk cfg =
    (let nodes = ReadFileLines disk (pc_BootstrapNodeFile cfg) @ pc_BootstrapIPv4 cfg
     in if length nodes = 0 then defaultBootstrapNodes else nodes)"

record 'db Process =
  pr_known :: Cache
  pr_db :: 'db
  pr_notifiers :: "backend list option"
  pr_collectStats :: bool
  pr_crawler :: CrawlerManager
  pr_puller :: "MasterPuller option"

definition start_node ::
  "'db Clover \<Rightarrow> Outside \<Rightarrow> (string \<Rightarrow> (string \<times> string) option) \<Rightarrow> (string \<rightharpoonup> string) \<Rightarrow> ProgramConfig \<Rightarrow> instant \<Rightarrow> 'db \<Rightarrow> 'db Process" where
  "start_node C O' parsed disk cfg t db =
    (let known = PopulateInfoHashCacheFromDatabase t (GetAllInfoHashes C db) empty_cache;
         db1 = snd (AddToBlacklist C (ReadFileLines disk (pc_NameBlacklist cfg)) ''0'' db);
         db2 = snd (AddToBlacklist C (ReadFileLines disk (pc_FileBlacklist cfg)) ''1'' db1);
         web_only = OnlyWebServer (pc_crawler cfg);
         m = NewCrawlerManager
     in \<lparr>pr_known = known, pr_db = db2,
         pr_notifiers = (if web_only then None else Some (Notifier_Setup O' (pc_notify cfg))),
         pr_collectStats = (\<not> web_only \<and> pc_Statistics cfg),
         pr_crawler = (if \<not> web_only \<and> pc_CrawlerStartOnLaunch cfg \<and> \<not> CrawlerScheduleEnabled (pc_crawler cfg)
                       then snd (Start (pc_crawler cfg) t m) else m),
         pr_puller = (if pc_NodeRole cfg = ''master''
                      then Some (NewMasterPuller parsed (splitList (pc_WorkerURLs cfg)) (pc_ClusterToken cfg)) else None)\<rparr>)"

text \<open>One turn of \<open>collectStats\<close>, which comes once a minute.\<close>

definition collectStats_turn :: "'db Clover \<Rightarrow> instant \<Rightarrow> 'db \<Rightarrow> 'db" where
  "collectStats_turn C t db =
    or_same db (InsertStats C (zero_stats\<lparr>Timestamp := Truncate t Minute, TorrentCount := GetInfoHashCount C db\<rparr>) db)"

section \<open>A worker\<close>

definition worker_cache_dir :: "ProgramConfig \<Rightarrow> string" where
  "worker_cache_dir cfg =
    (if pc_WorkerCacheDir cfg = ''''
     then ''/tmp/dhtc-worker-'' @ map (\<lambda>c. if c = CHR '':'' \<or> c = CHR ''/'' then CHR ''_'' else c) (pc_Address cfg)
     else pc_WorkerCacheDir cfg)"

text \<open>
  \<open>runWorker\<close> up to the start of its server: the process ends without a cluster token. \<open>saved\<close> is what
  the cache file in a directory holds.
\<close>

definition start_worker ::
  "(string \<Rightarrow> (Record list \<times> bool) option) \<Rightarrow> ProgramConfig \<Rightarrow> instant \<Rightarrow> (WorkerQueue \<times> CrawlerManager) option" where
  "start_worker saved cfg t =
    (if TrimSpace (pc_ClusterToken cfg) = '''' then None
     else
       let pushMode = pc_MasterURL cfg \<noteq> '''';
           path = (if pushMode then worker_cache_dir cfg else '''');
           q = NewWorkerQueue (pc_WorkerID cfg) (pc_WorkerQueue cfg) path (saved path);
           q1 = (if pushMode
                 then StartFlushLoop (pc_WorkerBatch cfg) (pc_WorkerBatch cfg) (SetMaster (pc_MasterURL cfg) (pc_ClusterToken cfg) q)
                 else q);
           m = NewCrawlerManager
       in Some (q1, if \<not> CrawlerScheduleEnabled (pc_crawler cfg) then snd (Start (pc_crawler cfg) t m) else m))"

section \<open>The dashboard\<close>

record CrawlerStatus =
  cs_Running :: bool
  cs_StartedAt :: instant
  cs_AutoStopAt :: instant
  cs_Threads :: int
  cs_AutoStopAfter :: duration
  cs_ScheduleEnabled :: bool
  cs_ScheduleStart :: string
  cs_ScheduleEnd :: string
  cs_NextScheduleChange :: instant
  cs_ManualOverride :: bool
  cs_ManualOverrideUntil :: instant
  cs_Discovered :: uint64
  cs_DownloadSucceeded :: uint64
  cs_PendingGetPeers :: nat
  cs_counter :: "counter \<Rightarrow> uint64"

text \<open>\<open>pending r\<close> are the open requests of run \<open>r\<close>; the four counters are one function.\<close>

definition CrawlerManager_Status ::
  "CrawlerConfig \<Rightarrow> instant \<Rightarrow> uint64 \<Rightarrow> uint64 \<Rightarrow> (nat \<Rightarrow> nat) \<Rightarrow> Runs \<Rightarrow> CrawlerManager \<Rightarrow> CrawlerStatus" where
  "CrawlerManager_Status cfg t found fetched pending runs m =
    \<lparr>cs_Running = running m, cs_StartedAt = startedAt m, cs_AutoStopAt = autoStopAt m, cs_Threads = threads m,
     cs_AutoStopAfter = int64 (CrawlerAutoStopMinutes cfg * Minute), cs_ScheduleEnabled = CrawlerScheduleEnabled cfg,
     cs_ScheduleStart = CrawlerScheduleStart cfg, cs_ScheduleEnd = CrawlerScheduleEnd cfg,
     cs_NextScheduleChange = snd (scheduleState t (CrawlerScheduleStart cfg) (CrawlerScheduleEnd cfg)),
     cs_ManualOverride = manualOverride m, cs_ManualOverrideUntil = manualUntil m,
     cs_Discovered = found, cs_DownloadSucceeded = fetched,
     cs_PendingGetPeers = (case activeDHTManager runs of None \<Rightarrow> 0 | Some r \<Rightarrow> pending r),
     cs_counter = Status_counter runs\<rparr>"

record DashboardPage =
  db_info_hash_count :: nat
  db_families :: "nat \<times> nat \<times> nat"
  db_statistics :: bool
  db_catDist :: "string \<rightharpoonup> nat"
  db_crawler :: "CrawlerStatus option"

definition Dashboard :: "'db Clover \<Rightarrow> bool \<Rightarrow> CrawlerStatus option \<Rightarrow> 'db \<Rightarrow> DashboardPage" where
  "Dashboard C statistics status db =
    \<lparr>db_info_hash_count = GetInfoHashCount C db, db_families = GetFamilyCounts C db, db_statistics = statistics,
     db_catDist = (case GetCategoryDistribution C db of None \<Rightarrow> Map.empty | Some d \<Rightarrow> d), db_crawler = status\<rparr>"

text \<open>The two buttons, which redirect to the dashboard.\<close>

definition CrawlerStart :: "CrawlerConfig \<Rightarrow> instant \<Rightarrow> CrawlerManager option \<Rightarrow> CrawlerManager option" where
  "CrawlerStart cfg t crawler = map_option (\<lambda>m. snd (Start cfg t m)) crawler"

definition CrawlerStop :: "CrawlerConfig \<Rightarrow> instant \<Rightarrow> CrawlerManager option \<Rightarrow> close_panic + CrawlerManager option" where
  "CrawlerStop cfg t crawler =
    (case crawler of None \<Rightarrow> Inr None | Some m \<Rightarrow> ebind (Stop cfg t m) (\<lambda>(_, m'). Inr (Some m')))"

section \<open>The figures of a worker\<close>

text \<open>
  \<open>WorkerQueue.Stats\<close> and the health page of \<open>runWorker\<close>, without the rate, a floating-point number.
\<close>

record WorkerQueueStats =
  qs_Queued :: nat
  qs_Dropped :: uint64
  qs_Flushed :: uint64
  qs_FlushBatches :: uint64

definition queue_Stats :: "WorkerQueue \<Rightarrow> WorkerQueueStats" where
  "queue_Stats q = \<lparr>qs_Queued = queue_Length q, qs_Dropped = dropped q, qs_Flushed = flushed q, qs_FlushBatches = flushBatches q\<rparr>"

record WorkerHealth =
  wh_paused :: bool
  wh_discovered :: uint64
  wh_download_succeeded :: uint64
  wh_pending_get_peers :: nat
  wh_counter :: "counter \<Rightarrow> uint64"
  wh_queue :: WorkerQueueStats

definition worker_health :: "CrawlerStatus \<Rightarrow> WorkerQueue \<Rightarrow> WorkerHealth" where
  "worker_health st q =
    \<lparr>wh_paused = (\<not> cs_Running st), wh_discovered = cs_Discovered st, wh_download_succeeded = cs_DownloadSucceeded st,
     wh_pending_get_peers = cs_PendingGetPeers st, wh_counter = cs_counter st, wh_queue = queue_Stats q\<rparr>"

text \<open>
  The differences \<open>logWorkerMetrics\<close> reports each minute and what it remembers for the next; the
  subtraction is that of \<open>uint64\<close>.
\<close>

record Metrics =
  mt_Discovered :: uint64
  mt_Downloads :: uint64
  mt_counter :: "counter \<Rightarrow> uint64"
  mt_Flushed :: uint64

definition no_metrics :: Metrics where
  "no_metrics = \<lparr>mt_Discovered = 0, mt_Downloads = 0, mt_counter = (\<lambda>_. 0), mt_Flushed = 0\<rparr>"

definition metrics_of :: "CrawlerStatus \<Rightarrow> WorkerQueueStats \<Rightarrow> Metrics" where
  "metrics_of st qs = \<lparr>mt_Discovered = cs_Discovered st, mt_Downloads = cs_DownloadSucceeded st, mt_counter = cs_counter st, mt_Flushed = qs_Flushed qs\<rparr>"

definition logWorkerMetrics_turn :: "Metrics \<Rightarrow> CrawlerStatus \<Rightarrow> WorkerQueueStats \<Rightarrow> Metrics \<times> Metrics" where
  "logWorkerMetrics_turn previous st qs =
    (let cur = metrics_of st qs
     in (\<lparr>mt_Discovered = mt_Discovered cur - mt_Discovered previous, mt_Downloads = mt_Downloads cur - mt_Downloads previous,
          mt_counter = (\<lambda>c. mt_counter cur c - mt_counter previous c), mt_Flushed = mt_Flushed cur - mt_Flushed previous\<rparr>, cur))"

fun metrics_run :: "Metrics \<Rightarrow> (CrawlerStatus \<times> WorkerQueueStats) list \<Rightarrow> Metrics list" where
  "metrics_run previous [] = []"
| "metrics_run previous ((st, qs) # turns) =
     (case logWorkerMetrics_turn previous st qs of (report, cur) \<Rightarrow> report # metrics_run cur turns)"

text \<open>The reported differences add up to the last figure, modulo the width of the counters.\<close>

lemma metrics_add_up:
  "turns \<noteq> [] \<Longrightarrow> sum_list (map (\<lambda>r. mt_counter r c) (metrics_run previous turns)) + mt_counter previous c = cs_counter (fst (last turns)) c"
proof (induction turns arbitrary: previous)
  case (Cons t turns)
  obtain st qs where t: "t = (st, qs)" by (rule prod.exhaust)
  show ?case
  proof (cases "turns = []")
    case True
    then show ?thesis by (simp add: t logWorkerMetrics_turn_def metrics_of_def)
  next
    case False
    with Cons.IH [OF False, of "metrics_of st qs"] show ?thesis
      by (simp add: t logWorkerMetrics_turn_def Let_def) (simp add: metrics_of_def algebra_simps)
  qed
qed simp

text \<open>A counter that falls, as after overlapping runs, is reported as a huge number.\<close>

lemma metrics_wrap:
  assumes "cs_counter st c < mt_counter previous c"
  shows "uint (mt_counter (fst (logWorkerMetrics_turn previous st qs)) c) = uint (cs_counter st c) - uint (mt_counter previous c) + 2 ^ 64"
proof -
  have "uint (cs_counter st c) < uint (mt_counter previous c)" using assms by (simp add: word_less_def)
  moreover have "(a - b) mod 2 ^ 64 = a - b + 2 ^ 64" if "a < b" "b < 2 ^ 64" "0 \<le> a" for a b :: int
  proof -
    have "(a - b) mod 2 ^ 64 = (a - b + 2 ^ 64) mod 2 ^ 64" by simp
    also have "\<dots> = a - b + 2 ^ 64" using that by (intro mod_pos_pos_trivial) auto
    finally show ?thesis .
  qed
  ultimately show ?thesis
    using uint_lt2p [of "mt_counter previous c"]
    by (simp add: logWorkerMetrics_turn_def metrics_of_def Let_def uint_word_ariths)
qed

section \<open>What holds when the node serves\<close>

lemma start_node_fields:
  "pr_known (start_node C O' parsed disk cfg t db) = PopulateInfoHashCacheFromDatabase t (GetAllInfoHashes C db) empty_cache"
  "pr_db (start_node C O' parsed disk cfg t db) = snd (AddToBlacklist C (ReadFileLines disk (pc_FileBlacklist cfg)) ''1''
     (snd (AddToBlacklist C (ReadFileLines disk (pc_NameBlacklist cfg)) ''0'' db)))"
  "pr_crawler (start_node C O' parsed disk cfg t db) = (if \<not> OnlyWebServer (pc_crawler cfg) \<and> pc_CrawlerStartOnLaunch cfg
     \<and> \<not> CrawlerScheduleEnabled (pc_crawler cfg) then snd (Start (pc_crawler cfg) t NewCrawlerManager) else NewCrawlerManager)"
  "pr_puller (start_node C O' parsed disk cfg t db) = (if pc_NodeRole cfg = ''master''
     then Some (NewMasterPuller parsed (splitList (pc_WorkerURLs cfg)) (pc_ClusterToken cfg)) else None)"
  by (simp_all add: start_node_def Let_def)

text \<open>A new crawler that is started without a schedule runs unless the node only serves pages.\<close>

lemma start_new_running:
  "\<not> CrawlerScheduleEnabled cfg \<Longrightarrow> running (snd (Start cfg t NewCrawlerManager)) \<longleftrightarrow> \<not> OnlyWebServer cfg"
  by (simp add: Start_def startLocked_def setManualOverrideAtLocked_def NewCrawlerManager_def Let_def)

lemma new_not_running: "\<not> running NewCrawlerManager"
  by (simp add: NewCrawlerManager_def)

lemma add_known_filters:
  assumes "clover_ok C valid rows" and "where_ok C" and "never_fails C rows" and "valid db" and "black_wf (rows BlacklistTable db)"
    and "\<And>f. f \<in> set fs \<Longrightarrow> blacklist_doc f ty \<in> ran (rows BlacklistTable db)"
  shows "AddToBlacklist C fs ty db = (False, db)"
proof -
  have "add_filter C ty f (r, db) = (r, db)" if "f \<in> set fs" for f r
    using isInBlacklist_iff [OF assms(1-5)] assms(6) [OF that] by (simp add: add_filter_def)
  then have "fold (add_filter C ty) fs (r, db) = (r, db)" for r by (induction fs) auto
  then show ?thesis by (simp add: AddToBlacklist_def)
qed

lemma start_node_db:
  assumes ok: "clover_ok C valid rows" "where_ok C" "never_fails C rows" and inv: "repo_inv C M valid rows cap db"
  shows "repo_inv C M valid rows cap (pr_db (start_node C O' parsed disk cfg t db))
    \<and> rows TorrentTable (pr_db (start_node C O' parsed disk cfg t db)) = rows TorrentTable db
    \<and> ran (rows BlacklistTable (pr_db (start_node C O' parsed disk cfg t db))) = ran (rows BlacklistTable db)
        \<union> {blacklist_doc f ''0'' | f. f \<in> set (ReadFileLines disk (pc_NameBlacklist cfg))}
        \<union> {blacklist_doc f ''1'' | f. f \<in> set (ReadFileLines disk (pc_FileBlacklist cfg))}"
proof -
  obtain r1 db1 where 1: "fold (add_filter C ''0'') (ReadFileLines disk (pc_NameBlacklist cfg)) (False, db) = (r1, db1)" by (rule prod.exhaust)
  obtain r2 db2 where 2: "fold (add_filter C ''1'') (ReadFileLines disk (pc_FileBlacklist cfg)) (False, db1) = (r2, db2)" by (rule prod.exhaust)
  have v: "valid db" "black_wf (rows BlacklistTable db)" using inv by (simp_all add: repo_inv_def)
  note e1 = AddToBlacklist_effect [OF ok v 1]
  then have v1: "valid db1" "black_wf (rows BlacklistTable db1)" by simp_all
  note e2 = AddToBlacklist_effect [OF ok v1 2]
  have "pr_db (start_node C O' parsed disk cfg t db) = db2" by (simp add: start_node_fields AddToBlacklist_def 1 2)
  then show ?thesis using e1 e2 inv by (auto simp: repo_inv_def)
qed


text \<open>Starting a worker: it needs a cluster token that is not blank; it pushes exactly when a master
  is configured, keeping then the records the last run saved, and is paused exactly when a
  schedule is set or it only serves pages.\<close>
theorem start_worker_mode:
  "(start_worker saved cfg t = None \<longleftrightarrow> TrimSpace (pc_ClusterToken cfg) = '''')
   \<and> (\<forall>q m. start_worker saved cfg t = Some (q, m) \<longrightarrow>
        masterURL q = TrimRight_slash (pc_MasterURL cfg)
      \<and> items q = (if pc_MasterURL cfg = '''' then [] else case saved (worker_cache_dir cfg) of None \<Rightarrow> [] | Some (rs, b) \<Rightarrow> rs)
      \<and> (running m \<longleftrightarrow> \<not> CrawlerScheduleEnabled (pc_crawler cfg) \<and> \<not> OnlyWebServer (pc_crawler cfg)))"
proof (cases "TrimSpace (pc_ClusterToken cfg) = ''''")
  case True
  then show ?thesis by (simp add: start_worker_def)
next
  case False
  define push where "push = (pc_MasterURL cfg \<noteq> '''')"
  define path where "path = (if push then worker_cache_dir cfg else '''')"
  define q where "q = NewWorkerQueue (pc_WorkerID cfg) (pc_WorkerQueue cfg) path (saved path)"
  define q1 where "q1 = (if push then StartFlushLoop (pc_WorkerBatch cfg) (pc_WorkerBatch cfg) (SetMaster (pc_MasterURL cfg) (pc_ClusterToken cfg) q) else q)"
  define m where "m = (if \<not> CrawlerScheduleEnabled (pc_crawler cfg) then snd (Start (pc_crawler cfg) t NewCrawlerManager) else NewCrawlerManager)"
  have eq: "start_worker saved cfg t = Some (q1, m)"
    using False unfolding start_worker_def Let_def push_def [symmetric] path_def [symmetric] q_def [symmetric] q1_def [symmetric] m_def [symmetric] by simp
  have "worker_cache_dir cfg \<noteq> ''''" by (simp add: worker_cache_dir_def)
  then have "items q = (if push then case saved (worker_cache_dir cfg) of None \<Rightarrow> [] | Some (rs, b) \<Rightarrow> rs else [])" "masterURL q = []"
    by (auto simp: q_def path_def NewWorkerQueue_def loadFromCache_def Let_def split: option.split)
  moreover have "items q1 = items q" "masterURL q1 = (if push then TrimRight_slash (pc_MasterURL cfg) else masterURL q)"
    by (simp_all add: q1_def StartFlushLoop_def SetMaster_def signalFlush_def Let_def)
  moreover have "running m \<longleftrightarrow> \<not> CrawlerScheduleEnabled (pc_crawler cfg) \<and> \<not> OnlyWebServer (pc_crawler cfg)"
    using start_new_running [of "pc_crawler cfg" t] new_not_running by (simp add: m_def)
  moreover have "TrimRight_slash '''' = ''''" by (simp add: TrimRight_slash_def)
  ultimately show ?thesis using eq False by (auto simp: push_def)
qed

definition plain_config :: ProgramConfig where
  "plain_config = \<lparr>pc_BootstrapNodeFile = '''', pc_BootstrapIPv4 = [], pc_NodeRole = ''standalone'', pc_NameBlacklist = ''names'',
     pc_FileBlacklist = '''', pc_Statistics = False, pc_CrawlerStartOnLaunch = True, pc_crawler = idle_config,
     pc_notify = busy_config, pc_WorkerURLs = '''', pc_ClusterToken = '''', pc_MasterURL = '''', pc_WorkerCacheDir = '''',
     pc_Address = '''', pc_WorkerID = '''', pc_WorkerQueue = 0, pc_WorkerBatch = 0\<rparr>"

lemma sample_lines: "ReadFileLines [''names'' \<mapsto> ''# names'' @ [CHR 0x0A] @ '' bad '' @ [CHR 0x0D, CHR 0x0A]] ''names'' = [''bad'']"
  by (simp add: ReadFileLines_def scan_lines_def drop_cr_def TrimSpace_def is_space_def Let_def)


end
