(* ===== verification/Worker_Runs.thy ===== *)
theory Worker_Runs
  imports Crawl_Loop
begin

text \<open>
  A worker as \<open>runWorker\<close> of \<open>cmd/dhtc/main.go\<close> puts it together: the crawl loop without a
  database, whose \<open>onMetadata\<close> is the queue's \<open>Enqueue\<close>, and the queue, whose \<open>onAck\<close> gives the
  hash of an acknowledged record twelve hours in the cache of known hashes. The loop, the
  downloads, the acknowledgements of the master and the calls of \<open>onAck\<close> they lead to run
  interleaved; calls of \<open>onAck\<close> that are due may come in any order.
\<close>

section \<open>State and steps\<close>

record Worker =
  wk_crawl :: Crawl
  wk_queue :: WorkerQueue
  wk_due :: "Metadata list"

definition ack_ttl :: duration where
  "ack_ttl = 12 * Hour"

definition worker_begin :: "WorkerQueue \<Rightarrow> int \<Rightarrow> nat \<Rightarrow> Worker" where
  "worker_begin q maxLeeches maxConcurrent =
    \<lparr>wk_crawl = crawl_begin empty_cache maxLeeches maxConcurrent, wk_queue = q, wk_due = []\<rparr>"

text \<open>The loop takes metadata from the sink and offers it to the queue.\<close>

definition on_metadata :: "Worker \<Rightarrow> Worker" where
  "on_metadata w =
    (case drain_receive (cr_sink (wk_crawl w)) of
       None \<Rightarrow> w
     | Some (md, ms) \<Rightarrow>
         (case Enqueue md (wk_queue w) of
            (accepted, q) \<Rightarrow> w\<lparr>wk_crawl := on_drain True (Some accepted) (wk_crawl w), wk_queue := q\<rparr>))"

text \<open>\<open>Ack\<close> up to its calls of \<open>onAck\<close>, which become due.\<close>

definition on_ack :: "uint64 list \<Rightarrow> Worker \<Rightarrow> Worker" where
  "on_ack ids w =
    w\<lparr>wk_queue := Ack ids (wk_queue w),
      wk_due := wk_due w @ map rec_Metadata (filter (\<lambda>r. rec_ID r \<in> set ids) (items (wk_queue w)))\<rparr>"

text \<open>One call of \<open>onAck\<close>, for the \<open>k\<close>-th that is due.\<close>

definition onAck :: "instant \<Rightarrow> nat \<Rightarrow> nat \<Rightarrow> Worker \<Rightarrow> Worker" where
  "onAck t pick k w =
    (if k < length (wk_due w)
     then w\<lparr>wk_crawl := cr_step True (wk_crawl w) (CrExpire t pick (md_InfoHash (wk_due w ! k)) ack_ttl),
            wk_due := take k (wk_due w) @ drop (Suc k) (wk_due w)\<rparr>
     else w)"

datatype wk_event =
    WkOutput instant IndexingResult
  | WkCall
  | WkMetadata
  | WkStop
  | WkTerminate
  | WkDownload sk_event
  | WkAck "uint64 list"
  | WkOnAck instant nat nat

fun wk_step :: "Worker \<Rightarrow> wk_event \<Rightarrow> Worker" where
  "wk_step w (WkOutput t res) = w\<lparr>wk_crawl := cr_step True (wk_crawl w) (CrOutput t res)\<rparr>"
| "wk_step w WkCall = w\<lparr>wk_crawl := cr_step True (wk_crawl w) CrCall\<rparr>"
| "wk_step w WkMetadata = (if cr_pc (wk_crawl w) = Selecting then on_metadata w else w)"
| "wk_step w WkStop = w\<lparr>wk_crawl := cr_step True (wk_crawl w) CrStop\<rparr>"
| "wk_step w WkTerminate = w\<lparr>wk_crawl := cr_step True (wk_crawl w) CrTerminate\<rparr>"
| "wk_step w (WkDownload e) = w\<lparr>wk_crawl := cr_step True (wk_crawl w) (CrDownload e)\<rparr>"
| "wk_step w (WkAck ids) = on_ack ids w"
| "wk_step w (WkOnAck t pick k) = onAck t pick k w"

section \<open>Where a hash is\<close>

definition in_sink :: "Sink \<Rightarrow> bytes list" where
  "in_sink ms = keys_of (downloads ms) @ map md_InfoHash (case flushing ms of None \<Rightarrow> [] | Some md \<Rightarrow> [md]) @ map md_InfoHash (drain ms)"

definition fetching :: "Worker \<Rightarrow> bytes list" where
  "fetching w = in_sink (cr_sink (wk_crawl w)) @ pending (cr_pc (wk_crawl w))"

definition queued :: "Worker \<Rightarrow> bytes list" where
  "queued w = map (\<lambda>r. md_InfoHash (rec_Metadata r)) (items (wk_queue w))"

definition awaiting :: "Worker \<Rightarrow> bytes list" where
  "awaiting w = map md_InfoHash (wk_due w)"

definition expiring :: "Worker \<Rightarrow> bytes set" where
  "expiring w = fst ` set (infoHashExpiry (cr_cache (wk_crawl w)))"

abbreviation known_hashes :: "Worker \<Rightarrow> bytes set" where
  "known_hashes w \<equiv> infoHashCache (cr_cache (wk_crawl w))"

definition acknowledged :: "Worker \<Rightarrow> bytes set" where
  "acknowledged w = md_InfoHash ` set (acked_log (wk_queue w))"

text \<open>
  While the sink runs, the known hashes are, each in one place, those being fetched, those in
  the queue, those acknowledged for which \<open>onAck\<close> is due, and those with an expiry; the last
  two were acknowledged.
\<close>

definition located :: "Worker \<Rightarrow> bytes list" where
  "located w = fetching w @ queued w @ awaiting w"

definition placed :: "Worker \<Rightarrow> bool" where
  "placed w \<longleftrightarrow> distinct (located w) \<and> set (located w) \<inter> expiring w = {} \<and> known_hashes w = set (located w) \<union> expiring w"

definition wk_inv :: "nat \<Rightarrow> Worker \<Rightarrow> bool" where
  "wk_inv n w \<longleftrightarrow>
    sk_inv (cr_sink (wk_crawl w)) \<and> (cr_pc (wk_crawl w) \<noteq> Ended \<longrightarrow> \<not> terminated (cr_sink (wk_crawl w)))
    \<and> length (infoHashExpiry (cr_cache (wk_crawl w))) \<le> n
    \<and> expiring w \<union> set (awaiting w) \<subseteq> acknowledged w
    \<and> (\<not> terminated (cr_sink (wk_crawl w)) \<longrightarrow> placed w)"

lemma background_drain:
  assumes "background e" and "sk_step ms e = Some ms'"
  shows "\<exists>x. sk_delivered ms' = sk_delivered ms @ x \<and> drain ms' = drain ms @ x"
  using assms
  by (cases e) (auto simp: background_def download_check_def download_acquire_def set_phase_def onPeers_def
      flush_begin_def flush_send_def onLeechError_def forget_def Let_def split: if_splits option.splits list.splits)

lemma background_in_sink:
  assumes "background e" and "sk_inv ms" and "\<not> terminated ms"
  obtains new where "sk_discarded (sk_run_step ms e) = sk_discarded ms @ new"
    and "mset (in_sink ms) = mset (in_sink (sk_run_step ms e)) + mset new"
proof -
  obtain new where new: "sk_discarded (sk_run_step ms e) = sk_discarded ms @ new"
    "mset (places ms) = mset (places (sk_run_step ms e)) + mset new"
    using background_run [OF assms(1,2)] assms(3) by blast
  obtain x where "sk_delivered (sk_run_step ms e) = sk_delivered ms @ x" "drain (sk_run_step ms e) = drain ms @ x"
  proof (cases "sk_step ms e")
    case None
    then show thesis using that [of "[]"] by (simp add: sk_run_step_def)
  next
    case (Some ms')
    then show thesis using background_drain [OF assms(1) Some] that by (auto simp: sk_run_step_def)
  qed
  with new(2) have "mset (in_sink ms) = mset (in_sink (sk_run_step ms e)) + mset new"
    by (simp add: in_sink_def places_def ac_simps)
  with new(1) show thesis by (rule that)
qed

lemma Sink_in_sink:
  "if fst (Sink_Sink res ms) then mset (in_sink (snd (Sink_Sink res ms))) = add_mset (ir_infoHash res) (mset (in_sink ms))
   else snd (Sink_Sink res ms) = ms"
  by (auto simp: Sink_Sink_def Let_def in_sink_def split: list.splits)

lemma AddPeers_in_sink [simp]: "in_sink (snd (AddPeers res ms)) = in_sink ms"
  by (auto simp: AddPeers_def in_sink_def Let_def)

lemma Remove_keys: "fst ` set (infoHashExpiry (InfoHashCacheRemove h c)) = fst ` set (infoHashExpiry c) - {h}"
  by (auto simp: InfoHashCacheRemove_def AList.delete_eq image_iff)

lemma Remove_length: "length (infoHashExpiry (InfoHashCacheRemove h c)) \<le> length (infoHashExpiry c)"
  by (simp add: InfoHashCacheRemove_def length_AList_delete)

lemma removes_expiry:
  "fst ` set (infoHashExpiry (foldl (\<lambda>c h. InfoHashCacheRemove h c) c hs)) = fst ` set (infoHashExpiry c) - set hs"
  "length (infoHashExpiry (foldl (\<lambda>c h. InfoHashCacheRemove h c) c hs)) \<le> length (infoHashExpiry c)"
proof (induction hs arbitrary: c)
  case (Cons h hs)
  { case 1 then show ?case using Cons.IH(1) [of "InfoHashCacheRemove h c"] by (auto simp: Remove_keys) }
  { case 2 then show ?case using Cons.IH(2) [of "InfoHashCacheRemove h c"] Remove_length [of h c] by simp }
qed simp_all

section \<open>Every step keeps it\<close>

text \<open>Hashes may move between the places and be given up.\<close>

lemma placed_moves:
  assumes "placed w" and "mset (located w) = mset (located w') + mset gone"
    and "expiring w' = expiring w - set gone" and "known_hashes w' = known_hashes w - set gone"
  shows "placed w'"
proof -
  have "distinct (located w @ [])" using assms(1) by (simp add: placed_def)
  from give_up [OF this assms(2)] have "distinct (located w')" "set (located w') = set (located w) - set gone" by simp_all
  then show ?thesis using assms unfolding placed_def by auto
qed

lemma gone_located: "mset (located w) = mset (located w') + mset gone \<Longrightarrow> set gone \<subseteq> set (located w)"
  by (metis mset_append mset_eq_setD set_append Un_upper2)

lemma not_expiring: "placed w \<Longrightarrow> set gone \<subseteq> set (located w) \<Longrightarrow> expiring w - set gone = expiring w"
  unfolding placed_def by blast

lemma on_output_placed:
  assumes "placed w" and "cr_pc (wk_crawl w) = Selecting"
  shows "placed (w\<lparr>wk_crawl := on_output t res (wk_crawl w)\<rparr>)"
proof -
  define h where "h = ir_infoHash res"
  define c where "c = cr_cache (wk_crawl w)"
  define c' where "c' = snd (InfoHashCacheAdd t h c)"
  define w' where "w' = w\<lparr>wk_crawl := on_output t res (wk_crawl w)\<rparr>"
  have K: "known_hashes w = infoHashCache c" "expiring w = fst ` set (infoHashExpiry c)" by (simp_all add: c_def expiring_def)
  have ex: "expired t h c \<Longrightarrow> h \<in> expiring w"
    by (auto simp: expired_def K intro: rev_image_eqI dest!: map_of_SomeD split: option.splits)
  have fresh: "fst (InfoHashCacheAdd t h c) \<Longrightarrow> h \<notin> set (located w)"
    using assms(1) ex unfolding Add_answer placed_def K(1) by blast
  have K': "known_hashes w' = insert h (known_hashes w)" "expiring w' = (if expired t h c then expiring w - {h} else expiring w)"
    by (auto simp: w'_def on_output_def K expiring_def InfoHashCacheAdd_def Remove_keys Remove_releases Let_def simp flip: h_def c_def split: prod.split)
  have loc: "mset (located w') = (if fst (InfoHashCacheAdd t h c) then add_mset h (mset (located w)) else mset (located w))"
    using assms(2) by (auto simp: w'_def on_output_def located_def fetching_def queued_def awaiting_def simp flip: h_def c_def split: prod.split)
  show ?thesis
  proof (cases "fst (InfoHashCacheAdd t h c)")
    case True
    then have m: "mset (located w') = mset (h # located w)" using loc by simp
    then have "distinct (located w') = distinct (h # located w)" "set (located w') = set (h # located w)"
      by (rule mset_eq_imp_distinct_iff, rule mset_eq_setD)
    moreover have "\<not> expired t h c \<Longrightarrow> h \<notin> known_hashes w" using True by (auto simp: Add_answer K)
    ultimately show ?thesis
      using assms(1) fresh [OF True] K' unfolding placed_def w'_def [symmetric] by (auto split: if_splits)
  next
    case False
    then have "h \<in> known_hashes w" "\<not> expired t h c" by (auto simp: Add_answer K)
    then show ?thesis
      using loc False K' by (intro placed_moves [OF assms(1), of _ "[]"]) (auto simp flip: w'_def)
  qed
qed

lemma loop_call_placed:
  assumes "placed w" and "sk_inv (cr_sink (wk_crawl w))"
  shows "placed (w\<lparr>wk_crawl := loop_call (wk_crawl w)\<rparr>)"
proof (cases "cr_pc (wk_crawl w)")
  case (Adding res)
  then show ?thesis
    using Sink_in_sink [of res "cr_sink (wk_crawl w)"]
    by (intro placed_moves [OF assms(1), of _ "[]"])
      (auto simp: loop_call_def located_def fetching_def queued_def awaiting_def expiring_def split: prod.split if_splits)
next
  case (Merging res)
  then show ?thesis
    by (intro placed_moves [OF assms(1), of _ "[]"])
      (auto simp: loop_call_def located_def fetching_def queued_def awaiting_def expiring_def)
next
  case (Releasing h)
  then show ?thesis
    by (intro placed_moves [OF assms(1), of _ "[h]"])
      (auto simp: loop_call_def located_def fetching_def queued_def awaiting_def expiring_def Remove_keys Remove_releases)
qed (use assms in \<open>simp_all add: loop_call_def\<close>)

lemma on_download_placed:
  assumes "placed w" and "sk_inv (cr_sink (wk_crawl w))" and "\<not> terminated (cr_sink (wk_crawl w))" and "background e"
  shows "placed (w\<lparr>wk_crawl := on_download e (wk_crawl w)\<rparr>)"
proof -
  obtain new where "sk_discarded (sk_run_step (cr_sink (wk_crawl w)) e) = sk_discarded (cr_sink (wk_crawl w)) @ new"
    "mset (in_sink (cr_sink (wk_crawl w))) = mset (in_sink (sk_run_step (cr_sink (wk_crawl w)) e)) + mset new"
    by (rule background_in_sink [OF assms(4,2,3)])
  then show ?thesis
    by (intro placed_moves [OF assms(1), of _ new])
      (auto simp: on_download_def located_def fetching_def queued_def awaiting_def expiring_def removes_expiry removes_cache Let_def)
qed

lemma on_metadata_placed:
  assumes "placed w" and "cr_pc (wk_crawl w) = Selecting"
  shows "placed (on_metadata w)"
proof (cases "drain (cr_sink (wk_crawl w))")
  case Nil
  then show ?thesis using assms by (simp add: on_metadata_def drain_receive_def)
next
  case (Cons md mds)
  show ?thesis
  proof (cases rule: Enqueue_cases [of "wk_queue w" md])
    case full
    then show ?thesis using Cons assms(2)
      by (intro placed_moves [OF assms(1), of _ "[md_InfoHash md]"])
        (auto simp: on_metadata_def on_drain_def drain_receive_def located_def fetching_def in_sink_def queued_def awaiting_def expiring_def
          Remove_keys Remove_releases Let_def)
  next
    case (stored q')
    then show ?thesis using Cons assms(2)
      by (intro placed_moves [OF assms(1), of _ "[]"])
        (auto simp: on_metadata_def on_drain_def drain_receive_def located_def fetching_def in_sink_def queued_def awaiting_def expiring_def Let_def)
  qed
qed

lemma mset_map_filter_parts: "mset (map f xs) = mset (map f (filter P xs)) + mset (map f (filter (\<lambda>x. \<not> P x) xs))"
  by (induction xs) auto

lemma on_ack_placed: "placed w \<Longrightarrow> placed (on_ack ids w)"
proof (rule placed_moves [of w _ "[]"])
  show "mset (located w) = mset (located (on_ack ids w)) + mset []"
    using mset_map_filter_parts [of "\<lambda>r. md_InfoHash (rec_Metadata r)" "items (wk_queue w)" "\<lambda>r. rec_ID r \<in> set ids"]
    by (simp add: on_ack_def located_def fetching_def queued_def awaiting_def comp_def ac_simps)
qed (simp_all add: on_ack_def expiring_def)

lemma ExpireAfter_room:
  assumes "h \<in> infoHashCache c" and "length (infoHashExpiry c) < maxExpiringInfoHashes"
  shows "infoHashCache (InfoHashCacheExpireAfter t pick h ttl c) = infoHashCache c"
    and "fst ` set (infoHashExpiry (InfoHashCacheExpireAfter t pick h ttl c)) = insert h (fst ` set (infoHashExpiry c))"
    and "length (infoHashExpiry (InfoHashCacheExpireAfter t pick h ttl c)) \<le> Suc (length (infoHashExpiry c))"
proof -
  have e: "InfoHashCacheExpireAfter t pick h ttl c = c\<lparr>infoHashExpiry := AList.update h (t + ttl) (infoHashExpiry c)\<rparr>"
    using assms by (simp add: InfoHashCacheExpireAfter_def Let_def)
  have "fst ` set (AList.update h v al) = insert h (fst ` set al)" for v al by (induction al) auto
  then show "infoHashCache (InfoHashCacheExpireAfter t pick h ttl c) = infoHashCache c"
    and "fst ` set (infoHashExpiry (InfoHashCacheExpireAfter t pick h ttl c)) = insert h (fst ` set (infoHashExpiry c))"
    and "length (infoHashExpiry (InfoHashCacheExpireAfter t pick h ttl c)) \<le> Suc (length (infoHashExpiry c))"
    by (simp_all add: e length_AList_update)
qed

lemma onAck_placed:
  assumes "placed w" and "length (infoHashExpiry (cr_cache (wk_crawl w))) < maxExpiringInfoHashes" and "k < length (wk_due w)"
  shows "placed (onAck t pick k w)"
proof -
  define h where "h = md_InfoHash (wk_due w ! k)"
  define w' where "w' = onAck t pick k w"
  have due: "wk_due w = take k (wk_due w) @ wk_due w ! k # drop (Suc k) (wk_due w)" using assms(3) by (rule id_take_nth_drop)
  have "awaiting w = map md_InfoHash (take k (wk_due w)) @ h # map md_InfoHash (drop (Suc k) (wk_due w))"
    unfolding awaiting_def h_def by (subst due) simp
  then have m: "mset (located w) = mset (h # located w')"
    using assms(3) by (simp add: w'_def onAck_def located_def fetching_def queued_def awaiting_def)
  then have loc: "distinct (located w) = distinct (h # located w')" "set (located w) = set (h # located w')"
    by (rule mset_eq_imp_distinct_iff, rule mset_eq_setD)
  then have "h \<in> infoHashCache (cr_cache (wk_crawl w))" using assms(1) by (simp add: placed_def)
  note e = ExpireAfter_room [OF this assms(2), of t pick ack_ttl]
  have "known_hashes w' = known_hashes w" "expiring w' = insert h (expiring w)"
    using assms(3) e by (simp_all add: w'_def onAck_def expiring_def h_def)
  then show ?thesis using assms(1) loc unfolding placed_def w'_def [symmetric] by auto
qed

lemma Add_expiry:
  "fst ` set (infoHashExpiry (snd (InfoHashCacheAdd t h c))) \<subseteq> fst ` set (infoHashExpiry c)"
  "length (infoHashExpiry (snd (InfoHashCacheAdd t h c))) \<le> length (infoHashExpiry c)"
  using Remove_length [of h c] by (auto simp: InfoHashCacheAdd_def Remove_keys Let_def)

text \<open>What the steps do to the other parts of the invariant: expiries come only from \<open>onAck\<close>.\<close>

lemma crawl_expiry:
  assumes "\<And>t pick h ttl. e \<noteq> CrExpire t pick h ttl"
  shows "fst ` set (infoHashExpiry (cr_cache (cr_step True cr e))) \<subseteq> fst ` set (infoHashExpiry (cr_cache cr))
    \<and> length (infoHashExpiry (cr_cache (cr_step True cr e))) \<le> length (infoHashExpiry (cr_cache cr))"
proof (cases e)
  case (CrOutput t res)
  then show ?thesis using Add_expiry [of t "ir_infoHash res" "cr_cache cr"] by (simp add: on_output_def split_beta)
next
  case CrCall
  then show ?thesis
    using Remove_length by (auto simp: loop_call_def Remove_keys split: crawl_pc.split prod.split)
next
  case (CrDrain answer)
  then show ?thesis
    using Remove_length by (auto simp: on_drain_def Remove_keys Let_def split: option.split prod.split)
next
  case (CrDownload d)
  then show ?thesis using removes_expiry by (auto simp: on_download_def Let_def)
qed (use assms in \<open>auto simp: on_terminate_def split: option.split\<close>)

lemma crawl_sink:
  assumes "sk_inv (cr_sink cr)" and "cr_pc cr \<noteq> Ended \<longrightarrow> \<not> terminated (cr_sink cr)"
  shows "sk_inv (cr_sink (cr_step True cr e)) \<and> (cr_pc (cr_step True cr e) \<noteq> Ended \<longrightarrow> \<not> terminated (cr_sink (cr_step True cr e)))
    \<and> (\<not> terminated (cr_sink (cr_step True cr e)) \<longrightarrow> \<not> terminated (cr_sink cr))"
proof (cases e)
  case CrCall
  then show ?thesis
    using assms sk_event_inv [OF assms(1)] by (auto simp: loop_call_def split_beta split: crawl_pc.split)
next
  case (CrDrain answer)
  then show ?thesis
    using assms drain_receive_frame [of "cr_sink cr"] by (auto simp: on_drain_def Let_def split: option.split)
next
  case CrTerminate
  then show ?thesis
    using assms sink.step_keeps [of "cr_sink cr" SkTerminate]
    by (auto simp: on_terminate_def Sink_Terminate_def sk_run_step_def)
next
  case (CrDownload d)
  then show ?thesis using assms background_run [OF _ assms(1), of d] by (auto simp: on_download_def Let_def)
qed (use assms in \<open>auto simp: on_output_def split: prod.split\<close>)

lemma worker_begin_inv: "items q = [] \<Longrightarrow> wk_inv 0 (worker_begin q maxLeeches maxConcurrent)"
  using NewSink_inv [of maxLeeches maxConcurrent]
  by (simp add: wk_inv_def placed_def located_def fetching_def queued_def awaiting_def expiring_def worker_begin_def crawl_begin_def in_sink_def)
    (simp add: NewSink_def)

lemma crawl_step_inv:
  assumes inv: "wk_inv n w" and ne: "\<And>t pick h ttl. e \<noteq> CrExpire t pick h ttl"
    and keep: "placed w \<Longrightarrow> \<not> terminated (cr_sink (wk_crawl w)) \<Longrightarrow> \<not> terminated (cr_sink (cr_step True (wk_crawl w) e))
      \<Longrightarrow> placed (w\<lparr>wk_crawl := cr_step True (wk_crawl w) e\<rparr>)"
  shows "wk_inv n (w\<lparr>wk_crawl := cr_step True (wk_crawl w) e\<rparr>)"
proof -
  have s: "sk_inv (cr_sink (wk_crawl w))" "cr_pc (wk_crawl w) \<noteq> Ended \<longrightarrow> \<not> terminated (cr_sink (wk_crawl w))"
    using inv by (auto simp: wk_inv_def)
  note c = crawl_sink [OF s, of e] and x = crawl_expiry [OF ne, of "wk_crawl w"]
  have "expiring (w\<lparr>wk_crawl := cr_step True (wk_crawl w) e\<rparr>) \<subseteq> expiring w" using x by (simp add: expiring_def)
  moreover have "acknowledged (w\<lparr>wk_crawl := cr_step True (wk_crawl w) e\<rparr>) = acknowledged w"
    "awaiting (w\<lparr>wk_crawl := cr_step True (wk_crawl w) e\<rparr>) = awaiting w" by (simp_all add: acknowledged_def awaiting_def)
  moreover have "length (infoHashExpiry (cr_cache (cr_step True (wk_crawl w) e))) \<le> n" using x inv by (auto simp: wk_inv_def)
  moreover have "\<not> terminated (cr_sink (cr_step True (wk_crawl w) e)) \<longrightarrow> placed (w\<lparr>wk_crawl := cr_step True (wk_crawl w) e\<rparr>)"
    using keep c inv unfolding wk_inv_def by blast
  ultimately show ?thesis using c inv unfolding wk_inv_def by auto
qed

lemma wk_inv_queue_only:
  "wk_inv n w \<Longrightarrow> placed w' \<or> terminated (cr_sink (wk_crawl w)) \<Longrightarrow> wk_crawl w' = wk_crawl w \<Longrightarrow>
   set (awaiting w') \<subseteq> acknowledged w' \<Longrightarrow> acknowledged w \<subseteq> acknowledged w' \<Longrightarrow> wk_inv n w'"
  by (auto simp: wk_inv_def expiring_def)

lemma acknowledged_ack: "acknowledged (on_ack ids w) = acknowledged w \<union> md_InfoHash ` rec_Metadata ` {r \<in> set (items (wk_queue w)). rec_ID r \<in> set ids}"
  by (auto simp: acknowledged_def on_ack_def)

lemma on_metadata_inv:
  assumes inv: "wk_inv n w" and sel: "cr_pc (wk_crawl w) = Selecting"
  shows "wk_inv n (on_metadata w)"
proof (cases "drain_receive (cr_sink (wk_crawl w))")
  case None
  then show ?thesis using inv by (simp add: on_metadata_def)
next
  case (Some p)
  obtain md ms where p: "p = (md, ms)" by (rule prod.exhaust)
  obtain ok q where q: "Enqueue md (wk_queue w) = (ok, q)" by (rule prod.exhaust)
  define w1 where "w1 = w\<lparr>wk_crawl := cr_step True (wk_crawl w) (CrDrain (Some ok))\<rparr>"
  have eq: "on_metadata w = w1\<lparr>wk_queue := q\<rparr>" using sel by (simp add: on_metadata_def Some p q w1_def)
  have s: "sk_inv (cr_sink (wk_crawl w))" "cr_pc (wk_crawl w) \<noteq> Ended \<longrightarrow> \<not> terminated (cr_sink (wk_crawl w))"
    using inv by (auto simp: wk_inv_def)
  note c = crawl_sink [OF s, of "CrDrain (Some ok)"] and x = crawl_expiry [of "CrDrain (Some ok)" "wk_crawl w"]
  have "placed w" using inv sel s by (simp add: wk_inv_def)
  then have "placed (on_metadata w)" by (rule on_metadata_placed) (rule sel)
  moreover have "acked_log q = acked_log (wk_queue w)" using q by (cases rule: Enqueue_cases [of "wk_queue w" md]) auto
  then have "acknowledged (on_metadata w) = acknowledged w" by (simp add: eq w1_def acknowledged_def)
  moreover have "awaiting (on_metadata w) = awaiting w" by (simp add: eq w1_def awaiting_def)
  moreover have "expiring (on_metadata w) \<subseteq> expiring w" "length (infoHashExpiry (cr_cache (wk_crawl (on_metadata w)))) \<le> n"
    using x inv by (auto simp: eq w1_def expiring_def wk_inv_def)
  moreover have "wk_crawl (on_metadata w) = cr_step True (wk_crawl w) (CrDrain (Some ok))" by (simp add: eq w1_def)
  ultimately show ?thesis using c inv unfolding wk_inv_def by auto
qed

lemma onAck_inv:
  assumes inv: "wk_inv n w" and n: "n < maxExpiringInfoHashes"
  shows "wk_inv (Suc n) (onAck t pick k w)"
proof (cases "k < length (wk_due w)")
  case False
  then show ?thesis using inv by (auto simp: onAck_def wk_inv_def)
next
  case True
  define h where "h = md_InfoHash (wk_due w ! k)"
  have room: "length (infoHashExpiry (cr_cache (wk_crawl w))) < maxExpiringInfoHashes" using inv n by (simp add: wk_inv_def)
  have "h \<in> set (awaiting w)" using True by (simp add: h_def awaiting_def)
  then have h: "h \<in> acknowledged w" using inv by (auto simp: wk_inv_def)
  have cr: "wk_crawl (onAck t pick k w) = (wk_crawl w)\<lparr>cr_cache := InfoHashCacheExpireAfter t pick h ack_ttl (cr_cache (wk_crawl w))\<rparr>"
    using True by (simp add: onAck_def h_def)
  have "set (awaiting (onAck t pick k w)) \<subseteq> set (awaiting w)"
    using True by (auto simp: onAck_def awaiting_def dest: in_set_takeD in_set_dropD)
  moreover have "acknowledged (onAck t pick k w) = acknowledged w" using True by (simp add: onAck_def acknowledged_def)
  moreover have "expiring (onAck t pick k w) \<subseteq> insert h (expiring w)"
    "length (infoHashExpiry (cr_cache (wk_crawl (onAck t pick k w)))) \<le> Suc n"
    using ExpireAfter_room [OF _ room, of h t pick ack_ttl] inv
    by (cases "h \<in> infoHashCache (cr_cache (wk_crawl w))", auto simp: cr expiring_def wk_inv_def InfoHashCacheExpireAfter_def)
  moreover have "\<not> terminated (cr_sink (wk_crawl w)) \<longrightarrow> placed (onAck t pick k w)"
    using onAck_placed [OF _ room True] inv by (simp add: wk_inv_def)
  ultimately show ?thesis using inv h unfolding wk_inv_def cr by auto
qed

lemma wk_step_inv:
  assumes inv: "wk_inv n w" and n: "n < maxExpiringInfoHashes"
  shows "wk_inv (Suc n) (wk_step w e)"
proof -
  have more: "wk_inv n w' \<Longrightarrow> wk_inv (Suc n) w'" for w' by (auto simp: wk_inv_def)
  have run: "sk_inv (cr_sink (wk_crawl w))" using inv by (simp add: wk_inv_def)
  show ?thesis
  proof (cases e)
    case (WkOutput t res)
    have "wk_inv n (w\<lparr>wk_crawl := cr_step True (wk_crawl w) (CrOutput t res)\<rparr>)"
      by (rule crawl_step_inv [OF inv]) (auto intro: on_output_placed)
    then show ?thesis unfolding WkOutput wk_step.simps by (rule more)
  next
    case WkCall
    have "wk_inv n (w\<lparr>wk_crawl := cr_step True (wk_crawl w) CrCall\<rparr>)"
      by (rule crawl_step_inv [OF inv]) (auto intro: loop_call_placed run)
    then show ?thesis unfolding WkCall wk_step.simps by (rule more)
  next
    case WkMetadata
    then show ?thesis using on_metadata_inv [OF inv] inv by (auto intro: more)
  next
    case WkStop
    have "wk_inv n (w\<lparr>wk_crawl := cr_step True (wk_crawl w) CrStop\<rparr>)"
      by (rule crawl_step_inv [OF inv])
        (auto simp: placed_def located_def fetching_def queued_def awaiting_def expiring_def)
    then show ?thesis unfolding WkStop wk_step.simps by (rule more)
  next
    case WkTerminate
    have "wk_inv n (w\<lparr>wk_crawl := cr_step True (wk_crawl w) CrTerminate\<rparr>)"
      by (rule crawl_step_inv [OF inv]) (auto simp: on_terminate_def Sink_Terminate_def split: if_splits)
    then show ?thesis unfolding WkTerminate wk_step.simps by (rule more)
  next
    case (WkDownload d)
    have "wk_inv n (w\<lparr>wk_crawl := cr_step True (wk_crawl w) (CrDownload d)\<rparr>)"
      by (rule crawl_step_inv [OF inv]) (auto intro: on_download_placed run)
    then show ?thesis unfolding WkDownload wk_step.simps by (rule more)
  next
    case (WkAck ids)
    have "wk_inv n (on_ack ids w)"
    proof (rule wk_inv_queue_only [OF inv])
      show "placed (on_ack ids w) \<or> terminated (cr_sink (wk_crawl w))" using inv on_ack_placed by (auto simp: wk_inv_def)
      show "set (awaiting (on_ack ids w)) \<subseteq> acknowledged (on_ack ids w)"
        using inv unfolding acknowledged_ack by (auto simp: wk_inv_def awaiting_def on_ack_def)
      show "acknowledged w \<subseteq> acknowledged (on_ack ids w)" by (simp add: acknowledged_ack)
    qed (simp add: on_ack_def)
    then show ?thesis unfolding WkAck wk_step.simps by (rule more)
  next
    case (WkOnAck t pick k)
    then show ?thesis using onAck_inv [OF inv n] by simp
  qed
qed

lemma wk_run_inv: "wk_inv n w \<Longrightarrow> n + length es \<le> maxExpiringInfoHashes \<Longrightarrow> wk_inv (n + length es) (foldl wk_step w es)"
proof (induction es arbitrary: n w)
  case (Cons e es)
  then have "wk_inv (Suc n) (wk_step w e)" by (intro wk_step_inv) auto
  from Cons.IH [OF this] Cons.prems show ?case by simp
qed simp

section \<open>Property\<close>


text \<open>A hash is found, fetched, queued, acknowledged and given its expiry.\<close>

definition one_life :: "wk_event list" where
  "one_life = [WkOutput 5 one_peer, WkCall, WkDownload (SkCheck (replicate 20 1)), WkDownload (SkAcquire (replicate 20 1)),
     WkDownload (SkSuccess sample_md), WkDownload SkSend, WkMetadata, WkAck [1], WkOnAck 7 0 0]"

definition lived :: Worker where
  "lived = foldl wk_step (worker_begin (NewWorkerQueue ''w'' 10 [] None) 10 2) one_life"

lemma lived_parts:
  "terminated (cr_sink (wk_crawl lived)) = False" "fetching lived = []" "queued lived = []" "awaiting lived = []"
  "infoHashExpiry (cr_cache (wk_crawl lived)) = [(replicate 20 1, 7 + ack_ttl)]"
  by (simp_all add: lived_def one_life_def worker_begin_def crawl_begin_def empty_cache_def on_output_def loop_call_def on_download_def
      background_def InfoHashCacheAdd_def expired_def one_peer_def NewSink_def Sink_Sink_def uniqueValidPeers_def
      sk_run_step_def download_check_def download_acquire_def slots_def phase_of_def set_phase_def flush_begin_def forget_def flush_send_def
      drain_capacity_def on_metadata_def drain_receive_def on_drain_def Enqueue_def NewWorkerQueue_def loadFromCache_def sample_md_def
      on_ack_def onAck_def Ack_def InfoHashCacheExpireAfter_def maxExpiringInfoHashes_def fetching_def in_sink_def queued_def awaiting_def
      Let_def del: replicate.simps)


end
