(* ===== verification/Sql_Repository.thy ===== *)
theory Sql_Repository
  imports Repository_State
begin

text \<open>
  The repository on an SQL database, \<open>db/gorm.go\<close>. GORM and the database engines are not part of
  the repository: their calls are the fields of a record, the conditions of a query are values,
  what a condition means to the engine is an argument, and \<open>gorm_ok\<close> states what the code relies
  on. The theorems are about the table of torrents.
\<close>

section \<open>Rows and conditions\<close>

record GormTorrent =
  gt_ID :: nat
  gt_Name :: string
  gt_InfoHash :: string
  gt_Files :: string
  gt_DiscoveredOn :: int
  gt_TotalSize :: uint64
  gt_Categories :: string
  gt_Family :: int

record GormWatch =
  gw_ID :: nat
  gw_Key :: string
  gw_MatchType :: string
  gw_Content :: string

record GormBlacklist =
  gb_ID :: nat
  gb_Filter :: string
  gb_Type :: string

record GormStats =
  gs_Timestamp :: instant
  gs_TorrentCount :: nat

datatype dialect = Sqlite | Postgres | Mysql

datatype cond =
    Fulltext string
  | NameLike string
  | NameEq string
  | HashEq string
  | FilesLike string
  | DateLike string
  | SizeAtLeast uint64
  | SizeAtMost uint64
  | DateAtLeast int
  | DateAtMost int
  | FamilyIs int
  | FamilyOther

text \<open>A row of the grouped statistics query: bucket, number of torrents, and those by family.\<close>

record StatRow =
  sr_Bucket :: int
  sr_Count :: nat
  sr_IPv4Count :: nat
  sr_IPv6Count :: nat
  sr_UnknownCount :: nat

record 'db Gorm =
  g_dialect :: dialect
  g_Find :: "cond list \<Rightarrow> 'db \<Rightarrow> GormTorrent list option"
  g_FindOrdered :: "cond list \<Rightarrow> bool \<Rightarrow> int \<Rightarrow> int \<Rightarrow> 'db \<Rightarrow> GormTorrent list option"
  g_Random :: "int \<Rightarrow> 'db \<Rightarrow> GormTorrent list option"
  g_Count :: "cond list \<Rightarrow> 'db \<Rightarrow> nat option"
  g_Create :: "GormTorrent \<Rightarrow> 'db \<Rightarrow> 'db option"
  g_DeleteIds :: "nat list \<Rightarrow> 'db \<Rightarrow> 'db option"
  g_GroupStats :: "int \<Rightarrow> int \<Rightarrow> 'db \<Rightarrow> StatRow list option"
  g_GroupCategories :: "'db \<Rightarrow> (string \<times> nat) list option"
  g_Blacklist :: "'db \<Rightarrow> GormBlacklist list option"
  g_CountBlacklist :: "string \<Rightarrow> string \<Rightarrow> 'db \<Rightarrow> nat option"
  g_CreateBlacklist :: "GormBlacklist \<Rightarrow> 'db \<Rightarrow> 'db option"
  g_DeleteBlacklist :: "string \<Rightarrow> 'db \<Rightarrow> 'db option"
  g_Watches :: "'db \<Rightarrow> GormWatch list option"
  g_CreateWatch :: "GormWatch \<Rightarrow> 'db \<Rightarrow> 'db option"
  g_DeleteWatch :: "string \<Rightarrow> 'db \<Rightarrow> 'db option"
  g_CreateStats :: "GormStats \<Rightarrow> 'db \<Rightarrow> 'db option"
  g_Clear :: "'db \<Rightarrow> 'db option"
  g_holds :: "cond \<Rightarrow> GormTorrent \<Rightarrow> bool"
  files_json :: "File list \<Rightarrow> string"
  files_of :: "string \<Rightarrow> dvalue list"

section \<open>Operations\<close>

text \<open>\<open>fts\<close>: the full-text index could be created. The conditions added for a search by name.\<close>

definition applyNameSearch :: "bool \<Rightarrow> dialect \<Rightarrow> string \<Rightarrow> string \<Rightarrow> cond list" where
  "applyNameSearch fts d searchType searchInput =
    (if searchType = ''contains'' then
       (if fts then (case d of
            Mysql \<Rightarrow> [Fulltext (searchInput @ ''*'')]
          | Postgres \<Rightarrow> [Fulltext searchInput]
          | Sqlite \<Rightarrow> [Fulltext (searchInput @ ''*'')])
        else [NameLike (''%'' @ searchInput @ ''%'')])
     else if searchType = ''equals'' then [NameEq searchInput]
     else if searchType = ''startswith'' then [NameLike (searchInput @ ''%'')]
     else if searchType = ''endswith'' then [NameLike (''%'' @ searchInput)]
     else [])"

definition find_conds :: "bool \<Rightarrow> dialect \<Rightarrow> string \<Rightarrow> string \<Rightarrow> string \<Rightarrow> cond list" where
  "find_conds fts d key searchType searchInput =
    (if key = ''Name'' then applyNameSearch fts d searchType searchInput
     else if key = ''InfoHash'' then [HashEq searchInput]
     else if key = ''Files'' then [FilesLike (''%'' @ searchInput @ ''%'')]
     else [])"

definition search_conds :: "bool \<Rightarrow> dialect \<Rightarrow> string \<Rightarrow> string \<Rightarrow> string \<Rightarrow> SearchFilters \<Rightarrow> cond list" where
  "search_conds fts d key searchType searchInput filters =
    (if key = ''DiscoveredOn'' then [DateLike (''%'' @ searchInput @ ''%'')] else find_conds fts d key searchType searchInput)
    @ (if MinSize filters > 0 then [SizeAtLeast (MinSize filters)] else [])
    @ (if MaxSize filters > 0 then [SizeAtMost (MaxSize filters)] else [])
    @ (if StartDate filters > 0 then [DateAtLeast (StartDate filters)] else [])
    @ (if EndDate filters > 0 then [DateAtMost (EndDate filters)] else [])"

definition toMetaData :: "'db Gorm \<Rightarrow> Rules \<Rightarrow> GormTorrent \<Rightarrow> MetaData" where
  "toMetaData G R t =
    \<lparr>m_Name = gt_Name t, m_InfoHash = gt_InfoHash t, m_DiscoveredOn = rfc822 R (time_Unix (gt_DiscoveredOn t)),
     m_TotalSize = gt_TotalSize t, m_Files = files_of G (gt_Files t), m_Categories = split_at CHR '','' (gt_Categories t),
     m_Family = gt_Family t\<rparr>"

definition Gorm_FindBy :: "'db Gorm \<Rightarrow> Rules \<Rightarrow> bool \<Rightarrow> string \<Rightarrow> string \<Rightarrow> string \<Rightarrow> 'db \<Rightarrow> MetaData list" where
  "Gorm_FindBy G R fts key searchType searchInput db =
    map (toMetaData G R) (or_empty (g_Find G (find_conds fts (g_dialect G) key searchType searchInput) db))"

definition Gorm_Search ::
  "'db Gorm \<Rightarrow> Rules \<Rightarrow> bool \<Rightarrow> string \<Rightarrow> string \<Rightarrow> string \<Rightarrow> int \<Rightarrow> int \<Rightarrow> SearchFilters \<Rightarrow> 'db \<Rightarrow> (MetaData list \<times> nat) option" where
  "Gorm_Search G R fts key searchType searchInput lmt offset filters db =
    (let conds = search_conds fts (g_dialect G) key searchType searchInput filters
     in case g_Count G conds db of
          None \<Rightarrow> None
        | Some n \<Rightarrow>
            (case g_FindOrdered G conds False lmt offset db of
               None \<Rightarrow> None
             | Some torrents \<Rightarrow> Some (map (toMetaData G R) torrents, n)))"

definition Gorm_GetLatest :: "'db Gorm \<Rightarrow> Rules \<Rightarrow> int \<Rightarrow> int \<Rightarrow> 'db \<Rightarrow> (MetaData list \<times> nat) option" where
  "Gorm_GetLatest G R lmt offset db =
    (case g_Count G [] db of
       None \<Rightarrow> None
     | Some n \<Rightarrow>
         (case g_FindOrdered G [] False lmt offset db of
            None \<Rightarrow> None
          | Some torrents \<Rightarrow> Some (map (toMetaData G R) torrents, n)))"

definition Gorm_GetNRandomEntries :: "'db Gorm \<Rightarrow> Rules \<Rightarrow> int \<Rightarrow> 'db \<Rightarrow> MetaData list" where
  "Gorm_GetNRandomEntries G R n db = map (toMetaData G R) (or_empty (g_Random G n db))"

definition count_or_0 :: "nat option \<Rightarrow> nat" where
  "count_or_0 r = (case r of None \<Rightarrow> 0 | Some n \<Rightarrow> n)"

definition Gorm_GetInfoHashCount :: "'db Gorm \<Rightarrow> 'db \<Rightarrow> nat" where
  "Gorm_GetInfoHashCount G db = count_or_0 (g_Count G [] db)"

definition Gorm_GetFamilyCounts :: "'db Gorm \<Rightarrow> 'db \<Rightarrow> nat \<times> nat \<times> nat" where
  "Gorm_GetFamilyCounts G db =
    (count_or_0 (g_Count G [FamilyIs 4] db), count_or_0 (g_Count G [FamilyIs 6] db), count_or_0 (g_Count G [FamilyOther] db))"

definition gorm_black_match :: "Rules \<Rightarrow> Metadata \<Rightarrow> GormBlacklist \<Rightarrow> bool" where
  "gorm_black_match R md e =
    (case regex R (gb_Filter e) of
       None \<Rightarrow> False
     | Some re \<Rightarrow>
         if gb_Type e = ''0'' then re (md_Name md)
         else if gb_Type e = ''1'' then IsFileBlacklisted md re
         else False)"

definition Gorm_IsBlacklisted :: "'db Gorm \<Rightarrow> Rules \<Rightarrow> Metadata \<Rightarrow> 'db \<Rightarrow> bool" where
  "Gorm_IsBlacklisted G R md db = list_ex (gorm_black_match R md) (or_empty (g_Blacklist G db))"

text \<open>\<open>AddToBlacklist\<close> ignores the errors of the database and always answers \<open>true\<close>.\<close>

definition gorm_add_filter :: "'db Gorm \<Rightarrow> string \<Rightarrow> string \<Rightarrow> 'db \<Rightarrow> 'db" where
  "gorm_add_filter G entryType f db =
    (if count_or_0 (g_CountBlacklist G f entryType db) = 0
     then or_same db (g_CreateBlacklist G \<lparr>gb_ID = 0, gb_Filter = f, gb_Type = entryType\<rparr> db)
     else db)"

definition Gorm_AddToBlacklist :: "'db Gorm \<Rightarrow> string list \<Rightarrow> string \<Rightarrow> 'db \<Rightarrow> bool \<times> 'db" where
  "Gorm_AddToBlacklist G filters entryType db = (True, fold (gorm_add_filter G entryType) filters db)"

text \<open>The identifier given to the two deletions goes to GORM as an inline condition.\<close>

definition Gorm_DeleteBlacklistItem :: "'db Gorm \<Rightarrow> string \<Rightarrow> 'db \<Rightarrow> 'db option" where
  "Gorm_DeleteBlacklistItem G ident db = g_DeleteBlacklist G ident db"

definition Gorm_GetBlacklistEntries :: "'db Gorm \<Rightarrow> 'db \<Rightarrow> BlacklistEntry list" where
  "Gorm_GetBlacklistEntries G db =
    map (\<lambda>e. \<lparr>be_Id = show_nat (gb_ID e), be_Filter = gb_Filter e, be_Type = GetBlacklistTypeFromStrInt (gb_Type e)\<rparr>) (or_empty (g_Blacklist G db))"

definition Gorm_GetWatchEntries :: "'db Gorm \<Rightarrow> 'db \<Rightarrow> WatchEntry list" where
  "Gorm_GetWatchEntries G db =
    map (\<lambda>e. \<lparr>we_Id = show_nat (gw_ID e), we_Key = gw_Key e, we_MatchType = gw_MatchType e, we_Content = gw_Content e\<rparr>) (or_empty (g_Watches G db))"

definition Gorm_InsertWatchEntry :: "'db Gorm \<Rightarrow> string \<Rightarrow> string \<Rightarrow> string \<Rightarrow> 'db \<Rightarrow> bool \<times> 'db" where
  "Gorm_InsertWatchEntry G key searchType searchInput db =
    (case g_CreateWatch G \<lparr>gw_ID = 0, gw_Key = key, gw_MatchType = searchType, gw_Content = searchInput\<rparr> db of
       None \<Rightarrow> (False, db)
     | Some db' \<Rightarrow> (True, db'))"

definition Gorm_DeleteWatchEntry :: "'db Gorm \<Rightarrow> string \<Rightarrow> 'db \<Rightarrow> 'db option" where
  "Gorm_DeleteWatchEntry G ident db = g_DeleteWatch G ident db"

definition Gorm_InsertStats :: "'db Gorm \<Rightarrow> Stats \<Rightarrow> 'db \<Rightarrow> 'db option" where
  "Gorm_InsertStats G stats db = g_CreateStats G \<lparr>gs_Timestamp = Timestamp stats, gs_TorrentCount = TorrentCount stats\<rparr> db"

definition Gorm_prune :: "'db Gorm \<Rightarrow> RepoConfig \<Rightarrow> 'db \<Rightarrow> 'db" where
  "Gorm_prune G cfg db =
    (if rc_MaxSavedTorrents cfg \<le> 0 then db
     else case g_Count G [] db of
       None \<Rightarrow> db
     | Some cnt \<Rightarrow>
         if int cnt \<le> rc_MaxSavedTorrents cfg then db
         else case g_FindOrdered G [] True (int cnt - rc_MaxSavedTorrents cfg) 0 db of
           None \<Rightarrow> db
         | Some oldest \<Rightarrow>
             if length oldest = 0 then db else or_same db (g_DeleteIds G (map gt_ID oldest) db))"

text \<open>\<open>strings.Join\<close> with a comma.\<close>

fun join_comma :: "string list \<Rightarrow> string" where
  "join_comma [] = ''''"
| "join_comma [x] = x"
| "join_comma (x # xs) = x @ CHR '','' # join_comma xs"

definition gorm_torrent :: "'db Gorm \<Rightarrow> Rules \<Rightarrow> Metadata \<Rightarrow> GormTorrent" where
  "gorm_torrent G R md =
    \<lparr>gt_ID = 0, gt_Name = md_Name md, gt_InfoHash = hex_EncodeToString (md_InfoHash md), gt_Files = files_json G (md_Files md),
     gt_DiscoveredOn = md_DiscoveredOn md, gt_TotalSize = md_TotalSize md, gt_Categories = join_comma (Categorize R md),
     gt_Family = md_Family md\<rparr>"

definition Gorm_InsertMetadata :: "'db Gorm \<Rightarrow> Rules \<Rightarrow> RepoConfig \<Rightarrow> Metadata \<Rightarrow> 'db \<Rightarrow> bool \<times> 'db" where
  "Gorm_InsertMetadata G R cfg md db =
    (if rc_OnlyChineseContent cfg \<and> \<not> ContainsChineseContent R md then (False, db)
     else if rc_EnableBlacklist cfg \<and> Gorm_IsBlacklisted G R md db then (False, db)
     else case g_Create G (gorm_torrent G R md) db of
       None \<Rightarrow> (False, db)
     | Some db' \<Rightarrow> (True, Gorm_prune G cfg db'))"

definition Gorm_GetAllInfoHashes :: "'db Gorm \<Rightarrow> 'db \<Rightarrow> string list option" where
  "Gorm_GetAllInfoHashes G db = map_option (map gt_InfoHash) (g_Find G [] db)"

definition zero_row :: StatRow where
  "zero_row = \<lparr>sr_Bucket = 0, sr_Count = 0, sr_IPv4Count = 0, sr_IPv6Count = 0, sr_UnknownCount = 0\<rparr>"

definition Gorm_GetStatsByInterval :: "'db Gorm \<Rightarrow> string \<Rightarrow> int \<Rightarrow> instant \<Rightarrow> 'db \<Rightarrow> Stats list outcome" where
  "Gorm_GetStatsByInterval G interval lmt t db =
    (let d = GetIntervalDuration interval;
         seconds = d div Second;
         t0 = Truncate t d;
         since = Unix (t0 + intervals_back lmt d)
     in case g_GroupStats G seconds since db of
          None \<Rightarrow> Fails
        | Some results \<Rightarrow>
            let bucketMap = foldl (\<lambda>m res. m(sr_Bucket res \<mapsto> res)) Map.empty results
            in if lmt < 0 then Panics
               else Returns (map (\<lambda>i. let ts = t0 + intervals_back (int i) d;
                                          b = entry zero_row bucketMap (Unix ts)
                                      in \<lparr>Timestamp = ts, TorrentCount = sr_Count b, IPv4Count = sr_IPv4Count b,
                                          IPv6Count = sr_IPv6Count b, UnknownCount = sr_UnknownCount b\<rparr>) [0..<nat lmt]))"

definition Gorm_GetCategoryDistribution :: "'db Gorm \<Rightarrow> 'db \<Rightarrow> (string \<rightharpoonup> nat) option" where
  "Gorm_GetCategoryDistribution G db =
    (case g_GroupCategories G db of
       None \<Rightarrow> None
     | Some results \<Rightarrow>
         Some (tally 0 fst (\<lambda>(c, n) k. k + n)
           (concat (map (\<lambda>(category, n). map (\<lambda>cat. (if cat = '''' then ''unknown'' else cat, n)) (split_at CHR '','' category)) results))))"

definition Gorm_ClearCapturedData :: "'db Gorm \<Rightarrow> 'db \<Rightarrow> bool \<times> 'db" where
  "Gorm_ClearCapturedData G db = (case g_Clear G db of None \<Rightarrow> (False, db) | Some db' \<Rightarrow> (True, db'))"

section \<open>Opening\<close>

definition dialect_of :: "string \<Rightarrow> dialect option" where
  "dialect_of dbType =
    (let t = ToLower dbType
     in if t = ''sqlite'' then Some Sqlite
        else if t = ''postgres'' \<or> t = ''postgresql'' then Some Postgres
        else if t = ''mysql'' then Some Mysql
        else None)"

text \<open>The statements of \<open>initFTS\<close>: how many rows or indexes it counts, creating the index or the
  virtual table, adding the triggers, filling the table.\<close>

record 'db FtsCalls =
  fts_count :: "'db \<Rightarrow> nat"
  fts_create :: "'db \<Rightarrow> 'db option"
  fts_triggers :: "'db \<Rightarrow> 'db"
  fts_fill :: "'db \<Rightarrow> 'db"

definition initFTS :: "'db FtsCalls \<Rightarrow> dialect \<Rightarrow> 'db \<Rightarrow> bool \<times> 'db" where
  "initFTS F d db =
    (case d of
       Mysql \<Rightarrow>
         (if fts_count F db = 0
          then (case fts_create F db of None \<Rightarrow> (False, db) | Some db' \<Rightarrow> (True, db'))
          else (True, db))
     | Postgres \<Rightarrow> (case fts_create F db of None \<Rightarrow> (False, db) | Some db' \<Rightarrow> (True, db'))
     | Sqlite \<Rightarrow>
         (case fts_create F db of
            None \<Rightarrow> (False, db)
          | Some db' \<Rightarrow>
              let db2 = fts_triggers F db'
              in (True, if fts_count F db2 = 0 then fts_fill F db2 else db2)))"

text \<open>\<open>open_db\<close> is \<open>gorm.Open\<close> and \<open>migrate\<close> is \<open>AutoMigrate\<close>; the result is the database with whether
  searches may use the full-text index.\<close>

definition NewGormRepository ::
  "(dialect \<Rightarrow> string \<Rightarrow> 'db option) \<Rightarrow> ('db \<Rightarrow> 'db option) \<Rightarrow> 'db FtsCalls \<Rightarrow> string \<Rightarrow> string \<Rightarrow> (bool \<times> 'db) option" where
  "NewGormRepository open_db migrate F dbType dbUrl =
    (case dialect_of dbType of
       None \<Rightarrow> None
     | Some d \<Rightarrow>
         (case open_db d dbUrl of
            None \<Rightarrow> None
          | Some db \<Rightarrow> map_option (initFTS F d) (migrate db)))"

section \<open>What the code relies on\<close>

text \<open>
  \<open>rows db\<close> are the torrents by identifier. A query that succeeds gives the rows on which all its
  conditions hold, once each; the comparisons with numbers and the equality of hashes mean what
  they say (what matching and \<open>LIKE\<close> mean is the engine's); a row is created under a fresh
  identifier, and not when its hash is there already; the statistics query groups by bucket.
\<close>

definition as_pairs :: "GormTorrent list \<Rightarrow> (nat \<times> GormTorrent) list" where
  "as_pairs ts = map (\<lambda>t. (gt_ID t, t)) ts"

definition meets :: "'db Gorm \<Rightarrow> cond list \<Rightarrow> GormTorrent \<Rightarrow> bool" where
  "meets G conds r = list_all (\<lambda>c. g_holds G c r) conds"

definition stat_row :: "(nat \<rightharpoonup> GormTorrent) \<Rightarrow> int \<Rightarrow> int \<Rightarrow> int \<Rightarrow> StatRow" where
  "stat_row m seconds since b =
    (let hit = (\<lambda>r. since \<le> gt_DiscoveredOn r \<and> go_div (gt_DiscoveredOn r) seconds * seconds = b)
     in \<lparr>sr_Bucket = b, sr_Count = number_of m hit,
         sr_IPv4Count = number_of m (\<lambda>r. hit r \<and> gt_Family r = 4),
         sr_IPv6Count = number_of m (\<lambda>r. hit r \<and> gt_Family r = 6),
         sr_UnknownCount = number_of m (\<lambda>r. hit r \<and> gt_Family r \<noteq> 4 \<and> gt_Family r \<noteq> 6)\<rparr>)"

definition rows_ok :: "(nat \<rightharpoonup> GormTorrent) \<Rightarrow> bool" where
  "rows_ok m \<longleftrightarrow> (\<forall>i r. m i = Some r \<longrightarrow> gt_ID r = i) \<and> finite (dom m)"

definition count_ok :: "'db Gorm \<Rightarrow> (nat \<rightharpoonup> GormTorrent) \<Rightarrow> 'db \<Rightarrow> bool" where
  "count_ok G m db \<longleftrightarrow> (\<forall>conds n. g_Count G conds db = Some n \<longrightarrow> n = number_of m (meets G conds))"

definition pages_ok :: "'db Gorm \<Rightarrow> (nat \<rightharpoonup> GormTorrent) \<Rightarrow> 'db \<Rightarrow> bool" where
  "pages_ok G m db \<longleftrightarrow> (\<forall>conds asc. \<exists>ys. listing (selected m (meets G conds)) (as_pairs ys) \<and> ordered gt_DiscoveredOn asc (as_pairs ys)
     \<and> (\<forall>l s xs. 0 \<le> l \<longrightarrow> 0 \<le> s \<longrightarrow> g_FindOrdered G conds asc l s db = Some xs \<longrightarrow> xs = take (nat l) (drop (nat s) ys)))"

definition stats_ok :: "'db Gorm \<Rightarrow> (nat \<rightharpoonup> GormTorrent) \<Rightarrow> 'db \<Rightarrow> bool" where
  "stats_ok G m db \<longleftrightarrow> (\<forall>s since results. g_GroupStats G s since db = Some results \<longrightarrow>
     distinct (map sr_Bucket results)
     \<and> set results = stat_row m s since ` {go_div (gt_DiscoveredOn r) s * s | i r. m i = Some r \<and> since \<le> gt_DiscoveredOn r})"

definition create_ok :: "'db Gorm \<Rightarrow> ('db \<Rightarrow> bool) \<Rightarrow> ('db \<Rightarrow> nat \<rightharpoonup> GormTorrent) \<Rightarrow> 'db \<Rightarrow> bool" where
  "create_ok G valid rows db \<longleftrightarrow> (\<forall>t.
     (g_Create G t db = None \<longleftrightarrow> (\<exists>i r. rows db i = Some r \<and> gt_InfoHash r = gt_InfoHash t))
     \<and> (\<forall>db'. g_Create G t db = Some db' \<longrightarrow>
           valid db' \<and> (\<exists>i. rows db i = None \<and> rows db' = (rows db)(i \<mapsto> t\<lparr>gt_ID := i\<rparr>))))"

definition delete_ok :: "'db Gorm \<Rightarrow> ('db \<Rightarrow> bool) \<Rightarrow> ('db \<Rightarrow> nat \<rightharpoonup> GormTorrent) \<Rightarrow> 'db \<Rightarrow> bool" where
  "delete_ok G valid rows db \<longleftrightarrow> (\<forall>ids db'. g_DeleteIds G ids db = Some db' \<longrightarrow>
     valid db' \<and> rows db' = (\<lambda>i. if i \<in> set ids then None else rows db i))"

definition holds_ok :: "'db Gorm \<Rightarrow> bool" where
  "holds_ok G \<longleftrightarrow> (\<forall>r x n k.
     g_holds G (HashEq x) r = (gt_InfoHash r = x) \<and> g_holds G (NameEq x) r = (gt_Name r = x)
   \<and> g_holds G (SizeAtLeast n) r = (n \<le> gt_TotalSize r) \<and> g_holds G (SizeAtMost n) r = (gt_TotalSize r \<le> n)
   \<and> g_holds G (DateAtLeast k) r = (k \<le> gt_DiscoveredOn r) \<and> g_holds G (DateAtMost k) r = (gt_DiscoveredOn r \<le> k)
   \<and> g_holds G (FamilyIs k) r = (gt_Family r = k) \<and> g_holds G FamilyOther r = (gt_Family r \<noteq> 4 \<and> gt_Family r \<noteq> 6))"

definition gorm_ok :: "'db Gorm \<Rightarrow> ('db \<Rightarrow> bool) \<Rightarrow> ('db \<Rightarrow> nat \<rightharpoonup> GormTorrent) \<Rightarrow> bool" where
  "gorm_ok G valid rows \<longleftrightarrow> holds_ok G \<and> (\<forall>db. valid db \<longrightarrow>
     rows_ok (rows db) \<and> count_ok G (rows db) db \<and> pages_ok G (rows db) db \<and> stats_ok G (rows db) db
   \<and> create_ok G valid rows db \<and> delete_ok G valid rows db)"

text \<open>No query fails.\<close>

definition gorm_works :: "'db Gorm \<Rightarrow> bool" where
  "gorm_works G \<longleftrightarrow> (\<forall>conds asc l s ids sec since db. g_Count G conds db \<noteq> None \<and> g_FindOrdered G conds asc l s db \<noteq> None
     \<and> g_DeleteIds G ids db \<noteq> None \<and> g_GroupStats G sec since db \<noteq> None)"

lemma gorm_okD:
  assumes "gorm_ok G valid rows" and "valid db"
  shows "rows_ok (rows db)" "count_ok G (rows db) db" "pages_ok G (rows db) db" "stats_ok G (rows db) db"
    "create_ok G valid rows db" "delete_ok G valid rows db"
  using assms unfolding gorm_ok_def by simp_all

lemma gorm_rows:
  assumes "gorm_ok G valid rows" and "valid db"
  shows "rows db i = Some r \<Longrightarrow> gt_ID r = i" and "finite (dom (rows db))"
    and "g_Count G conds db = Some n \<Longrightarrow> n = number_of (rows db) (meets G conds)"
    and "g_Create G t db = None \<longleftrightarrow> (\<exists>i r. rows db i = Some r \<and> gt_InfoHash r = gt_InfoHash t)"
  using gorm_okD(1) [OF assms] gorm_okD(2) [OF assms] gorm_okD(5) [OF assms]
  by (simp_all add: rows_ok_def count_ok_def create_ok_def)

lemma gorm_create:
  assumes "gorm_ok G valid rows" and "valid db" and "g_Create G t db = Some db'"
  obtains i where "valid db'" and "rows db i = None" and "rows db' = (rows db)(i \<mapsto> t\<lparr>gt_ID := i\<rparr>)"
  using gorm_okD(5) [OF assms(1,2)] assms(3) unfolding create_ok_def by blast

lemma gorm_delete:
  assumes "gorm_ok G valid rows" and "valid db" and "g_DeleteIds G ids db = Some db'"
  shows "valid db'" and "rows db' = (\<lambda>i. if i \<in> set ids then None else rows db i)"
  using gorm_okD(6) [OF assms(1,2)] assms(3) by (simp_all add: delete_ok_def)

lemma gorm_stats:
  assumes "gorm_ok G valid rows" and "valid db" and "g_GroupStats G s since db = Some results"
  shows "distinct (map sr_Bucket results)"
    and "set results = stat_row (rows db) s since ` {go_div (gt_DiscoveredOn r) s * s | i r. rows db i = Some r \<and> since \<le> gt_DiscoveredOn r}"
  using gorm_okD(4) [OF assms(1,2)] assms(3) unfolding stats_ok_def by blast+

lemma gorm_pages:
  assumes "gorm_ok G valid rows" and "valid db"
  obtains ys where "listing (selected (rows db) (meets G conds)) (as_pairs ys)" and "ordered gt_DiscoveredOn asc (as_pairs ys)"
    and "\<And>l s xs. 0 \<le> l \<Longrightarrow> 0 \<le> s \<Longrightarrow> g_FindOrdered G conds asc l s db = Some xs \<Longrightarrow> xs = take (nat l) (drop (nat s) ys)"
  using gorm_okD(3) [OF assms] unfolding pages_ok_def by blast

lemma gorm_worksD:
  assumes "gorm_works G"
  shows "\<exists>n. g_Count G conds db = Some n" "\<exists>xs. g_FindOrdered G conds asc l s db = Some xs"
    "\<exists>db'. g_DeleteIds G ids db = Some db'" "\<exists>rs. g_GroupStats G sec since db = Some rs"
  using assms unfolding gorm_works_def by (blast, blast, blast, blast)

lemma meets_Nil [simp]: "meets G [] = (\<lambda>_. True)"
  by (simp add: meets_def fun_eq_iff)

lemma as_pairs_simps [simp]: "length (as_pairs ys) = length ys" "map fst (as_pairs ys) = map gt_ID ys" "map snd (as_pairs ys) = ys"
  "take n (as_pairs ys) = as_pairs (take n ys)"
  by (simp_all add: as_pairs_def comp_def take_map)

section \<open>Storing and pruning\<close>

lemma gorm_prune_rows:
  assumes ok: "gorm_ok G valid rows" "gorm_works G" and v: "valid db" and cap: "0 < rc_MaxSavedTorrents cfg"
  shows "valid (Gorm_prune G cfg db)
    \<and> pruned_to gt_DiscoveredOn (nat (rc_MaxSavedTorrents cfg)) (rows db) (rows (Gorm_prune G cfg db))"
proof -
  obtain n where c: "g_Count G [] db = Some n" using gorm_worksD(1) [OF ok(2)] by blast
  then have n: "n = card (dom (rows db))" using gorm_rows(3) [OF ok(1) v c] by (simp add: number_of_all)
  show ?thesis
  proof (cases "int n \<le> rc_MaxSavedTorrents cfg")
    case True
    then have "Gorm_prune G cfg db = db" by (simp add: Gorm_prune_def c)
    then show ?thesis using True n v by (auto intro: pruned_to_same)
  next
    case False
    define k where "k = n - nat (rc_MaxSavedTorrents cfg)"
    have ik: "int n - rc_MaxSavedTorrents cfg = int k" "0 < k" using False cap by (simp_all add: k_def)
    obtain ys where ys: "listing (rows db) (as_pairs ys)" "ordered gt_DiscoveredOn True (as_pairs ys)"
      "\<And>l s xs. 0 \<le> l \<Longrightarrow> 0 \<le> s \<Longrightarrow> g_FindOrdered G [] True l s db = Some xs \<Longrightarrow> xs = take (nat l) (drop (nat s) ys)"
      using gorm_pages [OF ok(1) v, where conds = "[]" and asc = True] by auto
    obtain xs where xs: "g_FindOrdered G [] True (int k) 0 db = Some xs" using gorm_worksD(2) [OF ok(2)] by blast
    then have take: "xs = take k ys" using ys(3) [OF _ _ xs] by simp
    have len: "length ys = n" using listing_card [OF ys(1)] n by simp
    have "0 < n" using False cap by simp
    then have ne: "take k ys \<noteq> []" using len ik(2) by (cases ys) auto
    obtain db' where db': "g_DeleteIds G (map gt_ID (take k ys)) db = Some db'" using gorm_worksD(3) [OF ok(2)] by blast
    have eq: "Gorm_prune G cfg db = db'"
      using False c xs cap ne db' ik(2) by (auto simp: Gorm_prune_def ik(1) take or_same_def min_def)
    note w = gorm_delete [OF ok(1) v db']
    have "pruned_to gt_DiscoveredOn (nat (rc_MaxSavedTorrents cfg)) (rows db) (rows db')"
      using False len w by (intro oldest_out [OF ys(1,2), where k = k]) (auto simp: k_def simp flip: take_map)
    then show ?thesis using w eq by simp
  qed
qed

lemma insert_outcome:
  assumes "Gorm_InsertMetadata G R cfg md db = (accepted, db')"
  shows "(accepted \<longleftrightarrow> (rc_OnlyChineseContent cfg \<longrightarrow> ContainsChineseContent R md)
      \<and> (rc_EnableBlacklist cfg \<longrightarrow> \<not> Gorm_IsBlacklisted G R md db) \<and> \<not> g_Create G (gorm_torrent G R md) db = None)
      \<and> (\<not> accepted \<longrightarrow> db' = db)
      \<and> (accepted \<longrightarrow> (\<exists>db1. g_Create G (gorm_torrent G R md) db = Some db1 \<and> db' = Gorm_prune G cfg db1))"
proof (cases "(rc_OnlyChineseContent cfg \<and> \<not> ContainsChineseContent R md) \<or> (rc_EnableBlacklist cfg \<and> Gorm_IsBlacklisted G R md db)")
  case True
  then have "Gorm_InsertMetadata G R cfg md db = (False, db)" by (auto simp: Gorm_InsertMetadata_def)
  then show ?thesis using assms True by auto
next
  case False
  then have "Gorm_InsertMetadata G R cfg md db =
      (case g_Create G (gorm_torrent G R md) db of None \<Rightarrow> (False, db) | Some db' \<Rightarrow> (True, Gorm_prune G cfg db'))"
    by (auto simp: Gorm_InsertMetadata_def)
  then show ?thesis using assms False by (cases "g_Create G (gorm_torrent G R md) db") auto
qed

text \<open>Storing a torrent in an SQL database: a torrent is refused exactly when a filter rejects it
  or its hash is already stored, and nothing changes then; otherwise it is added and, with a
  limit set, the oldest torrents go until the limit holds. So no hash is stored twice here, a
  check the other back end leaves to the cache of known hashes.\<close>
theorem sql_insert_prunes:
  assumes "gorm_ok G valid rows" and "gorm_works G" and "valid db" and "0 < rc_MaxSavedTorrents cfg"
    and "Gorm_InsertMetadata G R cfg md db = (accepted, db')"
  shows "(accepted \<longleftrightarrow> (rc_OnlyChineseContent cfg \<longrightarrow> ContainsChineseContent R md)
          \<and> (rc_EnableBlacklist cfg \<longrightarrow> \<not> Gorm_IsBlacklisted G R md db)
          \<and> \<not> (\<exists>i r. rows db i = Some r \<and> gt_InfoHash r = hex_EncodeToString (md_InfoHash md)))
    \<and> (\<not> accepted \<longrightarrow> db' = db)
    \<and> (accepted \<longrightarrow> valid db' \<and> (\<exists>i. rows db i = None \<and> pruned_to gt_DiscoveredOn (nat (rc_MaxSavedTorrents cfg))
          ((rows db)(i \<mapsto> (gorm_torrent G R md)\<lparr>gt_ID := i\<rparr>)) (rows db')))"
proof -
  have new: "g_Create G (gorm_torrent G R md) db = None \<longleftrightarrow>
      (\<exists>i r. rows db i = Some r \<and> gt_InfoHash r = hex_EncodeToString (md_InfoHash md))"
    using gorm_rows(4) [OF assms(1,3)] by (simp add: gorm_torrent_def)
  have "valid db' \<and> (\<exists>i. rows db i = None \<and> pruned_to gt_DiscoveredOn (nat (rc_MaxSavedTorrents cfg))
          ((rows db)(i \<mapsto> (gorm_torrent G R md)\<lparr>gt_ID := i\<rparr>)) (rows db'))" if acc: accepted
  proof -
    obtain db1 where db1: "g_Create G (gorm_torrent G R md) db = Some db1" "db' = Gorm_prune G cfg db1"
      using insert_outcome [OF assms(5)] acc by blast
    obtain i where "valid db1" "rows db i = None" "rows db1 = (rows db)(i \<mapsto> (gorm_torrent G R md)\<lparr>gt_ID := i\<rparr>)"
      using gorm_create [OF assms(1,3) db1(1)] by blast
    then show ?thesis using gorm_prune_rows [OF assms(1,2) _ assms(4), of db1] db1(2) by auto
  qed
  then show ?thesis using insert_outcome [OF assms(5)] unfolding new by blast
qed

section \<open>Searching\<close>

text \<open>The rows a search's size and date filters let through.\<close>

definition within_filters :: "SearchFilters \<Rightarrow> GormTorrent \<Rightarrow> bool" where
  "within_filters filters r \<longleftrightarrow>
     (MinSize filters > 0 \<longrightarrow> MinSize filters \<le> gt_TotalSize r) \<and> (MaxSize filters > 0 \<longrightarrow> gt_TotalSize r \<le> MaxSize filters)
   \<and> (StartDate filters > 0 \<longrightarrow> StartDate filters \<le> gt_DiscoveredOn r) \<and> (EndDate filters > 0 \<longrightarrow> gt_DiscoveredOn r \<le> EndDate filters)"

lemma meets_search:
  assumes "holds_ok G"
  shows "meets G (search_conds fts d key searchType searchInput filters) r \<longleftrightarrow>
    meets G (if key = ''DiscoveredOn'' then [DateLike (''%'' @ searchInput @ ''%'')] else find_conds fts d key searchType searchInput) r
    \<and> within_filters filters r"
  using assms unfolding holds_ok_def meets_def search_conds_def within_filters_def by simp

lemma search_page:
  assumes "gorm_ok G valid rows" and "gorm_works G" and "valid db" and "0 \<le> lmt" and "0 \<le> offset"
  obtains ys where
    "listing (selected (rows db) (meets G (search_conds fts (g_dialect G) key searchType searchInput filters))) (as_pairs ys)"
    and "ordered gt_DiscoveredOn False (as_pairs ys)"
    and "Gorm_Search G R fts key searchType searchInput lmt offset filters db =
      Some (map (toMetaData G R) (take (nat lmt) (drop (nat offset) ys)), length ys)"
proof -
  let ?conds = "search_conds fts (g_dialect G) key searchType searchInput filters"
  obtain ys where ys: "listing (selected (rows db) (meets G ?conds)) (as_pairs ys)" "ordered gt_DiscoveredOn False (as_pairs ys)"
    "\<And>l s xs. 0 \<le> l \<Longrightarrow> 0 \<le> s \<Longrightarrow> g_FindOrdered G ?conds False l s db = Some xs \<Longrightarrow> xs = take (nat l) (drop (nat s) ys)"
    using gorm_pages [OF assms(1,3), where conds = ?conds and asc = False] by blast
  obtain n where n: "g_Count G ?conds db = Some n" using gorm_worksD(1) [OF assms(2)] by blast
  obtain xs where xs: "g_FindOrdered G ?conds False lmt offset db = Some xs" using gorm_worksD(2) [OF assms(2)] by blast
  have "n = length ys"
    using gorm_rows(3) [OF assms(1,3) n] listing_card [OF ys(1)] by (simp add: number_of_def dom_def selected_Some)
  then show thesis using ys(3) [OF assms(4,5) xs] n xs by (intro that [OF ys(1,2)]) (simp add: Gorm_Search_def Let_def)
qed

text \<open>C37. A search over every field on an SQL database: for a key other than the four the query knows,
  and the search page's preselected \<open>All\<close> is such a key, neither the text nor the way to match it
  reaches the query. The answer is a page, newest first, of all torrents within the size and
  date filters, with their number as the total.\<close>
theorem sql_search_ignores_text:
  assumes "gorm_ok G valid rows" and "gorm_works G" and "valid db" and "0 \<le> lmt" and "0 \<le> offset"
    and "key \<notin> {''Name'', ''InfoHash'', ''Files'', ''DiscoveredOn''}"
  shows "\<exists>ys. listing (selected (rows db) (within_filters filters)) (as_pairs ys) \<and> ordered gt_DiscoveredOn False (as_pairs ys)
    \<and> Gorm_Search G R fts key searchType searchInput lmt offset filters db =
        Some (map (toMetaData G R) (take (nat lmt) (drop (nat offset) ys)), length ys)"
proof -
  have "holds_ok G" using assms(1) by (simp add: gorm_ok_def)
  then have m: "meets G (search_conds fts (g_dialect G) key searchType searchInput filters) = within_filters filters"
    using assms(6) by (intro ext) (simp add: meets_search find_conds_def)
  show ?thesis by (rule search_page [OF assms(1-5), of fts key searchType searchInput filters R, unfolded m]) blast
qed

section \<open>Statistics\<close>

lemma bucketMap_map_of:
  "foldl (\<lambda>m res. m(sr_Bucket res \<mapsto> res)) m rs = m ++ map_of (rev (map (\<lambda>r. (sr_Bucket r, r)) rs))"
  by (induction rs arbitrary: m) (simp_all add: map_add_upd_left map_add_assoc)

lemma number_of_none: "(\<And>i d. m i = Some d \<Longrightarrow> \<not> p d) \<Longrightarrow> number_of m p = 0"
proof -
  assume "\<And>i d. m i = Some d \<Longrightarrow> \<not> p d"
  then have "{i. \<exists>d. m i = Some d \<and> p d} = {}" by blast
  then show "number_of m p = 0" unfolding number_of_def by (simp only: card.empty)
qed

lemma number_of_upd:
  assumes "finite (dom m)" and "m i = None"
  shows "number_of (m(i \<mapsto> d)) p = number_of m p + (if p d then 1 else 0)"
proof -
  have "{j. \<exists>e. (m(i \<mapsto> d)) j = Some e \<and> p e} = {j. \<exists>e. m j = Some e \<and> p e} \<union> (if p d then {i} else {})"
    using assms(2) by auto
  moreover have "finite {j. \<exists>e. m j = Some e \<and> p e}" by (rule finite_subset [OF _ assms(1)]) auto
  moreover have "i \<notin> {j. \<exists>e. m j = Some e \<and> p e}" using assms(2) by simp
  ultimately show ?thesis by (simp add: number_of_def)
qed

text \<open>What the map of buckets holds for a bucket: the row of that bucket, or the zero row, whose counts
  are then the right ones too.\<close>

lemma bucket_row:
  assumes d: "distinct (map sr_Bucket rs)"
    and rs: "set rs = stat_row m s since ` {go_div (gt_DiscoveredOn r) s * s | i r. m i = Some r \<and> since \<le> gt_DiscoveredOn r}"
  shows "(entry zero_row (foldl (\<lambda>m res. m(sr_Bucket res \<mapsto> res)) Map.empty rs) b)\<lparr>sr_Bucket := b\<rparr> = stat_row m s since b"
proof (cases "b \<in> {go_div (gt_DiscoveredOn r) s * s | i r. m i = Some r \<and> since \<le> gt_DiscoveredOn r}")
  case True
  then have "stat_row m s since b \<in> set rs" unfolding rs by (rule imageI)
  then have "map_of (rev (map (\<lambda>r. (sr_Bucket r, r)) rs)) b = Some (stat_row m s since b)"
    using d by (intro map_of_is_SomeI) (auto simp: comp_def stat_row_def Let_def image_iff simp flip: rev_map intro!: bexI)
  then show ?thesis by (simp add: entry_def bucketMap_map_of) (simp add: stat_row_def Let_def)
next
  case False
  then have none: "\<not> (since \<le> gt_DiscoveredOn r \<and> go_div (gt_DiscoveredOn r) s * s = b)" if "m i = Some r" for i r
    using that by blast
  have "sr_Bucket r \<noteq> b" if "r \<in> set rs" for r
    using that False unfolding rs by (auto simp: stat_row_def Let_def)
  then have "map_of (rev (map (\<lambda>r. (sr_Bucket r, r)) rs)) b = None" by (force simp: map_of_eq_None_iff)
  moreover have "number_of m (\<lambda>r. (since \<le> gt_DiscoveredOn r \<and> go_div (gt_DiscoveredOn r) s * s = b) \<and> p r) = 0" for p
    using none by (intro number_of_none) blast
  from this [of "\<lambda>_. True"] this
  have "stat_row m s since b = \<lparr>sr_Bucket = b, sr_Count = 0, sr_IPv4Count = 0, sr_IPv6Count = 0, sr_UnknownCount = 0\<rparr>"
    by (simp add: stat_row_def Let_def)
  ultimately show ?thesis by (simp add: entry_def bucketMap_map_of zero_row_def)
qed

lemma stat_row_between:
  assumes s: "d = s * Second" "0 < s" "s dvd 86400" "d dvd a" and since: "0 \<le> since" "since \<le> Unix a"
  shows "(let b = stat_row m s since (Unix a)
    in \<lparr>Timestamp = a, TorrentCount = sr_Count b, IPv4Count = sr_IPv4Count b, IPv6Count = sr_IPv6Count b, UnknownCount = sr_UnknownCount b\<rparr>)
    = stats_between gt_DiscoveredOn gt_Family m a (a + d)"
proof -
  obtain k where k: "Unix a = k * s" "Unix (a + d) = k * s + s" using aligned_Unix [OF s] by blast
  have iff: "(since \<le> gt_DiscoveredOn r \<and> go_div (gt_DiscoveredOn r) s * s = Unix a) \<longleftrightarrow> (Unix a \<le> gt_DiscoveredOn r \<and> gt_DiscoveredOn r < Unix (a + d))" for r
  proof (cases "0 \<le> gt_DiscoveredOn r")
    case True
    from bucket_iff [OF s(2) True] show ?thesis using since(2) by (auto simp: k)
  next
    case False
    then show ?thesis using since by auto
  qed
  show ?thesis unfolding stat_row_def stats_between_def Let_def iff by simp
qed

lemma sql_stats_direct:
  assumes "gorm_ok G valid rows" and "gorm_works G" and "valid db"
    and "d = GetIntervalDuration interval" and "0 \<le> n" and "n * d < 2 ^ 63" and "unix_epoch \<le> Truncate t d - n * d"
  shows "Gorm_GetStatsByInterval G interval n t db =
    Returns (map (\<lambda>i. stats_between gt_DiscoveredOn gt_Family (rows db) (Truncate t d - int i * d) (Truncate t d - int i * d + d)) [0..<nat n])"
proof -
  have d: "0 < d" using interval_positive assms(4) by simp
  obtain s where s: "d = s * Second" "0 < s" "s dvd 86400" using interval_seconds assms(4) by metis
  have sec: "d div Second = s" by (simp add: s(1) Second_def)
  define since where "since = Unix (Truncate t d - n * d)"
  have ib: "intervals_back i d = - (i * d)" if "0 \<le> i" "i \<le> n" for i
    using that d assms(6) by (intro intervals_back_id) (auto intro: order_le_less_trans [OF mult_right_mono])
  have "0 \<le> since" using Unix_mono [OF assms(7)] by (simp add: since_def Unix_def)
  obtain rs where rs: "g_GroupStats G s since db = Some rs" using gorm_worksD(4) [OF assms(2)] by blast
  define bm where "bm = foldl (\<lambda>m res. m(sr_Bucket res \<mapsto> res)) Map.empty rs"
  define conv where "conv = (\<lambda>ts (b :: StatRow). \<lparr>Timestamp = ts, TorrentCount = sr_Count b, IPv4Count = sr_IPv4Count b, IPv6Count = sr_IPv6Count b, UnknownCount = sr_UnknownCount b\<rparr>)"
  have entries: "conv a (entry zero_row bm (Unix a)) = stats_between gt_DiscoveredOn gt_Family (rows db) a (a + d)"
    if a: "a = Truncate t d - int i * d" "int i < n" for a i
  proof -
    have "d dvd a" using d by (simp add: a(1) Truncate_def)
    moreover have "int i * d \<le> n * d" using a(2) d by (intro mult_right_mono) auto
    then have "since \<le> Unix a" unfolding since_def a(1) by (intro Unix_mono) simp
    moreover have "conv a (entry zero_row bm (Unix a)) = conv a ((entry zero_row bm (Unix a))\<lparr>sr_Bucket := Unix a\<rparr>)" by (simp add: conv_def)
    ultimately show ?thesis
      using stat_row_between [OF s _ \<open>0 \<le> since\<close>] unfolding bm_def bucket_row [OF gorm_stats [OF assms(1,3) rs]] by (simp add: conv_def Let_def)
  qed
  have "Gorm_GetStatsByInterval G interval n t db =
      Returns (map (\<lambda>i. let ts = Truncate t d + intervals_back (int i) d in conv ts (entry zero_row bm (Unix ts))) [0..<nat n])"
    using rs assms(5) ib [of n] by (simp add: Gorm_GetStatsByInterval_def Let_def since_def sec bm_def conv_def flip: assms(4))
  also have "\<dots> = Returns (map (\<lambda>i. stats_between gt_DiscoveredOn gt_Family (rows db) (Truncate t d - int i * d) (Truncate t d - int i * d + d)) [0..<nat n])"
    unfolding Let_def using entries ib by (intro arg_cong [of _ _ Returns] map_cong) auto
  finally show ?thesis .
qed

section \<open>The two back ends\<close>

text \<open>Two tables hold alike torrents: as many of each discovery time and address family.\<close>

definition alike :: "('i \<rightharpoonup> Doc) \<Rightarrow> ('j \<rightharpoonup> GormTorrent) \<Rightarrow> bool" where
  "alike m1 m2 \<longleftrightarrow> (\<forall>p. number_of m1 (\<lambda>d. p (discovered_on d) (doc_family d)) = number_of m2 (\<lambda>r. p (gt_DiscoveredOn r) (gt_Family r)))"

lemma alike_stats: "alike m1 m2 \<Longrightarrow> stats_between discovered_on doc_family m1 a b = stats_between gt_DiscoveredOn gt_Family m2 a b"
proof -
  assume al: "alike m1 m2"
  note n = al [unfolded alike_def, rule_format]
  show ?thesis
    using n [of "\<lambda>t f. Unix a \<le> t \<and> t < Unix b"] n [of "\<lambda>t f. (Unix a \<le> t \<and> t < Unix b) \<and> f = 4"]
      n [of "\<lambda>t f. (Unix a \<le> t \<and> t < Unix b) \<and> f = 6"] n [of "\<lambda>t f. (Unix a \<le> t \<and> t < Unix b) \<and> f \<noteq> 4 \<and> f \<noteq> 6"]
    by (simp add: stats_between_def)
qed

lemma alike_upd:
  assumes "alike m1 m2" and "finite (dom m1)" "m1 i = None" "finite (dom m2)" "m2 j = None"
    and "discovered_on d = gt_DiscoveredOn r" "doc_family d = gt_Family r"
  shows "alike (m1(i \<mapsto> d)) (m2(j \<mapsto> r))"
  using assms(1,6,7) unfolding alike_def
  by (simp add: number_of_upd [OF assms(2,3)] number_of_upd [OF assms(4,5)])

text \<open>Both repositories after storing the same torrents one after the other.\<close>

definition clover_store :: "'db Clover \<Rightarrow> Rules \<Rightarrow> RepoConfig \<Rightarrow> Metadata list \<Rightarrow> 'db \<Rightarrow> 'db" where
  "clover_store C R cfg mds db = fold (\<lambda>md db. snd (InsertMetadata C R cfg md db)) mds db"

definition gorm_store :: "'db Gorm \<Rightarrow> Rules \<Rightarrow> RepoConfig \<Rightarrow> Metadata list \<Rightarrow> 'db \<Rightarrow> 'db" where
  "gorm_store G R cfg mds db = fold (\<lambda>md db. snd (Gorm_InsertMetadata G R cfg md db)) mds db"

definition sql_hashes :: "('i \<rightharpoonup> GormTorrent) \<Rightarrow> string set" where
  "sql_hashes m = {gt_InfoHash r | i r. m i = Some r}"

lemma store_alike:
  assumes C: "clover_ok C valid rows" "never_fails C rows" and G: "gorm_ok G valid' rows'"
    and cfg: "rc_MaxSavedTorrents cfg \<le> 0" "\<not> rc_EnableBlacklist cfg"
    and new: "md_InfoHash md \<notin> H" and H: "sql_hashes (rows' db') \<subseteq> hex_EncodeToString ` H"
    and db: "valid db" "finite (dom (rows TorrentTable db))" "dated (rows TorrentTable db)" "valid' db'"
    and al: "alike (rows TorrentTable db) (rows' db')"
    and res: "db1 = snd (InsertMetadata C R cfg md db)" "db1' = snd (Gorm_InsertMetadata G R cfg md db')"
  shows "valid db1 \<and> finite (dom (rows TorrentTable db1)) \<and> dated (rows TorrentTable db1) \<and> valid' db1'
    \<and> alike (rows TorrentTable db1) (rows' db1') \<and> sql_hashes (rows' db1') \<subseteq> hex_EncodeToString ` insert (md_InfoHash md) H"
proof (cases "rc_OnlyChineseContent cfg \<and> \<not> ContainsChineseContent R md")
  case True
  then have "db1 = db" "db1' = db'" using res by (simp_all add: InsertMetadata_def Gorm_InsertMetadata_def)
  then show ?thesis using db al H by auto
next
  case False
  have "g_Create G (gorm_torrent G R md) db' \<noteq> None"
  proof
    assume "g_Create G (gorm_torrent G R md) db' = None"
    then have "hex_EncodeToString (md_InfoHash md) \<in> sql_hashes (rows' db')"
      unfolding gorm_rows(4) [OF G db(4)] by (force simp: sql_hashes_def gorm_torrent_def)
    then have "hex_EncodeToString (md_InfoHash md) \<in> hex_EncodeToString ` H" using H by (rule rev_subsetD)
    then show False using new by (simp add: image_iff hex_inj)
  qed
  then obtain e' where e': "g_Create G (gorm_torrent G R md) db' = Some e'" by blast
  obtain e where e: "InsertOne C TorrentTable (torrent_doc C R md) db = Some e" using never_failsD(4) [OF C(2)] by blast
  have eq: "db1 = e" "db1' = e'"
    unfolding res using False cfg(2) by (auto simp: InsertMetadata_def Gorm_InsertMetadata_def e e' pruneOldTorrents_def Gorm_prune_def cfg(1))
  obtain i where i: "valid e" "rows TorrentTable db i = None" "rows TorrentTable e = (rows TorrentTable db)(i \<mapsto> torrent_doc C R md)"
    using InsertOne_adds [OF C(1) db(1) e] by blast
  obtain j where j: "valid' e'" "rows' db' j = None" "rows' e' = (rows' db')(j \<mapsto> (gorm_torrent G R md)\<lparr>gt_ID := j\<rparr>)"
    using gorm_create [OF G db(4) e'] by blast
  have "alike (rows TorrentTable e) (rows' e')"
    unfolding i(3) j(3) by (rule alike_upd [OF al db(2) i(2) gorm_rows(2) [OF G db(4)] j(2)])
      (simp_all add: torrent_doc_def gorm_torrent_def discovered_on_def doc_int_def doc_family_def numericInt_def)
  moreover have "dated (rows TorrentTable e)" using db(3) by (auto simp: i(3) dated_def torrent_doc_def)
  moreover have "sql_hashes (rows' e') \<subseteq> insert (hex_EncodeToString (md_InfoHash md)) (sql_hashes (rows' db'))"
    by (auto simp: sql_hashes_def j(3) gorm_torrent_def split: if_splits)
  ultimately show ?thesis using i j db(2) H by (auto simp: eq)
qed

lemma stores_alike:
  assumes "clover_ok C valid rows" "never_fails C rows" "gorm_ok G valid' rows'"
    and "rc_MaxSavedTorrents cfg \<le> 0" "\<not> rc_EnableBlacklist cfg"
    and "distinct (map md_InfoHash mds)" and "set (map md_InfoHash mds) \<inter> H = {}" and "sql_hashes (rows' db') \<subseteq> hex_EncodeToString ` H"
    and "valid db" "finite (dom (rows TorrentTable db))" "dated (rows TorrentTable db)" "valid' db'"
    and "alike (rows TorrentTable db) (rows' db')"
  shows "valid (clover_store C R cfg mds db) \<and> dated (rows TorrentTable (clover_store C R cfg mds db)) \<and> valid' (gorm_store G R cfg mds db')
    \<and> alike (rows TorrentTable (clover_store C R cfg mds db)) (rows' (gorm_store G R cfg mds db'))"
  using assms(6-)
proof (induction mds arbitrary: db db' H)
  case Nil
  then show ?case by (simp add: clover_store_def gorm_store_def)
next
  case (Cons md mds)
  have "md_InfoHash md \<notin> H" using Cons.prems(2) by simp
  note step = store_alike [OF assms(1-5) this Cons.prems(3-8) refl refl, of R]
  then have "valid (clover_store C R cfg mds (snd (InsertMetadata C R cfg md db))) \<and> dated (rows TorrentTable (clover_store C R cfg mds (snd (InsertMetadata C R cfg md db))))
     \<and> valid' (gorm_store G R cfg mds (snd (Gorm_InsertMetadata G R cfg md db')))
     \<and> alike (rows TorrentTable (clover_store C R cfg mds (snd (InsertMetadata C R cfg md db)))) (rows' (gorm_store G R cfg mds (snd (Gorm_InsertMetadata G R cfg md db'))))"
    using Cons.prems(1,2) by (intro Cons.IH [where H = "insert (md_InfoHash md) H"]) auto
  then show ?case by (simp add: clover_store_def gorm_store_def)
qed


section \<open>A database that satisfies the assumptions\<close>

text \<open>The table of torrents as a list of rows; conditions the engine gives a meaning to hold on every
  row here.\<close>

fun plain_holds :: "cond \<Rightarrow> GormTorrent \<Rightarrow> bool" where
  "plain_holds (HashEq x) r = (gt_InfoHash r = x)"
| "plain_holds (NameEq x) r = (gt_Name r = x)"
| "plain_holds (SizeAtLeast n) r = (n \<le> gt_TotalSize r)"
| "plain_holds (SizeAtMost n) r = (gt_TotalSize r \<le> n)"
| "plain_holds (DateAtLeast k) r = (k \<le> gt_DiscoveredOn r)"
| "plain_holds (DateAtMost k) r = (gt_DiscoveredOn r \<le> k)"
| "plain_holds (FamilyIs k) r = (gt_Family r = k)"
| "plain_holds FamilyOther r = (gt_Family r \<noteq> 4 \<and> gt_Family r \<noteq> 6)"
| "plain_holds _ r = True"

definition list_rows :: "GormTorrent list \<Rightarrow> nat \<rightharpoonup> GormTorrent" where
  "list_rows db = map_of (as_pairs db)"

definition list_matching :: "cond list \<Rightarrow> GormTorrent list \<Rightarrow> GormTorrent list" where
  "list_matching conds db = filter (\<lambda>r. list_all (\<lambda>c. plain_holds c r) conds) db"

definition next_id :: "GormTorrent list \<Rightarrow> nat" where
  "next_id db = Suc (sum_list (map gt_ID db))"

definition list_gorm :: "GormTorrent list Gorm" where
  "list_gorm =
    \<lparr>g_dialect = Sqlite,
     g_Find = (\<lambda>conds db. Some (list_matching conds db)),
     g_FindOrdered = (\<lambda>conds asc l s db. Some (take (nat l) (drop (nat s)
       (sort_key (\<lambda>r. if asc then gt_DiscoveredOn r else - gt_DiscoveredOn r) (list_matching conds db))))),
     g_Random = (\<lambda>n db. Some (take (nat n) db)),
     g_Count = (\<lambda>conds db. Some (length (list_matching conds db))),
     g_Create = (\<lambda>t db. if gt_InfoHash t \<in> set (map gt_InfoHash db) then None else Some (db @ [t\<lparr>gt_ID := next_id db\<rparr>])),
     g_DeleteIds = (\<lambda>ids db. Some (filter (\<lambda>r. gt_ID r \<notin> set ids) db)),
     g_GroupStats = (\<lambda>s since db. Some (map (stat_row (list_rows db) s since)
       (remdups (map (\<lambda>r. go_div (gt_DiscoveredOn r) s * s) (filter (\<lambda>r. since \<le> gt_DiscoveredOn r) db))))),
     g_GroupCategories = (\<lambda>db. Some (map (\<lambda>c. (c, length (filter (\<lambda>r. gt_Categories r = c) db))) (remdups (map gt_Categories db)))),
     g_Blacklist = (\<lambda>db. Some []),
     g_CountBlacklist = (\<lambda>f ty db. Some 0),
     g_CreateBlacklist = (\<lambda>e db. None),
     g_DeleteBlacklist = (\<lambda>i db. None),
     g_Watches = (\<lambda>db. Some []),
     g_CreateWatch = (\<lambda>e db. None),
     g_DeleteWatch = (\<lambda>i db. None),
     g_CreateStats = (\<lambda>e db. None),
     g_Clear = (\<lambda>db. Some []),
     g_holds = plain_holds,
     files_json = (\<lambda>_. ''[]''),
     files_of = (\<lambda>_. [])\<rparr>"

lemma list_gorm_fields:
  "g_holds list_gorm = plain_holds"
  "g_FindOrdered list_gorm conds asc l s db = Some (take (nat l) (drop (nat s)
     (sort_key (\<lambda>r. if asc then gt_DiscoveredOn r else - gt_DiscoveredOn r) (list_matching conds db))))"
  "g_Count list_gorm conds db = Some (length (list_matching conds db))"
  "g_Create list_gorm t db = (if gt_InfoHash t \<in> gt_InfoHash ` set db then None else Some (db @ [t\<lparr>gt_ID := next_id db\<rparr>]))"
  "g_DeleteIds list_gorm ids db = Some (filter (\<lambda>r. gt_ID r \<notin> set ids) db)"
  "g_GroupStats list_gorm s since db = Some (map (stat_row (list_rows db) s since)
     (remdups (map (\<lambda>r. go_div (gt_DiscoveredOn r) s * s) (filter (\<lambda>r. since \<le> gt_DiscoveredOn r) db))))"
  by (simp_all add: list_gorm_def)

definition list_ids :: "GormTorrent list \<Rightarrow> bool" where
  "list_ids db \<longleftrightarrow> distinct (map gt_ID db)"

lemma next_id_new: "next_id db \<notin> gt_ID ` set db"
proof -
  have "i \<le> sum_list (map gt_ID db)" if "i \<in> gt_ID ` set db" for i
    using that member_le_sum_list [of i "map gt_ID db"] by simp
  then show ?thesis unfolding next_id_def using not_less_eq_eq by blast
qed

lemma list_rows_Some: "list_ids db \<Longrightarrow> list_rows db i = Some r \<longleftrightarrow> r \<in> set db \<and> gt_ID r = i"
  by (auto simp: list_rows_def list_ids_def as_pairs_def map_of_eq_Some_iff comp_def)

lemma list_rows_None: "list_rows db i = None \<longleftrightarrow> i \<notin> gt_ID ` set db"
  by (auto simp: list_rows_def map_of_eq_None_iff as_pairs_def image_image)

lemma list_rows_listing: "list_ids db \<Longrightarrow> listing (selected (list_rows db) p) (as_pairs (filter p db))"
  using list_selected [of "as_pairs db" p] by (simp add: list_rows_def list_ids_def as_pairs_def filter_map comp_def)

lemma list_matching_meets: "list_matching conds db = filter (meets list_gorm conds) db"
  unfolding meets_def list_matching_def list_gorm_fields ..

lemma as_pairs_sort: "as_pairs (sort_key f xs) = sort_key (\<lambda>p. f (snd p)) (as_pairs xs)"
proof -
  have ins: "as_pairs (insort_key f x xs) = insort_key (\<lambda>p. f (snd p)) (gt_ID x, x) (as_pairs xs)" for x xs
    by (induction xs) (simp_all add: as_pairs_def)
  have nil: "as_pairs [] = []" and cons: "as_pairs (x # xs) = (gt_ID x, x) # as_pairs xs" for x xs by (simp_all add: as_pairs_def)
  show ?thesis by (induction xs) (simp_all only: sort_key_simps ins nil cons)
qed

lemma list_pages_ok: "list_ids db \<Longrightarrow> pages_ok list_gorm (list_rows db) db"
proof -
  assume v: "list_ids db"
  have "\<exists>ys. listing (selected (list_rows db) (meets list_gorm conds)) (as_pairs ys) \<and> ordered gt_DiscoveredOn asc (as_pairs ys)
    \<and> (\<forall>l s xs. 0 \<le> l \<longrightarrow> 0 \<le> s \<longrightarrow> g_FindOrdered list_gorm conds asc l s db = Some xs \<longrightarrow> xs = take (nat l) (drop (nat s) ys))" for conds asc
  proof (intro exI conjI)
    let ?ys = "sort_key (\<lambda>r. if asc then gt_DiscoveredOn r else - gt_DiscoveredOn r) (list_matching conds db)"
    show "listing (selected (list_rows db) (meets list_gorm conds)) (as_pairs ?ys)"
      unfolding as_pairs_sort list_matching_meets by (intro listing_sort list_rows_listing v)
    show "ordered gt_DiscoveredOn asc (as_pairs ?ys)" unfolding as_pairs_sort by (rule ordered_sort_by)
    show "\<forall>l s xs. 0 \<le> l \<longrightarrow> 0 \<le> s \<longrightarrow> g_FindOrdered list_gorm conds asc l s db = Some xs \<longrightarrow> xs = take (nat l) (drop (nat s) ?ys)"
      by (simp add: list_gorm_fields)
  qed
  then show ?thesis unfolding pages_ok_def by blast
qed

lemma list_stats_ok: "list_ids db \<Longrightarrow> stats_ok list_gorm (list_rows db) db"
proof -
  assume v: "list_ids db"
  have "{go_div (gt_DiscoveredOn r) s * s | i r. list_rows db i = Some r \<and> since \<le> gt_DiscoveredOn r}
      = (\<lambda>r. go_div (gt_DiscoveredOn r) s * s) ` {r \<in> set db. since \<le> gt_DiscoveredOn r}" for s since
    using list_rows_Some [OF v] by auto
  moreover have "sr_Bucket \<circ> stat_row m s since = (\<lambda>b. b)" for m s since by (rule ext) (simp add: stat_row_def Let_def)
  ultimately show ?thesis by (simp add: stats_ok_def list_gorm_fields)
qed

lemma list_gorm_ok: "gorm_ok list_gorm list_ids list_rows"
  unfolding gorm_ok_def
proof (intro conjI allI impI)
  show "holds_ok list_gorm" by (simp add: holds_ok_def list_gorm_fields)
next
  fix db assume v: "list_ids db"
  show "rows_ok (list_rows db)" by (simp add: rows_ok_def list_rows_Some [OF v]) (simp add: list_rows_def finite_dom_map_of)
  show "count_ok list_gorm (list_rows db) db"
    using listing_filter [OF list_rows_listing [OF v, of "\<lambda>_. True"]] by (simp add: count_ok_def list_gorm_fields list_matching_meets)
  show "pages_ok list_gorm (list_rows db) db" by (rule list_pages_ok [OF v])
  show "stats_ok list_gorm (list_rows db) db" by (rule list_stats_ok [OF v])
  show "create_ok list_gorm list_ids list_rows db"
    unfolding create_ok_def
  proof (intro allI conjI impI)
    fix t
    show "g_Create list_gorm t db = None \<longleftrightarrow> (\<exists>i r. list_rows db i = Some r \<and> gt_InfoHash r = gt_InfoHash t)"
    proof -
      have "(\<exists>i r. list_rows db i = Some r \<and> gt_InfoHash r = gt_InfoHash t) \<longleftrightarrow> (\<exists>r \<in> set db. gt_InfoHash t = gt_InfoHash r)"
        unfolding list_rows_Some [OF v] by metis
      then show ?thesis by (simp add: list_gorm_fields image_iff)
    qed
    fix db' assume "g_Create list_gorm t db = Some db'"
    then have db': "db' = db @ [t\<lparr>gt_ID := next_id db\<rparr>]" by (simp add: list_gorm_fields split: if_splits)
    show "list_ids db'" using v next_id_new [of db] by (simp add: db' list_ids_def)
    show "\<exists>i. list_rows db i = None \<and> list_rows db' = (list_rows db)(i \<mapsto> t\<lparr>gt_ID := i\<rparr>)"
      using list_rows_None [THEN iffD2, OF next_id_new [of db]]
      by (intro exI [of _ "next_id db"]) (simp add: db' list_rows_def as_pairs_def map_of_snoc del: map_of_append)
  qed
  show "delete_ok list_gorm list_ids list_rows db"
    unfolding delete_ok_def list_gorm_fields
  proof (intro allI impI conjI)
    fix ids db' assume "Some (filter (\<lambda>r. gt_ID r \<notin> set ids) db) = Some db'"
    then have db': "db' = filter (\<lambda>r. gt_ID r \<notin> set ids) db" by simp
    show v': "list_ids db'" using v by (simp add: db' list_ids_def distinct_map_filter)
    show "list_rows db' = (\<lambda>i. if i \<in> set ids then None else list_rows db i)"
    proof
      fix i
      show "list_rows db' i = (if i \<in> set ids then None else list_rows db i)"
      proof (cases "list_rows db' i")
        case None
        then have "list_rows db i = None" if "i \<notin> set ids" using that unfolding list_rows_None db' by auto
        then show ?thesis using None by simp
      next
        case (Some r)
        then have "r \<in> set db \<and> gt_ID r = i \<and> i \<notin> set ids" using list_rows_Some [OF v'] by (auto simp: db')
        then show ?thesis using Some list_rows_Some [OF v, of i r] by simp
      qed
    qed
  qed
qed

lemma list_gorm_works: "gorm_works list_gorm"
  by (simp add: gorm_works_def list_gorm_def)

section \<open>Witnesses\<close>

definition sql_sample :: "GormTorrent list" where
  "sql_sample = [(gorm_torrent list_gorm plain_rules ((named ''alpha'' 5)\<lparr>md_InfoHash := [7]\<rparr>))\<lparr>gt_ID := 3\<rparr>]"

lemma sql_sample_ids: "list_ids sql_sample"
  by (simp add: list_ids_def sql_sample_def)

theorem sql_insert_prunes_witness:
  "fst (Gorm_InsertMetadata list_gorm plain_rules sample_config (named ''gamma'' 9) sql_sample)
   \<and> (\<exists>i. list_rows sql_sample i = None \<and> pruned_to gt_DiscoveredOn 1
        ((list_rows sql_sample)(i \<mapsto> (gorm_torrent list_gorm plain_rules (named ''gamma'' 9))\<lparr>gt_ID := i\<rparr>))
        (list_rows (snd (Gorm_InsertMetadata list_gorm plain_rules sample_config (named ''gamma'' 9) sql_sample))))"
proof -
  have acc: "fst (Gorm_InsertMetadata list_gorm plain_rules sample_config (named ''gamma'' 9) sql_sample)"
    by (simp add: Gorm_InsertMetadata_def sample_config_def Gorm_IsBlacklisted_def or_empty_def list_gorm_fields(4))
       (simp add: list_gorm_def sql_sample_def gorm_torrent_def named_def hex_EncodeToString_def)
  show ?thesis
    using sql_insert_prunes [OF list_gorm_ok list_gorm_works, where db = sql_sample, OF sql_sample_ids, where cfg = sample_config and R = plain_rules
        and md = "named ''gamma'' 9", OF _ surjective_pairing] acc
    by (simp add: sample_config_def)
qed

theorem sql_search_ignores_text_witness:
  "\<exists>ys. listing (selected (list_rows sql_sample) (within_filters no_filters)) (as_pairs ys) \<and> ordered gt_DiscoveredOn False (as_pairs ys)
    \<and> Gorm_Search list_gorm plain_rules True ''All'' ''contains'' ''nothing like it'' 10 0 no_filters sql_sample =
        Some (map (toMetaData list_gorm plain_rules) (take 10 ys), length ys)"
  using sql_search_ignores_text [OF list_gorm_ok list_gorm_works, where db = sql_sample, OF sql_sample_ids, where lmt = 10 and offset = 0
      and key = "''All''" and filters = no_filters and R = plain_rules and fts = True and searchType = "''contains''" and searchInput = "''nothing like it''"]
  by simp


end
