(* ===== verification/Torrent_Store.thy ===== *)
theory Torrent_Store
  imports Repository_State "HOL-Library.Multiset"
begin

text \<open>
  What a repository promises (\<open>Repository\<close> of \<open>db/repository.go\<close>), without saying how it stores
  anything: a bag of torrents and a set of blacklist entries, the steps it may take for a
  captured torrent, for new blacklist entries and for a clearing, and what the latest torrents
  and the known hashes read. \<open>torrent_repository\<close> states it as an interface; \<open>Backends\<close> shows that both
  back ends implement it.
\<close>

section \<open>The abstract store\<close>

text \<open>
  A torrent as a page shows it, its files left out, whose form is up to the database, and the
  time of its discovery, by which torrents are ordered.
\<close>

type_synonym seen = "int \<times> MetaData"

definition plain :: "MetaData \<Rightarrow> MetaData" where
  "plain m = m\<lparr>m_Files := []\<rparr>"

definition shown :: "Rules \<Rightarrow> Metadata \<Rightarrow> seen" where
  "shown R md =
    (md_DiscoveredOn md,
     \<lparr>m_Name = md_Name md, m_InfoHash = hex_EncodeToString (md_InfoHash md),
      m_DiscoveredOn = rfc822 R (time_Unix (md_DiscoveredOn md)), m_TotalSize = md_TotalSize md, m_Files = [],
      m_Categories = Categorize R md, m_Family = md_Family md\<rparr>)"

record Store =
  st_torrents :: "seen multiset"
  st_filters :: "(string \<times> string) set"

definition empty_store :: Store where
  "empty_store = \<lparr>st_torrents = {#}, st_filters = {}\<rparr>"

definition store_hashes :: "Store \<Rightarrow> string multiset" where
  "store_hashes s = image_mset (\<lambda>a. m_InfoHash (snd a)) (st_torrents s)"

text \<open>Without a limit everything is kept; with one, as many as fit, and none older than one that goes.\<close>

definition keep_newest :: "int \<Rightarrow> seen multiset \<Rightarrow> seen multiset \<Rightarrow> bool" where
  "keep_newest cap S T \<longleftrightarrow>
    (if cap \<le> 0 then T = S
     else T \<subseteq># S \<and> size T = min (size S) (nat cap) \<and> (\<forall>a \<in># S - T. \<forall>b \<in># T. fst a \<le> fst b))"

definition filter_hits :: "Rules \<Rightarrow> Metadata \<Rightarrow> string \<times> string \<Rightarrow> bool" where
  "filter_hits R md e =
    (case regex R (fst e) of
       None \<Rightarrow> False
     | Some re \<Rightarrow>
         if snd e = ''0'' then re (md_Name md)
         else if snd e = ''1'' then IsFileBlacklisted md re
         else False)"

definition wanted :: "Rules \<Rightarrow> RepoConfig \<Rightarrow> (string \<times> string) set \<Rightarrow> Metadata \<Rightarrow> bool" where
  "wanted R cfg F md \<longleftrightarrow>
    (rc_OnlyChineseContent cfg \<longrightarrow> ContainsChineseContent R md)
    \<and> (rc_EnableBlacklist cfg \<longrightarrow> \<not> (\<exists>e \<in> F. filter_hits R md e))"

datatype store_event =
    Captured Metadata
  | Blacklisted "string list" string
  | Cleared

text \<open>
  A captured torrent may be refused when the filters reject it or when its hash is stored; it may
  be stored when the filters let it pass. A repository is free in what the rules leave open: a
  hash that is stored already, and which of two torrents discovered in the same second is
  pruned.
\<close>

inductive store_step :: "Rules \<Rightarrow> RepoConfig \<Rightarrow> Store \<Rightarrow> store_event \<Rightarrow> Store \<Rightarrow> bool" for R cfg where
  refused: "\<not> wanted R cfg (st_filters s) md \<or> hex_EncodeToString (md_InfoHash md) \<in># store_hashes s
    \<Longrightarrow> store_step R cfg s (Captured md) s"
| stored: "wanted R cfg (st_filters s) md \<Longrightarrow> keep_newest (rc_MaxSavedTorrents cfg) (add_mset (shown R md) (st_torrents s)) T
    \<Longrightarrow> store_step R cfg s (Captured md) (s\<lparr>st_torrents := T\<rparr>)"
| blacklisted: "store_step R cfg s (Blacklisted fs ty) (s\<lparr>st_filters := st_filters s \<union> (\<lambda>f. (f, ty)) ` set fs\<rparr>)"
| cleared: "store_step R cfg s Cleared (s\<lparr>st_torrents := {#}\<rparr>)"

inductive_cases capturedE: "store_step R cfg s (Captured md) s'"
inductive_cases blacklistedE: "store_step R cfg s (Blacklisted fs ty) s'"
inductive_cases clearedE: "store_step R cfg s Cleared s'"

fun store_run :: "Rules \<Rightarrow> RepoConfig \<Rightarrow> Store \<Rightarrow> store_event list \<Rightarrow> Store \<Rightarrow> bool" where
  "store_run R cfg s [] s' \<longleftrightarrow> s' = s"
| "store_run R cfg s (e # es) s' \<longleftrightarrow> (\<exists>s1. store_step R cfg s e s1 \<and> store_run R cfg s1 es s')"

definition captures :: "store_event list \<Rightarrow> Metadata list" where
  "captures es = List.map_filter (\<lambda>e. case e of Captured md \<Rightarrow> Some md | _ \<Rightarrow> None) es"

lemma captures_simps [simp]:
  "captures [] = []" "captures (Captured md # es) = md # captures es"
  "captures (Blacklisted fs ty # es) = captures es" "captures (Cleared # es) = captures es"
  by (simp_all add: captures_def List.map_filter_def)

section \<open>What follows from the steps alone\<close>

lemma keep_newest_sub: "keep_newest cap S T \<Longrightarrow> T \<subseteq># S"
  by (simp add: keep_newest_def split: if_splits)

lemma keep_newest_size: "keep_newest cap S T \<Longrightarrow> 0 < cap \<Longrightarrow> size T \<le> nat cap"
  by (simp add: keep_newest_def)

text \<open>With different times of discovery it is determined what is kept.\<close>

lemma keep_newest_unique:
  assumes "keep_newest cap S A" and "keep_newest cap S B" and inj: "inj_on fst (set_mset S)"
  shows "A = B"
proof (rule ccontr)
  assume ne: "A \<noteq> B"
  then have "\<not> cap \<le> 0" using assms(1,2) by (auto simp: keep_newest_def)
  with assms(1,2) have k: "A \<subseteq># S" "B \<subseteq># S" "size A = size B"
    "\<forall>a \<in># S - A. \<forall>b \<in># A. fst a \<le> fst b" "\<forall>a \<in># S - B. \<forall>b \<in># B. fst a \<le> fst b"
    by (simp_all add: keep_newest_def)
  have "\<not> A \<subset># B" "\<not> B \<subset># A" using k(3) mset_subset_size by fastforce+
  then have "\<not> A \<subseteq># B" "\<not> B \<subseteq># A" using ne by (auto simp: subset_mset_def)
  then obtain a b where a: "count B a < count A a" and b: "count A b < count B b"
    unfolding subseteq_mset_def by (metis not_le)
  then have "0 < count A a" "0 < count B b" by linarith+
  then have in_ab: "a \<in># A" "b \<in># B" by (simp_all only: count_greater_zero_iff)
  have "0 < count (S - B) a" "0 < count (S - A) b"
    using a b mset_subset_eq_count [OF k(1), of a] mset_subset_eq_count [OF k(2), of b] unfolding count_diff by linarith+
  then have "a \<in># S - B" "b \<in># S - A" by (simp_all only: count_greater_zero_iff)
  then have "fst a = fst b" using k(4,5) in_ab by (meson order_antisym)
  then have "a = b" using inj in_ab k(1,2) by (meson inj_onD mset_subset_eqD)
  then show False using a b by simp
qed

text \<open>
  The torrents of a store came from its captures: \<open>M\<close> are the captures so far.
\<close>

definition store_from :: "Rules \<Rightarrow> Metadata set \<Rightarrow> Store \<Rightarrow> bool" where
  "store_from R M s \<longleftrightarrow> set_mset (st_torrents s) \<subseteq> shown R ` M"

lemma store_from_step:
  assumes "store_from R M s" and "store_step R cfg s e s'"
  shows "store_from R (M \<union> set (captures [e])) s'"
  using assms(2,1)
proof (cases rule: store_step.cases)
  case (stored md T)
  then have "set_mset T \<subseteq> set_mset (add_mset (shown R md) (st_torrents s))"
    by (intro set_mset_mono keep_newest_sub)
  then show ?thesis using assms(1) stored by (auto simp: store_from_def)
qed (auto simp: store_from_def)

lemma store_run_from: "store_from R M s \<Longrightarrow> store_run R cfg s es s' \<Longrightarrow> store_from R (M \<union> set (captures es)) s'"
proof (induction es arbitrary: s M)
  case (Cons e es)
  then obtain s1 where "store_step R cfg s e s1" "store_run R cfg s1 es s'" by auto
  moreover have "set (captures (e # es)) = set (captures [e]) \<union> set (captures es)" by (cases e) simp_all
  ultimately show ?case using Cons.IH store_from_step [OF Cons.prems(1)] by (metis Un_assoc)
qed simp

lemma store_run_size:
  assumes "0 < rc_MaxSavedTorrents cfg"
  shows "size (st_torrents s) \<le> nat (rc_MaxSavedTorrents cfg) \<Longrightarrow> store_run R cfg s es s'
    \<Longrightarrow> size (st_torrents s') \<le> nat (rc_MaxSavedTorrents cfg)"
proof (induction es arbitrary: s)
  case (Cons e es)
  then obtain s1 where s1: "store_step R cfg s e s1" "store_run R cfg s1 es s'" by auto
  from s1(1) have "size (st_torrents s1) \<le> nat (rc_MaxSavedTorrents cfg)"
    using Cons.prems(1) keep_newest_size [OF _ assms] by (cases rule: store_step.cases) auto
  then show ?case using Cons.IH s1(2) by blast
qed simp

lemma shown_inj: "inj_on md_DiscoveredOn M \<Longrightarrow> inj_on fst (shown R ` M)"
  by (auto simp: inj_on_def shown_def)

text \<open>
  When no hash and no second of discovery comes twice, the rules leave nothing open.
\<close>

lemma store_step_unique:
  assumes "store_from R M s" and "store_step R cfg s e s1" and "store_step R cfg s e s2"
    and "\<And>md. e = Captured md \<Longrightarrow> md_InfoHash md \<notin> md_InfoHash ` M \<and> md_DiscoveredOn md \<notin> md_DiscoveredOn ` M"
    and "inj_on md_DiscoveredOn M"
  shows "s1 = s2"
proof (cases e)
  case (Captured md)
  have "hex_EncodeToString (md_InfoHash md) \<notin># store_hashes s"
    using assms(1,4) Captured by (force simp: store_hashes_def store_from_def shown_def hex_inj)
  moreover have "inj_on fst (set_mset (add_mset (shown R md) (st_torrents s)))"
  proof (rule inj_on_subset)
    show "inj_on fst (shown R ` insert md M)" using assms(4,5) Captured by (intro shown_inj) auto
    show "set_mset (add_mset (shown R md) (st_torrents s)) \<subseteq> shown R ` insert md M"
      using assms(1) by (auto simp: store_from_def)
  qed
  ultimately show ?thesis
    using assms(2,3) keep_newest_unique unfolding Captured by (elim capturedE) auto
next
  case (Blacklisted fs ty)
  then show ?thesis using assms(2,3) by (auto elim!: blacklistedE)
next
  case Cleared
  then show ?thesis using assms(2,3) by (auto elim!: clearedE)
qed

lemma store_run_unique:
  "store_from R M s \<Longrightarrow> store_run R cfg s es s1 \<Longrightarrow> store_run R cfg s es s2 \<Longrightarrow>
   distinct (map md_InfoHash (captures es)) \<Longrightarrow> distinct (map md_DiscoveredOn (captures es)) \<Longrightarrow>
   md_InfoHash ` set (captures es) \<inter> md_InfoHash ` M = {} \<Longrightarrow> md_DiscoveredOn ` set (captures es) \<inter> md_DiscoveredOn ` M = {} \<Longrightarrow>
   inj_on md_DiscoveredOn M \<Longrightarrow> s1 = s2"
proof (induction es arbitrary: s M)
  case (Cons e es)
  obtain t1 t2 where t: "store_step R cfg s e t1" "store_run R cfg t1 es s1" "store_step R cfg s e t2" "store_run R cfg t2 es s2"
    using Cons.prems(2,3) by auto
  have "t1 = t2"
    using Cons.prems(6,7) by (intro store_step_unique [OF Cons.prems(1) t(1,3) _ Cons.prems(8)]) auto
  moreover note from1 = store_from_step [OF Cons.prems(1) t(1)]
  moreover have "inj_on md_DiscoveredOn (M \<union> set (captures [e]))"
  proof (cases e)
    case (Captured md)
    then have "md_DiscoveredOn md \<notin> md_DiscoveredOn ` M" using Cons.prems(7) by auto
    then show ?thesis using Cons.prems(8) Captured by (auto simp: inj_on_insert)
  qed (use Cons.prems(8) in simp_all)
  moreover have "distinct (map md_InfoHash (captures es))" "distinct (map md_DiscoveredOn (captures es))"
    "md_InfoHash ` set (captures es) \<inter> md_InfoHash ` (M \<union> set (captures [e])) = {}"
    "md_DiscoveredOn ` set (captures es) \<inter> md_DiscoveredOn ` (M \<union> set (captures [e])) = {}"
    using Cons.prems(4-7) by (cases e; auto; fail)+
  ultimately show ?case using t(2,4) Cons.IH [OF from1] by simp
qed simp

section \<open>The interface\<close>

text \<open>Newest first.\<close>

definition newest_first :: "seen list \<Rightarrow> bool" where
  "newest_first ys \<longleftrightarrow> sorted_wrt (\<lambda>a b. fst b \<le> fst a) ys"

lemma newest_first_unique:
  assumes "mset xs = mset ys" and "newest_first xs" and "newest_first ys" and "inj_on fst (set xs)"
  shows "xs = ys"
proof -
  have s: "sorted (map (\<lambda>a. - fst a) zs)" if "newest_first zs" for zs :: "seen list"
    using that by (simp add: newest_first_def sorted_map)
  have inj: "inj_on (\<lambda>a. - fst a) (set xs)" using assms(4) by (simp add: inj_on_def)
  have "sort_key (\<lambda>a. - fst a) xs = ys" by (rule sort_key_inj_key_eq [OF assms(1) inj s [OF assms(3)]])
  moreover have "sort_key (\<lambda>a. - fst a) xs = xs" by (rule sort_key_inj_key_eq [OF refl inj s [OF assms(2)]])
  ultimately show ?thesis by simp
qed

definition apply_event ::
  "(Metadata \<Rightarrow> 'db \<Rightarrow> 'db) \<Rightarrow> (string list \<Rightarrow> string \<Rightarrow> 'db \<Rightarrow> 'db) \<Rightarrow> ('db \<Rightarrow> 'db) \<Rightarrow> 'db \<Rightarrow> store_event \<Rightarrow> 'db" where
  "apply_event ins add clr db e =
    (case e of Captured md \<Rightarrow> ins md db | Blacklisted fs ty \<Rightarrow> add fs ty db | Cleared \<Rightarrow> clr db)"

locale torrent_repository =
  fixes R :: Rules and cfg :: RepoConfig
    and insert_md :: "Metadata \<Rightarrow> 'db \<Rightarrow> 'db"
    and add_filters :: "string list \<Rightarrow> string \<Rightarrow> 'db \<Rightarrow> 'db"
    and clear_data :: "'db \<Rightarrow> 'db"
    and latest :: "int \<Rightarrow> int \<Rightarrow> 'db \<Rightarrow> (MetaData list \<times> nat) option"
    and all_hashes :: "'db \<Rightarrow> string list option"
    and good :: "'db \<Rightarrow> bool"
    and store :: "'db \<Rightarrow> Store"
  assumes insert_md: "good db \<Longrightarrow> good (insert_md md db) \<and> store_step R cfg (store db) (Captured md) (store (insert_md md db))"
    and add_filters: "good db \<Longrightarrow> good (add_filters fs ty db) \<and> store_step R cfg (store db) (Blacklisted fs ty) (store (add_filters fs ty db))"
    and clear_data: "good db \<Longrightarrow> good (clear_data db) \<and> store_step R cfg (store db) Cleared (store (clear_data db))"
    and latest: "good db \<Longrightarrow> \<exists>ys. mset ys = st_torrents (store db) \<and> newest_first ys
      \<and> (\<forall>l s. 0 \<le> l \<longrightarrow> 0 \<le> s \<longrightarrow> (\<exists>page. latest l s db = Some (page, length ys) \<and> map plain page = map snd (take (nat l) (drop (nat s) ys))))"
    and all_hashes: "good db \<Longrightarrow> \<exists>hs. all_hashes db = Some hs \<and> mset hs = store_hashes (store db)"
begin

lemma event_refines: "good db \<Longrightarrow> good (apply_event insert_md add_filters clear_data db e)
    \<and> store_step R cfg (store db) e (store (apply_event insert_md add_filters clear_data db e))"
  using insert_md add_filters clear_data by (cases e) (simp_all add: apply_event_def)

lemma run_refines: "good db \<Longrightarrow> good (foldl (apply_event insert_md add_filters clear_data) db es)
    \<and> store_run R cfg (store db) es (store (foldl (apply_event insert_md add_filters clear_data) db es))"
proof (induction es arbitrary: db)
  case (Cons e es)
  then show ?case using event_refines [of db e] by auto
qed simp

text \<open>A run from an empty store, with what the two reads give at its end.\<close>

lemma run_reads:
  assumes "good db" and "store db = empty_store" and "db' = foldl (apply_event insert_md add_filters clear_data) db es"
  obtains s ys hs where "store_run R cfg empty_store es s" and "mset ys = st_torrents s" and "newest_first ys"
    and "\<And>l t. 0 \<le> l \<Longrightarrow> 0 \<le> t \<Longrightarrow> \<exists>page. latest l t db' = Some (page, length ys) \<and> map plain page = map snd (take (nat l) (drop (nat t) ys))"
    and "all_hashes db' = Some hs" and "mset hs = store_hashes s"
proof -
  have "good db'" "store_run R cfg empty_store es (store db')" using run_refines [OF assms(1), of es] by (simp_all add: assms(2,3))
  then show thesis using that latest [OF \<open>good db'\<close>] all_hashes [OF \<open>good db'\<close>] by blast
qed

end

text \<open>Two repositories that saw the same events, no hash and no second of discovery twice, answer alike.\<close>

lemma repositories_agree:
  assumes "torrent_repository R cfg ins1 add1 clr1 lat1 all1 good1 store1" and "torrent_repository R cfg ins2 add2 clr2 lat2 all2 good2 store2"
    and "good1 a" and "store1 a = empty_store" and "good2 b" and "store2 b = empty_store"
    and "a' = foldl (apply_event ins1 add1 clr1) a es" and "b' = foldl (apply_event ins2 add2 clr2) b es"
    and "distinct (map md_InfoHash (captures es))" and "distinct (map md_DiscoveredOn (captures es))" and "0 \<le> l" and "0 \<le> t"
  shows "(\<exists>page1 page2 n. lat1 l t a' = Some (page1, n) \<and> lat2 l t b' = Some (page2, n) \<and> map plain page1 = map plain page2)
    \<and> (\<exists>hs1 hs2. all1 a' = Some hs1 \<and> all2 b' = Some hs2 \<and> mset hs1 = mset hs2)"
proof -
  obtain s1 ys1 hs1 where 1: "store_run R cfg empty_store es s1" "mset ys1 = st_torrents s1" "newest_first ys1"
    "\<exists>page. lat1 l t a' = Some (page, length ys1) \<and> map plain page = map snd (take (nat l) (drop (nat t) ys1))"
    "all1 a' = Some hs1" "mset hs1 = store_hashes s1"
    using torrent_repository.run_reads [OF assms(1,3,4,7)] assms(11,12) by metis
  obtain s2 ys2 hs2 where 2: "store_run R cfg empty_store es s2" "mset ys2 = st_torrents s2" "newest_first ys2"
    "\<exists>page. lat2 l t b' = Some (page, length ys2) \<and> map plain page = map snd (take (nat l) (drop (nat t) ys2))"
    "all2 b' = Some hs2" "mset hs2 = store_hashes s2"
    using torrent_repository.run_reads [OF assms(2,5,6,8)] assms(11,12) by metis
  have f: "store_from R {} empty_store" by (simp add: store_from_def empty_store_def)
  have s: "s1 = s2" using store_run_unique [OF f 1(1) 2(1) assms(9,10)] by simp
  have "set ys1 \<subseteq> shown R ` set (captures es)"
    using store_run_from [OF f 1(1)] arg_cong [OF 1(2), of set_mset] by (simp add: store_from_def)
  moreover have "inj_on fst (shown R ` set (captures es))" using assms(10) by (intro shown_inj) (simp add: distinct_map)
  ultimately have "inj_on fst (set ys1)" by (rule inj_on_subset [rotated])
  then have "ys1 = ys2" using newest_first_unique [of ys1 ys2] 1(2,3) 2(2,3) s by simp
  then show ?thesis using 1(4-6) 2(4-6) s by auto
qed

end
