(* ===== verification/Backends.thy ===== *)
theory Backends
  imports Sql_Repository Torrent_Store
begin

text \<open>
  Both back ends implement the store of \<open>Torrent_Store\<close>: \<open>OpenRepository\<close> of \<open>db/db.go\<close> may choose either
  (\<open>db/clover.go\<close>, \<open>db/gorm.go\<close>). What is stored is read off the tables; each call is a step of
  the store, and the reads give what the store holds.
\<close>

section \<open>Bags of rows\<close>

definition content :: "('d \<Rightarrow> 'a) \<Rightarrow> ('i \<rightharpoonup> 'd) \<Rightarrow> 'a multiset" where
  "content f m = image_mset (\<lambda>i. f (the (m i))) (mset_set (dom m))"

lemma content_listing: "listing m xs \<Longrightarrow> content f m = mset (map (\<lambda>r. f (snd r)) xs)"
proof -
  assume xs: "listing m xs"
  have "dom m = set (map fst xs)" and d: "distinct (map fst xs)" using xs by (simp_all add: listing_def flip: dom_map_of_conv_image_fst)
  then have "mset_set (dom m) = mset (map fst xs)" by (metis mset_set_set)
  then have "content f m = mset (map (\<lambda>i. f (the (m i))) (map fst xs))" by (simp only: content_def mset_map)
  also have "map (\<lambda>i. f (the (m i))) (map fst xs) = map (\<lambda>r. f (snd r)) xs"
    using listing_mem [OF xs] by (auto simp: comp_def)
  finally show ?thesis .
qed

lemma content_empty [simp]: "content f Map.empty = {#}"
  by (simp add: content_def)

lemma content_upd: "finite (dom m) \<Longrightarrow> m i = None \<Longrightarrow> content f (m(i \<mapsto> d)) = add_mset (f d) (content f m)"
proof -
  assume m: "finite (dom m)" "m i = None"
  then have "i \<notin> dom m" by auto
  then have "mset_set (dom (m(i \<mapsto> d))) = add_mset i (mset_set (dom m))" using m by simp
  moreover have "image_mset (\<lambda>j. f (the ((m(i \<mapsto> d)) j))) (mset_set (dom m)) = content f m"
    unfolding content_def using m by (intro image_mset_cong) auto
  ultimately show ?thesis by (simp add: content_def)
qed

lemma content_size: "finite (dom m) \<Longrightarrow> size (content f m) = card (dom m)"
  by (simp add: content_def)

lemma content_mem: "finite (dom m) \<Longrightarrow> a \<in># content f m \<longleftrightarrow> (\<exists>i d. m i = Some d \<and> a = f d)"
  by (force simp: content_def)

lemma content_pruned:
  assumes "pruned_to disc (nat cap) m kept" and "0 < cap" and fin: "finite (dom m)" and f: "\<And>d. fst (f d) = disc d"
  shows "keep_newest cap (content f m) (content f kept)"
proof -
  have le: "kept \<subseteq>\<^sub>m m" and card: "card (dom kept) = min (card (dom m)) (nat cap)"
    and out: "\<And>a d b e. m a = Some d \<Longrightarrow> a \<notin> dom kept \<Longrightarrow> kept b = Some e \<Longrightarrow> disc d \<le> disc e"
    using assms(1) unfolding pruned_to_def by blast+
  have sub: "dom kept \<subseteq> dom m" using le by (rule map_le_implies_dom_le)
  have fink: "finite (dom kept)" using sub fin by (rule finite_subset)
  define g where "g = (\<lambda>i. f (the (m i)))"
  have k: "content f kept = image_mset g (mset_set (dom kept))"
    unfolding content_def g_def using le fink by (intro image_mset_cong) (auto simp: map_le_def)
  have m: "content f m = image_mset g (mset_set (dom m))" by (simp add: content_def g_def)
  have msub: "mset_set (dom kept) \<subseteq># mset_set (dom m)" using sub fin by (simp add: subset_imp_msubset_mset_set)
  have diff: "content f m - content f kept = image_mset g (mset_set (dom m - dom kept))"
    unfolding k m image_mset_Diff [OF msub, symmetric] using sub fin by (simp add: mset_set_Diff)
  have "fst a \<le> fst b" if a: "a \<in># content f m - content f kept" and b: "b \<in># content f kept" for a b
  proof -
    obtain i where i: "i \<in> dom m - dom kept" "a = g i" using a fin unfolding diff by auto
    obtain j where j: "j \<in> dom kept" "b = g j" using b fink unfolding k by auto
    then have "m j = kept j" using le by (simp add: map_le_def)
    moreover obtain d e where "m i = Some d" "kept j = Some e" using i j by blast
    ultimately show ?thesis using i j out [of i d j e] by (simp add: g_def f)
  qed
  moreover have "content f kept \<subseteq># content f m" unfolding k m using msub by (rule image_mset_subseteq_mono)
  moreover have "size (content f kept) = min (size (content f m)) (nat cap)" using card fin fink by (simp add: content_size)
  ultimately show ?thesis using assms(2) by (simp add: keep_newest_def)
qed

lemma ordered_newest: "ordered disc False ys \<Longrightarrow> (\<And>d. fst (f d) = disc d) \<Longrightarrow> newest_first (map (\<lambda>r. f (snd r)) ys)"
  by (simp add: ordered_def newest_first_def sorted_wrt_map)

section \<open>The document database\<close>

definition seen_doc :: "Rules \<Rightarrow> Doc \<Rightarrow> seen" where
  "seen_doc R d = (discovered_on d, plain (Document2MetaData R d))"

definition black_pairs :: "(string \<rightharpoonup> Doc) \<Rightarrow> (string \<times> string) set" where
  "black_pairs m = {(f, ty). blacklist_doc f ty \<in> ran m}"

definition clover_holds :: "(table \<Rightarrow> 'db \<Rightarrow> string \<rightharpoonup> Doc) \<Rightarrow> Rules \<Rightarrow> 'db \<Rightarrow> Store" where
  "clover_holds rows R db = \<lparr>st_torrents = content (seen_doc R) (rows TorrentTable db), st_filters = black_pairs (rows BlacklistTable db)\<rparr>"

definition clover_good :: "('db \<Rightarrow> bool) \<Rightarrow> (table \<Rightarrow> 'db \<Rightarrow> string \<rightharpoonup> Doc) \<Rightarrow> 'db \<Rightarrow> bool" where
  "clover_good valid rows db \<longleftrightarrow> valid db \<and> black_wf (rows BlacklistTable db)"

lemma fst_seen_doc: "fst (seen_doc R d) = discovered_on d"
  by (simp add: seen_doc_def)

lemma seen_torrent_doc: "seen_doc R (torrent_doc C R md) = shown R md"
  by (simp add: seen_doc_def shown_def plain_def discovered_on_def Document2MetaData_def torrent_doc_def doc_text_def doc_string_def doc_int_def
      doc_uint_def doc_categories_def strings_of_def numericInt_def List.map_filter_def comp_def)

lemma hash_of_doc: "m_InfoHash (snd (seen_doc R d)) = doc_text (d ''InfoHash'')"
  by (simp add: seen_doc_def plain_def Document2MetaData_def)

lemma clover_finite: "clover_ok C valid rows \<Longrightarrow> valid db \<Longrightarrow> finite (dom (rows t db))"
  using FindSorted_pages [of C valid rows db t "\<lambda>_. True" True] by (metis finite_dom_map_of listing_def selected_True)

lemma black_pairs_hit:
  assumes "black_wf m"
  shows "(\<exists>i d. m i = Some d \<and> blacklist_match R md d) \<longleftrightarrow> (\<exists>e \<in> black_pairs m. filter_hits R md e)"
proof -
  have "blacklist_match R md (blacklist_doc f ty) = filter_hits R md (f, ty)" for f ty
    by (simp add: blacklist_match_def filter_hits_def blacklist_doc_def doc_text_def doc_string_def Let_def cong: option.case_cong)
  then show ?thesis using assms unfolding black_wf_def black_pairs_def ran_def by fastforce
qed

lemma clover_wanted:
  assumes "clover_ok C valid rows" and "never_fails C rows" and "clover_good valid rows db"
  shows "rc_OnlyChineseContent cfg \<and> \<not> ContainsChineseContent R md \<or> rc_EnableBlacklist cfg \<and> IsBlacklisted C R md db
    \<longleftrightarrow> \<not> wanted R cfg (st_filters (clover_holds rows R db)) md"
proof -
  have v: "valid db" "black_wf (rows BlacklistTable db)" using assms(3) by (simp_all add: clover_good_def)
  have "IsBlacklisted C R md db \<longleftrightarrow> (\<exists>e \<in> black_pairs (rows BlacklistTable db). filter_hits R md e)"
    unfolding IsBlacklisted_def or_empty_rows [OF assms(1,2) v(1)] by (rule black_pairs_hit [OF v(2)])
  then show ?thesis by (auto simp: wanted_def clover_holds_def)
qed

lemma clover_insert:
  assumes ok: "clover_ok C valid rows" "never_fails C rows" and g: "clover_good valid rows db"
  shows "clover_good valid rows (snd (InsertMetadata C R cfg md db))
    \<and> store_step R cfg (clover_holds rows R db) (Captured md) (clover_holds rows R (snd (InsertMetadata C R cfg md db)))"
proof (cases "wanted R cfg (st_filters (clover_holds rows R db)) md")
  case False
  then have "InsertMetadata C R cfg md db = (False, db)"
    using clover_wanted [OF ok g, of cfg R md] by (auto simp: InsertMetadata_def)
  then show ?thesis using g False by (simp add: store_step.refused)
next
  case True
  have v: "valid db" "black_wf (rows BlacklistTable db)" using g by (simp_all add: clover_good_def)
  obtain db1 where db1: "InsertOne C TorrentTable (torrent_doc C R md) db = Some db1" using never_failsD(4) [OF ok(2)] by blast
  have run: "snd (InsertMetadata C R cfg md db) = pruneOldTorrents C cfg db1"
    using True clover_wanted [OF ok g, of cfg R md] by (auto simp: InsertMetadata_def db1)
  obtain i where i: "valid db1" "rows TorrentTable db i = None" "rows TorrentTable db1 = (rows TorrentTable db)(i \<mapsto> torrent_doc C R md)"
    "\<And>u. u \<noteq> TorrentTable \<Longrightarrow> rows u db1 = rows u db"
    using InsertOne_adds [OF ok(1) v(1) db1] by blast
  define T where "T = content (seen_doc R) (rows TorrentTable (pruneOldTorrents C cfg db1))"
  have add: "content (seen_doc R) (rows TorrentTable db1) = add_mset (shown R md) (content (seen_doc R) (rows TorrentTable db))"
    using content_upd [OF clover_finite [OF ok(1) v(1)] i(2), of "seen_doc R" "torrent_doc C R md"] by (simp add: i(3) seen_torrent_doc)
  have p: "valid (pruneOldTorrents C cfg db1) \<and> rows BlacklistTable (pruneOldTorrents C cfg db1) = rows BlacklistTable db
      \<and> keep_newest (rc_MaxSavedTorrents cfg) (content (seen_doc R) (rows TorrentTable db1)) T"
  proof (cases "0 < rc_MaxSavedTorrents cfg")
    case True
    note r = prune_rows [OF ok i(1) True]
    then have "keep_newest (rc_MaxSavedTorrents cfg) (content (seen_doc R) (rows TorrentTable db1)) T"
      unfolding T_def by (intro content_pruned [where disc = discovered_on] True clover_finite [OF ok(1) i(1)] fst_seen_doc) simp
    then show ?thesis using r i(4) by simp
  next
    case False
    then show ?thesis using i by (simp add: pruneOldTorrents_def keep_newest_def T_def)
  qed
  have "clover_holds rows R (snd (InsertMetadata C R cfg md db)) = (clover_holds rows R db)\<lparr>st_torrents := T\<rparr>"
    using p by (simp add: clover_holds_def run T_def)
  moreover have "store_step R cfg (clover_holds rows R db) (Captured md) ((clover_holds rows R db)\<lparr>st_torrents := T\<rparr>)"
    using p add by (intro store_step.stored [OF True]) (simp add: clover_holds_def)
  ultimately show ?thesis using p v(2) by (simp add: clover_good_def run)
qed

lemma clover_blacklist:
  assumes ok: "clover_ok C valid rows" "where_ok C" "never_fails C rows" and g: "clover_good valid rows db"
  shows "clover_good valid rows (snd (AddToBlacklist C fs ty db))
    \<and> store_step R cfg (clover_holds rows R db) (Blacklisted fs ty) (clover_holds rows R (snd (AddToBlacklist C fs ty db)))"
proof -
  obtain r db' where run: "fold (add_filter C ty) fs (False, db) = (r, db')" by (rule prod.exhaust)
  have v: "valid db" "black_wf (rows BlacklistTable db)" using g by (simp_all add: clover_good_def)
  note e = AddToBlacklist_effect [OF ok v run]
  have "black_pairs (rows BlacklistTable db') = black_pairs (rows BlacklistTable db) \<union> (\<lambda>f. (f, ty)) ` set fs"
    using e by (auto simp: black_pairs_def)
  then have "clover_holds rows R db' = (clover_holds rows R db)\<lparr>st_filters := st_filters (clover_holds rows R db) \<union> (\<lambda>f. (f, ty)) ` set fs\<rparr>"
    using e by (simp add: clover_holds_def)
  then show ?thesis using e store_step.blacklisted [of R cfg "clover_holds rows R db" fs ty]
    by (simp add: AddToBlacklist_def run clover_good_def)
qed

lemma clover_clear:
  assumes "clover_ok C valid rows" and "never_fails C rows" and "clover_good valid rows db"
  shows "clover_good valid rows (snd (ClearCapturedData C db))
    \<and> store_step R cfg (clover_holds rows R db) Cleared (clover_holds rows R (snd (ClearCapturedData C db)))"
proof -
  have v: "valid db" using assms(3) by (simp add: clover_good_def)
  obtain db' where "ClearCapturedData C db = (True, db')" "valid db'" "rows TorrentTable db' = Map.empty"
    "rows BlacklistTable db' = rows BlacklistTable db"
    using ClearCapturedData_effect [OF assms(1,2) v] by blast
  then show ?thesis using assms(3) store_step.cleared [of R cfg "clover_holds rows R db"] by (simp add: clover_good_def clover_holds_def)
qed

lemma clover_latest:
  assumes "clover_ok C valid rows" and "never_fails C rows" and "clover_good valid rows db"
  shows "\<exists>ys. mset ys = st_torrents (clover_holds rows R db) \<and> newest_first ys
    \<and> (\<forall>l s. 0 \<le> l \<longrightarrow> 0 \<le> s \<longrightarrow> (\<exists>page. GetLatest C R l s db = Some (page, length ys) \<and> map plain page = map snd (take (nat l) (drop (nat s) ys))))"
proof -
  have v: "valid db" using assms(3) by (simp add: clover_good_def)
  obtain zs where zs: "listing (rows TorrentTable db) zs" "ordered discovered_on False zs"
    "\<And>l s xs. 0 \<le> l \<Longrightarrow> 0 \<le> s \<Longrightarrow> FindSorted C TorrentTable (\<lambda>_. True) False l s db = Some xs \<Longrightarrow> xs = take (nat l) (drop (nat s) zs)"
    using FindSorted_pages [OF assms(1) v, where t = TorrentTable and p = "\<lambda>_. True" and asc = False] by auto
  obtain n where n: "Count C TorrentTable (\<lambda>_. True) db = Some n" using never_failsD(3) [OF assms(2)] by blast
  then have len: "n = length zs" using Count_card [OF assms(1) v n] listing_card [OF zs(1)] by simp
  let ?ys = "map (\<lambda>r. seen_doc R (snd r)) zs"
  have "GetLatest C R l s db = Some (Documents2MetaData R (take (nat l) (drop (nat s) zs)), length zs)" if "0 \<le> l" "0 \<le> s" for l s
    using zs(3) [OF that] never_failsD(2) [OF assms(2), of TorrentTable "\<lambda>_. True" False l s db] n len by (auto simp: GetLatest_def)
  moreover have "map plain (Documents2MetaData R xs) = map snd (map (\<lambda>r. seen_doc R (snd r)) xs)" for xs
    by (simp add: Documents2MetaData_def seen_doc_def case_prod_unfold comp_def)
  ultimately show ?thesis
    using content_listing [OF zs(1), of "seen_doc R"] ordered_newest [OF zs(2), of "seen_doc R"]
    by (intro exI [of _ ?ys]) (simp add: clover_holds_def fst_seen_doc take_map drop_map)
qed

lemma clover_hashes:
  assumes "clover_ok C valid rows" and "never_fails C rows" and "clover_good valid rows db"
  shows "\<exists>hs. GetAllInfoHashes C db = Some hs \<and> mset hs = store_hashes (clover_holds rows R db)"
proof -
  have v: "valid db" using assms(3) by (simp add: clover_good_def)
  obtain xs where xs: "FindAll C TorrentTable (\<lambda>_. True) db = Some xs" "listing (rows TorrentTable db) xs"
    using found_listing [OF assms(1,2) v, of TorrentTable "\<lambda>_. True"] by auto
  then show ?thesis
    using content_listing [OF xs(2), of "seen_doc R"]
    by (simp add: GetAllInfoHashes_def store_hashes_def clover_holds_def hash_of_doc case_prod_unfold image_mset.compositionality comp_def)
qed

lemma clover_repository:
  assumes "clover_ok C valid rows" and "where_ok C" and "never_fails C rows"
  shows "torrent_repository R cfg (\<lambda>md db. snd (InsertMetadata C R cfg md db)) (\<lambda>fs ty db. snd (AddToBlacklist C fs ty db))
    (\<lambda>db. snd (ClearCapturedData C db)) (GetLatest C R) (GetAllInfoHashes C) (clover_good valid rows) (clover_holds rows R)"
proof (unfold_locales, goal_cases)
  case 1 then show ?case by (rule clover_insert [OF assms(1,3)])
next
  case 2 then show ?case by (rule clover_blacklist [OF assms])
next
  case 3 then show ?case by (rule clover_clear [OF assms(1,3)])
next
  case 4 then show ?case by (rule clover_latest [OF assms(1,3)])
next
  case 5 then show ?case by (rule clover_hashes [OF assms(1,3)])
qed

section \<open>The SQL database\<close>

text \<open>
  What the code relies on beyond \<open>gorm_ok\<close>: finding rows without an order; the blacklist table,
  which the calls for torrents leave alone; and clearing. \<open>gorm_all_work\<close>: these calls do not fail.
\<close>

definition pairs_of :: "GormBlacklist list \<Rightarrow> (string \<times> string) set" where
  "pairs_of es = (\<lambda>e. (gb_Filter e, gb_Type e)) ` set es"

definition find_ok :: "'db Gorm \<Rightarrow> (nat \<rightharpoonup> GormTorrent) \<Rightarrow> 'db \<Rightarrow> bool" where
  "find_ok G m db \<longleftrightarrow> (\<forall>conds xs. g_Find G conds db = Some xs \<longrightarrow> listing (selected m (meets G conds)) (as_pairs xs))"

definition black_ok :: "'db Gorm \<Rightarrow> ('db \<Rightarrow> bool) \<Rightarrow> ('db \<Rightarrow> nat \<rightharpoonup> GormTorrent) \<Rightarrow> 'db \<Rightarrow> bool" where
  "black_ok G valid rows db \<longleftrightarrow>
     (\<forall>f ty n. g_CountBlacklist G f ty db = Some n \<longrightarrow> (n = 0 \<longleftrightarrow> (f, ty) \<notin> pairs_of (or_empty (g_Blacklist G db))))
   \<and> (\<forall>e db'. g_CreateBlacklist G e db = Some db' \<longrightarrow> valid db' \<and> rows db' = rows db
        \<and> pairs_of (or_empty (g_Blacklist G db')) = insert (gb_Filter e, gb_Type e) (pairs_of (or_empty (g_Blacklist G db))))"

definition apart_ok :: "'db Gorm \<Rightarrow> ('db \<Rightarrow> bool) \<Rightarrow> ('db \<Rightarrow> nat \<rightharpoonup> GormTorrent) \<Rightarrow> 'db \<Rightarrow> bool" where
  "apart_ok G valid rows db \<longleftrightarrow>
     (\<forall>t db'. g_Create G t db = Some db' \<longrightarrow> g_Blacklist G db' = g_Blacklist G db)
   \<and> (\<forall>ids db'. g_DeleteIds G ids db = Some db' \<longrightarrow> g_Blacklist G db' = g_Blacklist G db)
   \<and> (\<forall>db'. g_Clear G db = Some db' \<longrightarrow> valid db' \<and> rows db' = Map.empty \<and> g_Blacklist G db' = g_Blacklist G db)"

definition gorm_tables_ok :: "'db Gorm \<Rightarrow> ('db \<Rightarrow> bool) \<Rightarrow> ('db \<Rightarrow> nat \<rightharpoonup> GormTorrent) \<Rightarrow> bool" where
  "gorm_tables_ok G valid rows \<longleftrightarrow> (\<forall>db. valid db \<longrightarrow> find_ok G (rows db) db \<and> black_ok G valid rows db \<and> apart_ok G valid rows db)"

definition gorm_all_work :: "'db Gorm \<Rightarrow> bool" where
  "gorm_all_work G \<longleftrightarrow> gorm_works G \<and> (\<forall>conds f ty e db. g_Find G conds db \<noteq> None \<and> g_CountBlacklist G f ty db \<noteq> None
     \<and> g_CreateBlacklist G e db \<noteq> None \<and> g_Clear G db \<noteq> None)"

text \<open>The order in which Go walks the map of categories loses none and adds none.\<close>

definition order_ok :: "Rules \<Rightarrow> bool" where
  "order_ok R \<longleftrightarrow> (\<forall>xs. set (map_order R xs) = set xs)"

lemma gorm_tables_okD:
  assumes "gorm_tables_ok G valid rows" and "valid db"
  shows "find_ok G (rows db) db" "black_ok G valid rows db" "apart_ok G valid rows db"
  using assms unfolding gorm_tables_ok_def by simp_all

lemma gorm_all_workD:
  assumes "gorm_all_work G"
  shows "gorm_works G" "\<exists>xs. g_Find G conds db = Some xs" "\<exists>n. g_CountBlacklist G f ty db = Some n"
    "\<exists>db'. g_CreateBlacklist G e db = Some db'" "\<exists>db'. g_Clear G db = Some db'"
  using assms unfolding gorm_all_work_def by (blast, blast, blast, blast, blast)

subsection \<open>What a row shows\<close>

definition seen_row :: "'db Gorm \<Rightarrow> Rules \<Rightarrow> GormTorrent \<Rightarrow> seen" where
  "seen_row G R r = (gt_DiscoveredOn r, plain (toMetaData G R r))"

definition gorm_holds :: "'db Gorm \<Rightarrow> ('db \<Rightarrow> nat \<rightharpoonup> GormTorrent) \<Rightarrow> Rules \<Rightarrow> 'db \<Rightarrow> Store" where
  "gorm_holds G rows R db = \<lparr>st_torrents = content (seen_row G R) (rows db), st_filters = pairs_of (or_empty (g_Blacklist G db))\<rparr>"

lemma fst_seen_row: "fst (seen_row G R r) = gt_DiscoveredOn r"
  by (simp add: seen_row_def)

text \<open>The categories survive being joined with commas and split again.\<close>

lemma split_word: "c \<notin> set w \<Longrightarrow> split_at c w = [w]"
  by (induction w) auto

lemma split_at_append: "c \<notin> set w \<Longrightarrow> split_at c (w @ c # s) = w # split_at c s"
  by (induction w) auto

lemma split_join: "cs \<noteq> [] \<Longrightarrow> \<forall>w \<in> set cs. CHR '','' \<notin> set w \<Longrightarrow> split_at CHR '','' (join_comma cs) = cs"
  by (induction cs rule: join_comma.induct) (simp_all add: split_word split_at_append)

lemma Categorize_words:
  assumes "order_ok R"
  shows "Categorize R md \<noteq> [] \<and> (\<forall>w \<in> set (Categorize R md). CHR '','' \<notin> set w)"
proof -
  have names: "\<forall>w \<in> fst ` set categories. CHR '','' \<notin> set w" by (simp add: categories_def)
  define found where "found = (\<lambda>exts. map fst (filter (\<lambda>(cat, es). list_ex (\<lambda>e. e \<in> set es) exts) categories))"
  have "map_order R (found exts) \<noteq> [] \<and> (\<forall>w \<in> set (map_order R (found exts)). CHR '','' \<notin> set w)" if "found exts \<noteq> []" for exts
  proof -
    have "set (map_order R (found exts)) = set (found exts)" using assms by (simp add: order_ok_def)
    moreover have "set (found exts) \<subseteq> fst ` set categories" unfolding found_def by auto
    ultimately show ?thesis using names that by (metis set_empty subsetD)
  qed
  then show ?thesis unfolding Categorize_def Let_def found_def by auto
qed

lemma seen_gorm_torrent: "order_ok R \<Longrightarrow> seen_row G R ((gorm_torrent G R md)\<lparr>gt_ID := i\<rparr>) = shown R md"
  using split_join [of "Categorize R md"] Categorize_words [of R md]
  by (simp add: seen_row_def shown_def plain_def toMetaData_def gorm_torrent_def)

subsection \<open>The operations\<close>

lemma gorm_hit: "Gorm_IsBlacklisted G R md db \<longleftrightarrow> (\<exists>e \<in> pairs_of (or_empty (g_Blacklist G db)). filter_hits R md e)"
proof -
  have "filter_hits R md (gb_Filter e, gb_Type e) = gorm_black_match R md e" for e
    by (simp add: gorm_black_match_def filter_hits_def cong: option.case_cong)
  then show ?thesis by (simp add: Gorm_IsBlacklisted_def list_ex_iff pairs_of_def)
qed

lemma gorm_prune_keeps:
  assumes ok: "gorm_ok G valid rows" "gorm_tables_ok G valid rows" "gorm_works G" and v: "valid db"
  shows "valid (Gorm_prune G cfg db) \<and> g_Blacklist G (Gorm_prune G cfg db) = g_Blacklist G db
    \<and> keep_newest (rc_MaxSavedTorrents cfg) (content (seen_row G R) (rows db)) (content (seen_row G R) (rows (Gorm_prune G cfg db)))"
proof (cases "0 < rc_MaxSavedTorrents cfg")
  case True
  have "g_Blacklist G (Gorm_prune G cfg db) = g_Blacklist G db"
    using gorm_tables_okD(3) [OF ok(2) v] by (auto simp: Gorm_prune_def or_same_def apart_ok_def split: option.split)
  moreover note r = gorm_prune_rows [OF ok(1,3) v True]
  moreover have "keep_newest (rc_MaxSavedTorrents cfg) (content (seen_row G R) (rows db)) (content (seen_row G R) (rows (Gorm_prune G cfg db)))"
    using r by (intro content_pruned [where disc = gt_DiscoveredOn] True gorm_rows(2) [OF ok(1) v] fst_seen_row) simp
  ultimately show ?thesis by simp
next
  case False
  then show ?thesis using v by (simp add: Gorm_prune_def keep_newest_def)
qed

lemma gorm_insert:
  assumes ok: "gorm_ok G valid rows" "gorm_tables_ok G valid rows" "gorm_works G" and R: "order_ok R" and v: "valid db"
  shows "valid (snd (Gorm_InsertMetadata G R cfg md db))
    \<and> store_step R cfg (gorm_holds G rows R db) (Captured md) (gorm_holds G rows R (snd (Gorm_InsertMetadata G R cfg md db)))"
proof -
  obtain acc db' where run: "Gorm_InsertMetadata G R cfg md db = (acc, db')" by (rule prod.exhaust)
  note o = insert_outcome [OF run]
  have w: "wanted R cfg (st_filters (gorm_holds G rows R db)) md \<longleftrightarrow> (rc_OnlyChineseContent cfg \<longrightarrow> ContainsChineseContent R md)
      \<and> (rc_EnableBlacklist cfg \<longrightarrow> \<not> Gorm_IsBlacklisted G R md db)"
    by (simp add: wanted_def gorm_holds_def gorm_hit)
  have known: "hex_EncodeToString (md_InfoHash md) \<in># store_hashes (gorm_holds G rows R db)" if "g_Create G (gorm_torrent G R md) db = None"
  proof -
    obtain i r where "rows db i = Some r" "gt_InfoHash r = hex_EncodeToString (md_InfoHash md)"
      using \<open>g_Create G (gorm_torrent G R md) db = None\<close> gorm_rows(4) [OF ok(1) v] by (auto simp: gorm_torrent_def)
    then have "m_InfoHash (snd (seen_row G R r)) = hex_EncodeToString (md_InfoHash md)" "\<exists>j d. rows db j = Some d \<and> seen_row G R r = seen_row G R d"
      by (simp add: seen_row_def plain_def toMetaData_def, blast)
    then have h: "m_InfoHash (snd (seen_row G R r)) = hex_EncodeToString (md_InfoHash md)" and "seen_row G R r \<in># content (seen_row G R) (rows db)"
      by (simp_all only: content_mem [OF gorm_rows(2) [OF ok(1) v]])
    from this(2) have "m_InfoHash (snd (seen_row G R r)) \<in> (\<lambda>a. m_InfoHash (snd a)) ` set_mset (content (seen_row G R) (rows db))"
      by (rule imageI)
    then show ?thesis by (simp add: store_hashes_def gorm_holds_def h)
  qed
  show ?thesis
  proof (cases acc)
    case False
    then have "\<not> wanted R cfg (st_filters (gorm_holds G rows R db)) md
        \<or> hex_EncodeToString (md_InfoHash md) \<in># store_hashes (gorm_holds G rows R db)" "db' = db"
      using o w known by blast+
    then show ?thesis using v store_step.refused by (simp add: run)
  next
    case True
    then obtain db1 where db1: "g_Create G (gorm_torrent G R md) db = Some db1" "db' = Gorm_prune G cfg db1" using o by blast
    obtain i where i: "valid db1" "rows db i = None" "rows db1 = (rows db)(i \<mapsto> (gorm_torrent G R md)\<lparr>gt_ID := i\<rparr>)"
      using gorm_create [OF ok(1) v db1(1)] by blast
    have b: "g_Blacklist G db1 = g_Blacklist G db" using gorm_tables_okD(3) [OF ok(2) v] db1(1) unfolding apart_ok_def by blast
    note p = gorm_prune_keeps [OF ok i(1), of cfg R, folded db1(2)]
    have add: "content (seen_row G R) (rows db1) = add_mset (shown R md) (content (seen_row G R) (rows db))"
      using content_upd [OF gorm_rows(2) [OF ok(1) v] i(2), of "seen_row G R"] by (simp add: i(3) seen_gorm_torrent [OF R])
    have "gorm_holds G rows R db' = (gorm_holds G rows R db)\<lparr>st_torrents := content (seen_row G R) (rows db')\<rparr>"
      using p b by (simp add: gorm_holds_def)
    moreover have "store_step R cfg (gorm_holds G rows R db) (Captured md)
        ((gorm_holds G rows R db)\<lparr>st_torrents := content (seen_row G R) (rows db')\<rparr>)"
      using p add o True w by (intro store_step.stored) (auto simp: gorm_holds_def)
    ultimately show ?thesis using p by (simp add: run)
  qed
qed

lemma gorm_filter:
  assumes ok: "gorm_tables_ok G valid rows" "gorm_all_work G" and v: "valid db"
  shows "valid (gorm_add_filter G ty f db) \<and> rows (gorm_add_filter G ty f db) = rows db
    \<and> pairs_of (or_empty (g_Blacklist G (gorm_add_filter G ty f db))) = insert (f, ty) (pairs_of (or_empty (g_Blacklist G db)))"
proof -
  obtain n where n: "g_CountBlacklist G f ty db = Some n" using gorm_all_workD(3) [OF ok(2)] by blast
  obtain db' where db': "g_CreateBlacklist G \<lparr>gb_ID = 0, gb_Filter = f, gb_Type = ty\<rparr> db = Some db'" using gorm_all_workD(4) [OF ok(2)] by blast
  note b = gorm_tables_okD(2) [OF ok(1) v, unfolded black_ok_def]
  have "n = 0 \<longleftrightarrow> (f, ty) \<notin> pairs_of (or_empty (g_Blacklist G db))" using b n by blast
  moreover have "valid db' \<and> rows db' = rows db \<and> pairs_of (or_empty (g_Blacklist G db')) = insert (f, ty) (pairs_of (or_empty (g_Blacklist G db)))"
    using b [THEN conjunct2, rule_format, OF db'] by simp
  ultimately show ?thesis using v by (auto simp: gorm_add_filter_def count_or_0_def n db' or_same_def)
qed

lemma gorm_filters:
  assumes "gorm_tables_ok G valid rows" and "gorm_all_work G"
  shows "valid db \<Longrightarrow> valid (fold (gorm_add_filter G ty) fs db) \<and> rows (fold (gorm_add_filter G ty) fs db) = rows db
    \<and> pairs_of (or_empty (g_Blacklist G (fold (gorm_add_filter G ty) fs db))) = (\<lambda>f. (f, ty)) ` set fs \<union> pairs_of (or_empty (g_Blacklist G db))"
proof (induction fs arbitrary: db)
  case (Cons f fs)
  from gorm_filter [OF assms Cons.prems] Cons.IH [of "gorm_add_filter G ty f db"] show ?case by simp
qed simp

lemma gorm_blacklist:
  assumes "gorm_tables_ok G valid rows" and "gorm_all_work G" and "valid db"
  shows "valid (snd (Gorm_AddToBlacklist G fs ty db))
    \<and> store_step R cfg (gorm_holds G rows R db) (Blacklisted fs ty) (gorm_holds G rows R (snd (Gorm_AddToBlacklist G fs ty db)))"
  using gorm_filters [OF assms, of ty fs] store_step.blacklisted [of R cfg "gorm_holds G rows R db" fs ty]
  by (simp add: Gorm_AddToBlacklist_def gorm_holds_def Un_commute)

lemma gorm_clear:
  assumes "gorm_tables_ok G valid rows" and "gorm_all_work G" and "valid db"
  shows "valid (snd (Gorm_ClearCapturedData G db))
    \<and> store_step R cfg (gorm_holds G rows R db) Cleared (gorm_holds G rows R (snd (Gorm_ClearCapturedData G db)))"
proof -
  obtain db' where db': "g_Clear G db = Some db'" using gorm_all_workD(5) [OF assms(2)] by blast
  then have "valid db' \<and> rows db' = Map.empty \<and> g_Blacklist G db' = g_Blacklist G db"
    using gorm_tables_okD(3) [OF assms(1,3)] unfolding apart_ok_def by blast
  then show ?thesis using db' store_step.cleared [of R cfg "gorm_holds G rows R db"] by (simp add: Gorm_ClearCapturedData_def gorm_holds_def)
qed

lemma gorm_latest:
  assumes "gorm_ok G valid rows" and "gorm_works G" and "valid db"
  shows "\<exists>ys. mset ys = st_torrents (gorm_holds G rows R db) \<and> newest_first ys
    \<and> (\<forall>l s. 0 \<le> l \<longrightarrow> 0 \<le> s \<longrightarrow> (\<exists>page. Gorm_GetLatest G R l s db = Some (page, length ys) \<and> map plain page = map snd (take (nat l) (drop (nat s) ys))))"
proof -
  obtain zs where zs: "listing (rows db) (as_pairs zs)" "ordered gt_DiscoveredOn False (as_pairs zs)"
    "\<And>l s xs. 0 \<le> l \<Longrightarrow> 0 \<le> s \<Longrightarrow> g_FindOrdered G [] False l s db = Some xs \<Longrightarrow> xs = take (nat l) (drop (nat s) zs)"
    using gorm_pages [OF assms(1,3), where conds = "[]" and asc = False] by auto
  obtain n where n: "g_Count G [] db = Some n" using gorm_worksD(1) [OF assms(2)] by blast
  then have len: "n = length zs" using gorm_rows(3) [OF assms(1,3) n] listing_card [OF zs(1)] by (simp add: number_of_all)
  let ?ys = "map (seen_row G R) zs"
  have pairs: "map (\<lambda>r. seen_row G R (snd r)) (as_pairs zs) = ?ys" by (simp add: as_pairs_def comp_def)
  have page: "Gorm_GetLatest G R l s db = Some (map (toMetaData G R) (take (nat l) (drop (nat s) zs)), length zs)" if "0 \<le> l" "0 \<le> s" for l s
    using zs(3) [OF that] gorm_worksD(2) [OF assms(2), of "[]" False l s db] n len by (auto simp: Gorm_GetLatest_def)
  have "mset ?ys = st_torrents (gorm_holds G rows R db)"
    using content_listing [OF zs(1), of "seen_row G R"] pairs by (simp add: gorm_holds_def)
  moreover have "newest_first ?ys" using ordered_newest [OF zs(2), of "seen_row G R"] pairs by (simp add: fst_seen_row)
  moreover have "map plain (map (toMetaData G R) xs) = map snd (map (seen_row G R) xs)" for xs by (simp add: seen_row_def)
  ultimately show ?thesis by (intro exI [of _ ?ys] conjI) (simp_all add: page take_map drop_map)
qed

lemma gorm_hashes:
  assumes "gorm_tables_ok G valid rows" and "gorm_all_work G" and "valid db"
  shows "\<exists>hs. Gorm_GetAllInfoHashes G db = Some hs \<and> mset hs = store_hashes (gorm_holds G rows R db)"
proof -
  obtain xs where xs: "g_Find G [] db = Some xs" using gorm_all_workD(2) [OF assms(2)] by blast
  then have "listing (selected (rows db) (meets G [])) (as_pairs xs)" using gorm_tables_okD(1) [OF assms(1,3)] unfolding find_ok_def by blast
  then have l: "listing (rows db) (as_pairs xs)" by simp
  have "image_mset (\<lambda>a. m_InfoHash (snd a)) (content (seen_row G R) (rows db)) = mset (map gt_InfoHash xs)"
    unfolding content_listing [OF l] by (simp add: as_pairs_def seen_row_def plain_def toMetaData_def image_mset.compositionality comp_def)
  then show ?thesis using xs by (simp add: Gorm_GetAllInfoHashes_def store_hashes_def gorm_holds_def)
qed

lemma gorm_repository:
  assumes "gorm_ok G valid rows" and "gorm_tables_ok G valid rows" and "gorm_all_work G" and "order_ok R"
  shows "torrent_repository R cfg (\<lambda>md db. snd (Gorm_InsertMetadata G R cfg md db)) (\<lambda>fs ty db. snd (Gorm_AddToBlacklist G fs ty db))
    (\<lambda>db. snd (Gorm_ClearCapturedData G db)) (Gorm_GetLatest G R) (Gorm_GetAllInfoHashes G) valid (gorm_holds G rows R)"
proof (unfold_locales, goal_cases)
  case 1 then show ?case by (rule gorm_insert [OF assms(1,2) gorm_all_workD(1) [OF assms(3)] assms(4)])
next
  case 2 then show ?case by (rule gorm_blacklist [OF assms(2,3)])
next
  case 3 then show ?case by (rule gorm_clear [OF assms(2,3)])
next
  case 4 then show ?case by (rule gorm_latest [OF assms(1) gorm_all_workD(1) [OF assms(3)]])
next
  case 5 then show ?case by (rule gorm_hashes [OF assms(2,3)])
qed

section \<open>Opening a repository\<close>

text \<open>
  \<open>open_db\<close> is \<open>clover.Open\<close>, \<open>create\<close> is \<open>CreateCollection\<close>, whose errors (the collection is there) are
  ignored, as is a directory that cannot be made.
\<close>

definition NewCloverRepository :: "(string \<Rightarrow> 'db option) \<Rightarrow> (table \<Rightarrow> 'db \<Rightarrow> 'db option) \<Rightarrow> string \<Rightarrow> 'db option" where
  "NewCloverRepository open_db create dbName =
    map_option (fold (\<lambda>t db. or_same db (create t db)) [TorrentTable, WatchTable, BlacklistTable, StatsTable]) (open_db dbName)"

datatype ('c, 'g) repository = CloverRepository 'c | GormRepository bool 'g

definition OpenRepository ::
  "(string \<Rightarrow> 'c option) \<Rightarrow> (table \<Rightarrow> 'c \<Rightarrow> 'c option) \<Rightarrow> (dialect \<Rightarrow> string \<Rightarrow> 'g option) \<Rightarrow> ('g \<Rightarrow> 'g option) \<Rightarrow> 'g FtsCalls
    \<Rightarrow> string \<Rightarrow> string \<Rightarrow> string \<Rightarrow> ('c, 'g) repository option" where
  "OpenRepository open_clover create open_gorm migrate F databaseType databaseUrl dbName =
    (if databaseType = ''clover'' then map_option CloverRepository (NewCloverRepository open_clover create dbName)
     else map_option (\<lambda>(fts, db). GormRepository fts db) (NewGormRepository open_gorm migrate F databaseType databaseUrl))"

section \<open>Both back ends as instances of the interface\<close>

definition clover_apply :: "'db Clover \<Rightarrow> Rules \<Rightarrow> RepoConfig \<Rightarrow> 'db \<Rightarrow> store_event \<Rightarrow> 'db" where
  "clover_apply C R cfg =
    apply_event (\<lambda>md db. snd (InsertMetadata C R cfg md db)) (\<lambda>fs ty db. snd (AddToBlacklist C fs ty db)) (\<lambda>db. snd (ClearCapturedData C db))"

definition gorm_apply :: "'db Gorm \<Rightarrow> Rules \<Rightarrow> RepoConfig \<Rightarrow> 'db \<Rightarrow> store_event \<Rightarrow> 'db" where
  "gorm_apply G R cfg =
    apply_event (\<lambda>md db. snd (Gorm_InsertMetadata G R cfg md db)) (\<lambda>fs ty db. snd (Gorm_AddToBlacklist G fs ty db))
      (\<lambda>db. snd (Gorm_ClearCapturedData G db))"

locale clover_db =
  fixes C :: "'db Clover" and valid :: "'db \<Rightarrow> bool" and rows :: "table \<Rightarrow> 'db \<Rightarrow> string \<rightharpoonup> Doc" and R :: Rules and cfg :: RepoConfig
  assumes engine: "clover_ok C valid rows" "where_ok C" "never_fails C rows"

sublocale clover_db \<subseteq> torrent_repository R cfg "\<lambda>md db. snd (InsertMetadata C R cfg md db)" "\<lambda>fs ty db. snd (AddToBlacklist C fs ty db)"
    "\<lambda>db. snd (ClearCapturedData C db)" "GetLatest C R" "GetAllInfoHashes C" "clover_good valid rows" "clover_holds rows R"
  by (rule clover_repository [OF engine])

locale gorm_db =
  fixes G :: "'db Gorm" and valid :: "'db \<Rightarrow> bool" and rows :: "'db \<Rightarrow> nat \<rightharpoonup> GormTorrent" and R :: Rules and cfg :: RepoConfig
  assumes engine: "gorm_ok G valid rows" "gorm_tables_ok G valid rows" "gorm_all_work G" and rules: "order_ok R"

sublocale gorm_db \<subseteq> torrent_repository R cfg "\<lambda>md db. snd (Gorm_InsertMetadata G R cfg md db)" "\<lambda>fs ty db. snd (Gorm_AddToBlacklist G fs ty db)"
    "\<lambda>db. snd (Gorm_ClearCapturedData G db)" "Gorm_GetLatest G R" "Gorm_GetAllInfoHashes G" valid "gorm_holds G rows R"
  by (rule gorm_repository [OF engine rules])

text \<open>C13. The document database implements the store: over any sequence of captured torrents, new
  blacklist entries and clearings, what its tables hold went through steps the store allows:
  unwanted torrents are refused, wanted ones added, and with a limit the newest are kept.
  Afterwards the pages of the latest torrents are cut from one list of all torrents the store
  holds, newest first, with their number, and the known hashes are those of the store.\<close>
theorem clover_implements_store:
  assumes "clover_ok C valid rows" and "where_ok C" and "never_fails C rows" and "clover_good valid rows db"
    and "db' = foldl (clover_apply C R cfg) db es"
  shows "store_run R cfg (clover_holds rows R db) es (clover_holds rows R db')
    \<and> (\<exists>ys. mset ys = st_torrents (clover_holds rows R db') \<and> newest_first ys
        \<and> (\<forall>l s. 0 \<le> l \<longrightarrow> 0 \<le> s \<longrightarrow> (\<exists>page. GetLatest C R l s db' = Some (page, length ys) \<and> map plain page = map snd (take (nat l) (drop (nat s) ys)))))
    \<and> (\<exists>hs. GetAllInfoHashes C db' = Some hs \<and> mset hs = store_hashes (clover_holds rows R db'))"
proof -
  note repo = clover_repository [OF assms(1-3), of R cfg]
  have g: "clover_good valid rows db' \<and> store_run R cfg (clover_holds rows R db) es (clover_holds rows R db')"
    using torrent_repository.run_refines [OF repo assms(4), of es] by (simp add: assms(5) clover_apply_def)
  then show ?thesis using torrent_repository.latest [OF repo, of db'] torrent_repository.all_hashes [OF repo, of db'] by blast
qed



section \<open>Instances\<close>

text \<open>An SQL engine with a table of blacklist entries beside the torrents of another.\<close>

definition with_blacklist :: "'db Gorm \<Rightarrow> ('db \<times> GormBlacklist list) Gorm" where
  "with_blacklist G =
    \<lparr>g_dialect = g_dialect G,
     g_Find = (\<lambda>conds db. g_Find G conds (fst db)),
     g_FindOrdered = (\<lambda>conds asc l s db. g_FindOrdered G conds asc l s (fst db)),
     g_Random = (\<lambda>n db. g_Random G n (fst db)),
     g_Count = (\<lambda>conds db. g_Count G conds (fst db)),
     g_Create = (\<lambda>t db. map_option (\<lambda>x. (x, snd db)) (g_Create G t (fst db))),
     g_DeleteIds = (\<lambda>ids db. map_option (\<lambda>x. (x, snd db)) (g_DeleteIds G ids (fst db))),
     g_GroupStats = (\<lambda>s since db. g_GroupStats G s since (fst db)),
     g_GroupCategories = (\<lambda>db. g_GroupCategories G (fst db)),
     g_Blacklist = (\<lambda>db. Some (snd db)),
     g_CountBlacklist = (\<lambda>f ty db. Some (length (filter (\<lambda>e. gb_Filter e = f \<and> gb_Type e = ty) (snd db)))),
     g_CreateBlacklist = (\<lambda>e db. Some (fst db, snd db @ [e])),
     g_DeleteBlacklist = (\<lambda>i db. Some db),
     g_Watches = (\<lambda>db. Some []),
     g_CreateWatch = (\<lambda>e db. None),
     g_DeleteWatch = (\<lambda>i db. Some db),
     g_CreateStats = (\<lambda>e db. Some db),
     g_Clear = (\<lambda>db. map_option (\<lambda>x. (x, snd db)) (g_Clear G (fst db))),
     g_holds = g_holds G,
     files_json = files_json G,
     files_of = files_of G\<rparr>"

lemma with_blacklist_fields:
  "g_Find (with_blacklist G) conds db = g_Find G conds (fst db)"
  "g_FindOrdered (with_blacklist G) conds asc l s db = g_FindOrdered G conds asc l s (fst db)"
  "g_Count (with_blacklist G) conds db = g_Count G conds (fst db)"
  "g_Create (with_blacklist G) t db = map_option (\<lambda>x. (x, snd db)) (g_Create G t (fst db))"
  "g_DeleteIds (with_blacklist G) ids db = map_option (\<lambda>x. (x, snd db)) (g_DeleteIds G ids (fst db))"
  "g_GroupStats (with_blacklist G) sec since db = g_GroupStats G sec since (fst db)"
  "g_Blacklist (with_blacklist G) db = Some (snd db)"
  "g_CountBlacklist (with_blacklist G) f ty db = Some (length (filter (\<lambda>e. gb_Filter e = f \<and> gb_Type e = ty) (snd db)))"
  "g_CreateBlacklist (with_blacklist G) e db = Some (fst db, snd db @ [e])"
  "g_Clear (with_blacklist G) db = map_option (\<lambda>x. (x, snd db)) (g_Clear G (fst db))"
  "g_holds (with_blacklist G) = g_holds G"
  by (simp_all add: with_blacklist_def)

lemma with_blacklist_meets: "meets (with_blacklist G) conds = meets G conds"
  by (rule ext) (simp add: meets_def with_blacklist_fields)

lemma with_blacklist_ok:
  assumes "gorm_ok G valid rows"
  shows "gorm_ok (with_blacklist G) (\<lambda>db. valid (fst db)) (\<lambda>db. rows (fst db))"
proof -
  have "holds_ok (with_blacklist G)" using assms by (simp add: gorm_ok_def holds_ok_def with_blacklist_fields)
  moreover have "create_ok (with_blacklist G) (\<lambda>db. valid (fst db)) (\<lambda>db. rows (fst db)) db" if "valid (fst db)" for db
    using gorm_okD(5) [OF assms that] by (auto simp: create_ok_def with_blacklist_fields)
  moreover have "delete_ok (with_blacklist G) (\<lambda>db. valid (fst db)) (\<lambda>db. rows (fst db)) db" if "valid (fst db)" for db
    using gorm_okD(6) [OF assms that] by (auto simp: delete_ok_def with_blacklist_fields)
  moreover have "count_ok (with_blacklist G) (rows (fst db)) db" "pages_ok (with_blacklist G) (rows (fst db)) db" "stats_ok (with_blacklist G) (rows (fst db)) db"
    if "valid (fst db)" for db
    using gorm_okD(2-4) [OF assms that] by (simp_all add: count_ok_def pages_ok_def stats_ok_def with_blacklist_fields with_blacklist_meets)
  ultimately show ?thesis unfolding gorm_ok_def using gorm_okD(1) [OF assms] by blast
qed

abbreviation sql_engine :: "(GormTorrent list \<times> GormBlacklist list) Gorm" where
  "sql_engine \<equiv> with_blacklist list_gorm"

lemma sql_engine_tables: "gorm_tables_ok sql_engine (\<lambda>db. list_ids (fst db)) (\<lambda>db. list_rows (fst db))"
  unfolding gorm_tables_ok_def
proof (intro allI impI conjI)
  fix db :: "GormTorrent list \<times> GormBlacklist list" assume v: "list_ids (fst db)"
  have f: "g_Find list_gorm conds ts = Some (list_matching conds ts)" "g_Clear list_gorm ts = Some []" for conds ts by (simp_all add: list_gorm_def)
  show "find_ok sql_engine (list_rows (fst db)) db"
    using list_rows_listing [OF v] by (simp add: find_ok_def with_blacklist_fields with_blacklist_meets f list_matching_meets)
  show "black_ok sql_engine (\<lambda>db. list_ids (fst db)) (\<lambda>db. list_rows (fst db)) db"
    using v by (auto simp: black_ok_def with_blacklist_fields or_empty_def pairs_of_def filter_empty_conv image_iff)
  show "apart_ok sql_engine (\<lambda>db. list_ids (fst db)) (\<lambda>db. list_rows (fst db)) db"
    by (auto simp: apart_ok_def with_blacklist_fields f list_ids_def list_rows_def as_pairs_def)
qed

lemma sql_engine_works: "gorm_all_work sql_engine"
  by (auto simp: gorm_all_work_def gorm_works_def with_blacklist_fields list_gorm_fields) (simp_all add: list_gorm_def)

lemma plain_order_ok: "order_ok plain_rules"
  by (simp add: order_ok_def plain_rules_def)

interpretation docs: clover_db list_clover list_valid "\<lambda>t db. map_of (db t)" plain_rules sample_config
  by unfold_locales (rule list_clover_ok list_where_ok list_never_fails)+

interpretation sql: gorm_db sql_engine "\<lambda>db. list_ids (fst db)" "\<lambda>db. list_rows (fst db)" plain_rules sample_config
  by unfold_locales (rule with_blacklist_ok [OF list_gorm_ok] sql_engine_tables sql_engine_works plain_order_ok)+

text \<open>Two torrents with a limit of one, a blacklisted name between them.\<close>

definition sample_events :: "store_event list" where
  "sample_events = [Captured ((named ''alpha'' 5)\<lparr>md_InfoHash := [1]\<rparr>), Blacklisted [''beta''] ''0'',
     Captured ((named ''beta'' 7)\<lparr>md_InfoHash := [2]\<rparr>), Captured ((named ''gamma'' 6)\<lparr>md_InfoHash := [3]\<rparr>)]"

lemma no_rows_good: "clover_good list_valid (\<lambda>t db. map_of (db t)) no_rows"
  by (simp add: clover_good_def black_wf_def no_rows_valid no_rows_empty)

theorem clover_implements_store_witness:
  "store_run plain_rules sample_config (clover_holds (\<lambda>t db. map_of (db t)) plain_rules no_rows) sample_events
    (clover_holds (\<lambda>t db. map_of (db t)) plain_rules (foldl (clover_apply list_clover plain_rules sample_config) no_rows sample_events))"
  using clover_implements_store [OF list_clover_ok list_where_ok list_never_fails no_rows_good refl, where es = sample_events] by simp



end
