(* ===== verification/Worker_Restart.thy ===== *)
theory Worker_Restart
  imports Worker_Queue
begin

text \<open>
  The queue file of a worker in push mode over the life of its process: the flush goroutine of
  \<open>StartFlushLoop\<close> saves the queue from time to time and once more when the process is told to
  end (\<open>cluster/transport.go\<close>), while the crawler goes on enqueueing and the master acknowledging;
  \<open>runWorker\<close> of \<open>cmd/dhtc/main.go\<close> stops the crawler only then. The next process reads the file.
  A save is three steps here, between which the queue may change: taking the mark that there is
  something to save, copying the records, writing them.
\<close>

section \<open>State and steps\<close>

datatype saving = NoSave | SaveMarked | SaveCopied "Record list"

text \<open>\<open>wp_last\<close>: the goroutine has seen the end of the context; \<open>wp_ended\<close>: it has returned.\<close>

record WorkerProc =
  wp_queue :: WorkerQueue
  wp_disk :: "Record list option"
  wp_save :: saving
  wp_last :: bool
  wp_ended :: bool

definition start_proc :: "string \<Rightarrow> int \<Rightarrow> string \<Rightarrow> Record list option \<Rightarrow> WorkerProc" where
  "start_proc wid lim path disk =
    \<lparr>wp_queue = NewWorkerQueue wid lim path (map_option (\<lambda>rs. (rs, True)) disk), wp_disk = disk,
     wp_save = NoSave, wp_last = False, wp_ended = False\<rparr>"

text \<open>The beginning of \<open>saveToCache\<close>: without a directory or a mark it returns at once.\<close>

definition save_mark :: "WorkerProc \<Rightarrow> WorkerProc" where
  "save_mark p =
    (let q = wp_queue p
     in if cachePath q = [] \<or> \<not> cacheDirty q then p\<lparr>wp_ended := wp_last p\<rparr>
        else p\<lparr>wp_queue := q\<lparr>cacheDirty := False\<rparr>, wp_save := SaveMarked\<rparr>)"

definition save_copy :: "WorkerProc \<Rightarrow> WorkerProc" where
  "save_copy p = p\<lparr>wp_save := SaveCopied (items (wp_queue p))\<rparr>"

text \<open>\<open>ok\<close>: the directory, the temporary file and the renaming all succeed.\<close>

definition save_write :: "bool \<Rightarrow> Record list \<Rightarrow> WorkerProc \<Rightarrow> WorkerProc" where
  "save_write ok rs p =
    (if ok then p\<lparr>wp_disk := Some rs, wp_save := NoSave, wp_ended := wp_last p\<rparr>
     else p\<lparr>wp_queue := (wp_queue p)\<lparr>cacheDirty := True\<rparr>, wp_save := NoSave, wp_ended := wp_last p\<rparr>)"

datatype wp_event = PEnqueue Metadata | PAck "uint64 list" | PTimer | PDone | PCopy | PWrite bool

fun wp_step :: "WorkerProc \<Rightarrow> wp_event \<Rightarrow> WorkerProc" where
  "wp_step p (PEnqueue md) = p\<lparr>wp_queue := snd (Enqueue md (wp_queue p))\<rparr>"
| "wp_step p (PAck ids) = p\<lparr>wp_queue := Ack ids (wp_queue p)\<rparr>"
| "wp_step p PTimer = (if wp_save p = NoSave \<and> \<not> wp_last p then save_mark p else p)"
| "wp_step p PDone = (if wp_save p = NoSave \<and> \<not> wp_last p then save_mark (p\<lparr>wp_last := True\<rparr>) else p)"
| "wp_step p PCopy = (if wp_save p = SaveMarked then save_copy p else p)"
| "wp_step p (PWrite ok) = (case wp_save p of SaveCopied rs \<Rightarrow> save_write ok rs p | _ \<Rightarrow> p)"

text \<open>The next process, with the same settings.\<close>

definition restarted :: "string \<Rightarrow> int \<Rightarrow> string \<Rightarrow> WorkerProc \<Rightarrow> WorkerQueue" where
  "restarted wid lim path p = wp_queue (start_proc wid lim path (wp_disk p))"

section \<open>The file and the queue\<close>

definition disk_items :: "WorkerProc \<Rightarrow> Record list" where
  "disk_items p = (case wp_disk p of None \<Rightarrow> [] | Some rs \<Rightarrow> rs)"

text \<open>Unless something is marked as changed, the file or the copy about to be written is the queue.\<close>

definition wp_inv :: "string \<Rightarrow> WorkerProc \<Rightarrow> bool" where
  "wp_inv path p \<longleftrightarrow>
    cachePath (wp_queue p) = path \<and> (wp_ended p \<longrightarrow> wp_last p \<and> wp_save p = NoSave)
    \<and> (wp_last p \<and> wp_save p = NoSave \<longrightarrow> wp_ended p)
    \<and> (case wp_save p of
         NoSave \<Rightarrow> cacheDirty (wp_queue p) \<or> disk_items p = items (wp_queue p)
       | SaveMarked \<Rightarrow> True
       | SaveCopied rs \<Rightarrow> cacheDirty (wp_queue p) \<or> rs = items (wp_queue p))"

lemma Ack_cache [simp]: "cachePath (Ack ids q) = cachePath q" "cacheDirty (Ack ids q)"
  by (simp_all add: Ack_def ack_loop_eq Let_def)

lemma Enqueue_cache:
  "cachePath (snd (Enqueue md q)) = cachePath q"
  "cacheDirty (snd (Enqueue md q)) \<or> (items (snd (Enqueue md q)) = items q \<and> cacheDirty (snd (Enqueue md q)) = cacheDirty q)"
  by (simp_all add: Enqueue_def signalFlush_def Let_def)

lemma start_items:
  assumes "path \<noteq> []"
  shows "items (wp_queue (start_proc wid lim path disk)) = (case disk of None \<Rightarrow> [] | Some rs \<Rightarrow> rs)"
    and "cachePath (wp_queue (start_proc wid lim path disk)) = path"
  using assms by (simp_all add: start_proc_def NewWorkerQueue_def loadFromCache_def Let_def split: option.split)

lemma start_inv: "path \<noteq> [] \<Longrightarrow> wp_inv path (start_proc wid lim path disk)"
  using start_items [of path wid lim disk] by (simp add: wp_inv_def disk_items_def) (simp add: start_proc_def disk_items_def)

interpretation proc: step_system wp_step "wp_inv path" for path
proof
  fix p e assume inv: "wp_inv path p"
  show "wp_inv path (wp_step p e)"
  proof (cases e)
    case (PEnqueue md)
    define q' where "q' = snd (Enqueue md (wp_queue p))"
    have q': "cachePath q' = cachePath (wp_queue p)"
      "cacheDirty q' \<or> items q' = items (wp_queue p) \<and> cacheDirty q' = cacheDirty (wp_queue p)"
      using Enqueue_cache [of md "wp_queue p"] by (simp_all add: q'_def)
    have "wp_inv path (p\<lparr>wp_queue := q'\<rparr>)"
      using inv q' by (cases "cacheDirty q'"; cases "wp_save p") (simp_all add: wp_inv_def disk_items_def)
    then show ?thesis by (simp add: PEnqueue q'_def)
  next
    case (PWrite ok)
    then show ?thesis using inv by (cases "wp_save p"; cases ok) (simp_all add: wp_inv_def save_write_def disk_items_def)
  next
    case (PAck ids)
    then show ?thesis using inv by (cases "wp_save p") (simp_all add: wp_inv_def disk_items_def)
  next
    case PTimer
    then show ?thesis
      using inv by (cases "wp_save p"; cases "cachePath (wp_queue p) = [] \<or> \<not> cacheDirty (wp_queue p)")
        (auto simp: wp_inv_def save_mark_def disk_items_def Let_def)
  next
    case PDone
    then show ?thesis
      using inv by (cases "wp_save p"; cases "cachePath (wp_queue p) = [] \<or> \<not> cacheDirty (wp_queue p)")
        (auto simp: wp_inv_def save_mark_def disk_items_def Let_def)
  next
    case PCopy
    then show ?thesis using inv by (cases "wp_save p") (simp_all add: wp_inv_def save_copy_def)
  qed
qed

lemma ended_stays: "wp_inv path p \<Longrightarrow> wp_ended p \<Longrightarrow> wp_ended (wp_step p e) \<and> wp_disk (wp_step p e) = wp_disk p"
  by (cases e) (auto simp: wp_inv_def)

lemma ended_run: "wp_inv path p \<Longrightarrow> wp_ended p \<Longrightarrow> wp_disk (foldl wp_step p es) = wp_disk p"
proof (induction es arbitrary: p)
  case (Cons e es)
  then show ?case using ended_stays [OF Cons.prems] proc.run_keeps [OF Cons.prems(1), of "[e]"] by simp
qed simp

lemma load_ids: "foldl (\<lambda>n item. if rec_ID item > n then rec_ID item else n) n rs = foldl max n (map rec_ID rs)"
  by (induction rs arbitrary: n) (auto simp: max_def)

lemma foldl_max_ge: "(\<forall>x \<in> set xs. x \<le> foldl max (n :: uint64) xs) \<and> n \<le> foldl max n xs"
proof (induction xs arbitrary: n)
  case (Cons x xs)
  from Cons [of "max n x"] show ?case by auto
qed simp

text \<open>A queue read back has its records, in order, and gives new records ids of their own.\<close>

lemma start_wf:
  assumes "path \<noteq> []" and "sorted_wrt (<) (map rec_ID rs)"
  shows "wq_wf (wp_queue (start_proc wid lim path (Some rs)))"
  using assms foldl_max_ge [of "map rec_ID rs" 0]
  by (auto simp: start_proc_def NewWorkerQueue_def loadFromCache_def Let_def wq_wf_def load_ids)

section \<open>Property\<close>


definition short_life :: "wp_event list" where
  "short_life = [PEnqueue sample_md, PDone, PCopy, PWrite True]"

lemma short_life_ends:
  "wp_ended (foldl wp_step (start_proc ''w'' 10 ''/tmp/w'' None) short_life)"
  "\<not> cacheDirty (wp_queue (foldl wp_step (start_proc ''w'' 10 ''/tmp/w'' None) short_life))"
  "fst (Enqueue sample_md (wp_queue (foldl wp_step (start_proc ''w'' 10 ''/tmp/w'' None) short_life)))"
  by (simp_all add: short_life_def start_proc_def NewWorkerQueue_def loadFromCache_def Enqueue_def signalFlush_def save_mark_def save_copy_def
      save_write_def Let_def)


end
