(* ===== verification/Templates.thy ===== *)
theory Templates
  imports Prelude "HOL-Library.Sublist"
begin

text \<open>
  The page templates: \<open>loadTemplates\<close> of \<open>ui/ui.go\<close>, which registers one template per file of
  \<open>templates/view\<close> together with every file of \<open>templates/include\<close>, and \<open>tailwind.config.js\<close>, which
  says in which files the style sheet's class names are looked for. Parsing a template and
  matching a file name against a pattern are parameters.
\<close>

section \<open>Registered templates\<close>

text \<open>\<open>strings.TrimSuffix\<close>\<close>

definition TrimSuffix :: "string \<Rightarrow> string \<Rightarrow> string" where
  "TrimSuffix s x = (if suffix x s then take (length s - length x) s else s)"

text \<open>
  \<open>parse\<close> is \<open>gtf.New(name).Funcs(...).ParseFS(templates, files...)\<close>. \<open>template.Must\<close> panics with its
  error, which ends the loop. An entry of a directory is its name and whether it is itself a
  directory; a directory that cannot be read has no entries.
\<close>

type_synonym dir_entry = "string \<times> bool"

fun load_views :: "(string \<Rightarrow> string list \<Rightarrow> 'e + 't) \<Rightarrow> string list \<Rightarrow> (string \<rightharpoonup> 't) \<Rightarrow> dir_entry list \<Rightarrow> 'e + (string \<rightharpoonup> 't)" where
  "load_views parse includeFiles renderer [] = Inr renderer"
| "load_views parse includeFiles renderer ((viewFileName, isDir) # viewDirectory) =
    (if isDir then load_views parse includeFiles renderer viewDirectory
     else let viewName = TrimSuffix viewFileName ''.html''
          in case parse viewName (includeFiles @ [''templates/view/'' @ viewFileName]) of
               Inl e \<Rightarrow> Inl e
             | Inr tpl \<Rightarrow> load_views parse includeFiles (renderer(viewName \<mapsto> tpl)) viewDirectory)"

definition loadTemplates :: "(string \<Rightarrow> string list \<Rightarrow> 'e + 't) \<Rightarrow> dir_entry list \<Rightarrow> dir_entry list \<Rightarrow> 'e + (string \<rightharpoonup> 't)" where
  "loadTemplates parse viewDirectory includeDirectory =
    load_views parse (map (\<lambda>(name, _). ''templates/include/'' @ name) includeDirectory) Map.empty viewDirectory"

text \<open>The names under which the files of a directory are registered, and the files that make up one page.\<close>

definition view_names :: "dir_entry list \<Rightarrow> string list" where
  "view_names viewDirectory = map (\<lambda>(name, _). TrimSuffix name ''.html'') (filter (\<lambda>(_, isDir). \<not> isDir) viewDirectory)"

definition page_files :: "dir_entry list \<Rightarrow> string \<Rightarrow> string list" where
  "page_files includeDirectory name = map (\<lambda>(name, _). ''templates/include/'' @ name) includeDirectory @ [''templates/view/'' @ name]"

lemma TrimSuffix_append [simp]: "TrimSuffix (s @ x) x = s"
  by (simp add: TrimSuffix_def suffix_def)

lemma load_views_dom:
  assumes "load_views parse inc r vs = Inr r'"
  shows "dom r' = dom r \<union> set (view_names vs)"
  using assms by (induction parse inc r vs rule: load_views.induct)
    (auto simp: view_names_def Let_def split: if_splits sum.splits)

lemma load_views_other:
  assumes "load_views parse inc r vs = Inr r'" and "n \<notin> set (view_names vs)"
  shows "r' n = r n"
  using assms by (induction parse inc r vs rule: load_views.induct)
    (auto simp: view_names_def Let_def split: if_splits sum.splits)

lemma load_views_entry:
  assumes "load_views parse inc r vs = Inr r'" and "(name, False) \<in> set vs" and "distinct (view_names vs)"
  shows "\<exists>tpl. parse (TrimSuffix name ''.html'') (inc @ [''templates/view/'' @ name]) = Inr tpl
    \<and> r' (TrimSuffix name ''.html'') = Some tpl"
  using assms
proof (induction parse inc r vs rule: load_views.induct)
  case (2 parse inc r v isDir vs)
  show ?case
  proof (cases "(name, False) = (v, isDir)")
    case True
    with 2(3,5) show ?thesis
      by (auto simp: view_names_def Let_def load_views_other split: sum.splits)
  next
    case False
    with 2(4) have rest: "(name, False) \<in> set vs" by auto
    have names: "distinct (view_names vs)" using 2(5) by (cases isDir) (simp_all add: view_names_def)
    show ?thesis
    proof (cases isDir)
      case True
      with 2(1) [OF True _ rest names] 2(3) show ?thesis by simp
    next
      case False
      with 2(3) obtain tpl where tpl: "parse (TrimSuffix v ''.html'') (inc @ [''templates/view/'' @ v]) = Inr tpl"
          "load_views parse inc (r(TrimSuffix v ''.html'' \<mapsto> tpl)) vs = Inr r'"
        by (auto simp: Let_def split: sum.splits)
      show ?thesis by (rule 2(2) [OF False refl tpl rest names])
    qed
  qed
qed simp

text \<open>Loading succeeds exactly when every page parses.\<close>

lemma load_views_ok:
  "(\<exists>r'. load_views parse inc r vs = Inr r') \<longleftrightarrow>
    (\<forall>(name, isDir) \<in> set vs. \<not> isDir \<longrightarrow> (\<exists>tpl. parse (TrimSuffix name ''.html'') (inc @ [''templates/view/'' @ name]) = Inr tpl))"
proof (induction parse inc r vs rule: load_views.induct)
  case (2 parse inc r v isDir vs)
  show ?case
  proof (cases isDir)
    case True
    then show ?thesis using 2(1) by simp
  next
    case False
    show ?thesis
    proof (cases "parse (TrimSuffix v ''.html'') (inc @ [''templates/view/'' @ v])")
      case (Inl e)
      with False show ?thesis by (simp add: Let_def)
    next
      case (Inr tpl)
      with False 2(2) [OF False refl Inr] show ?thesis by (simp add: Let_def fun_upd_def)
    qed
  qed
qed simp

theorem loadTemplates_registers:
  assumes "\<forall>(name, isDir) \<in> set vs. \<not> isDir \<longrightarrow> (\<exists>tpl. parse (TrimSuffix name ''.html'') (page_files incs name) = Inr tpl)"
    and "distinct (view_names vs)"
  shows "\<exists>r. loadTemplates parse vs incs = Inr r \<and> dom r = set (view_names vs)
    \<and> (\<forall>(name, isDir) \<in> set vs. \<not> isDir \<longrightarrow>
         parse (TrimSuffix name ''.html'') (page_files incs name) = Inr (the (r (TrimSuffix name ''.html''))))"
proof -
  let ?inc = "map (\<lambda>(name, _). ''templates/include/'' @ name) incs"
  from assms(1) obtain r where r: "load_views parse ?inc Map.empty vs = Inr r"
    using load_views_ok [of parse ?inc Map.empty vs] by (auto simp: page_files_def)
  have "parse (TrimSuffix name ''.html'') (page_files incs name) = Inr (the (r (TrimSuffix name ''.html'')))"
    if "(name, False) \<in> set vs" for name
    using load_views_entry [OF r that assms(2)] by (auto simp: page_files_def)
  with r load_views_dom [OF r] show ?thesis by (auto simp: loadTemplates_def)
qed

section \<open>The repository's own pages\<close>

text \<open>The files embedded from \<open>ui/templates\<close>, in the order of \<open>ReadDir\<close>, and the names the handlers under \<open>ui/\<close> render.\<close>

definition view_bases :: "string list" where
  "view_bases = [''blacklist'', ''dashboard'', ''discover'', ''search'', ''settings'', ''trawl'', ''watches'', ''workers'']"

definition include_bases :: "string list" where
  "include_bases = [''base'', ''navbar'', ''pagination'', ''torrent_table'']"

definition embedded_views :: "dir_entry list" where
  "embedded_views = map (\<lambda>n. (n @ ''.html'', False)) view_bases"

definition embedded_includes :: "dir_entry list" where
  "embedded_includes = map (\<lambda>n. (n @ ''.html'', False)) include_bases"

definition rendered_names :: "string list" where
  "rendered_names = [''settings'', ''trawl'', ''workers'', ''search'', ''dashboard'', ''blacklist'', ''discover'', ''watches'']"

lemma embedded_view_names [simp]: "view_names embedded_views = view_bases"
  by (simp add: view_names_def embedded_views_def comp_def TrimSuffix_append [where x = "''.html''", simplified])

lemma bases_plain: "n \<in> set view_bases \<union> set include_bases \<Longrightarrow> CHR ''/'' \<notin> set n"
  by (auto simp: view_bases_def include_bases_def)

text \<open>The pages rendered are exactly the pages registered: no handler asks for a template that is not there.\<close>

lemma rendered_names_registered:
  assumes "loadTemplates parse embedded_views incs = Inr r"
  shows "dom r = set rendered_names"
  using load_views_dom [OF assms [unfolded loadTemplates_def]]
  by (simp add: view_bases_def rendered_names_def insert_commute)

section \<open>Files the style sheet is made for\<close>

record TailwindConfig =
  tw_content :: "string list"
  tw_theme_extend :: "string \<rightharpoonup> string"
  tw_plugins :: "string list"
  daisyui_themes :: string

definition tailwind_config :: TailwindConfig where
  "tailwind_config =
    \<lparr>tw_content = [''./ui/templates/**/*.html''], tw_theme_extend = Map.empty,
     tw_plugins = [''daisyui''], daisyui_themes = ''all''\<rparr>"

text \<open>
  What is relied on of a matcher of patterns: \<open>dir/**/*x\<close> matches the files below \<open>dir\<close>, in
  any number of directories, whose name ends in \<open>x\<close>.
\<close>

definition glob_ok :: "(string \<Rightarrow> string \<Rightarrow> bool) \<Rightarrow> bool" where
  "glob_ok matches \<longleftrightarrow> (\<forall>dir sub name x. CHR ''/'' \<notin> set name \<longrightarrow>
    matches (dir @ ''/**/*'' @ x) (dir @ ''/'' @ sub @ ''/'' @ name @ x))"

definition scanned :: "(string \<Rightarrow> string \<Rightarrow> bool) \<Rightarrow> string \<Rightarrow> bool" where
  "scanned matches path \<longleftrightarrow> list_ex (\<lambda>p. matches p path) (tw_content tailwind_config)"

lemma template_scanned:
  assumes "glob_ok matches" and "CHR ''/'' \<notin> set name"
  shows "scanned matches (''./ui/templates/'' @ sub @ ''/'' @ name @ ''.html'')"
proof -
  have "matches (''./ui/templates'' @ ''/**/*'' @ ''.html'') (''./ui/templates'' @ ''/'' @ sub @ ''/'' @ name @ ''.html'')"
    using assms unfolding glob_ok_def by blast
  then show ?thesis by (simp add: scanned_def tailwind_config_def)
qed

text \<open>Every file a page is made of has its class names collected.\<close>

theorem pages_scanned:
  assumes "glob_ok matches" and "(name, False) \<in> set embedded_views" and "path \<in> set (page_files embedded_includes name)"
  shows "scanned matches (''./ui/'' @ path)"
proof -
  from assms(2,3) consider n where "n \<in> set include_bases" "path = ''templates/'' @ ''include'' @ ''/'' @ n @ ''.html''"
    | n where "n \<in> set view_bases" "path = ''templates/'' @ ''view'' @ ''/'' @ n @ ''.html''"
    by (auto simp: embedded_views_def embedded_includes_def page_files_def)
  then show ?thesis
  proof cases
    case (1 n)
    then show ?thesis using template_scanned [OF assms(1) bases_plain, of n "''include''"] by simp
  next
    case (2 n)
    then show ?thesis using template_scanned [OF assms(1) bases_plain, of n "''view''"] by simp
  qed
qed

text \<open>A matcher for patterns of this one shape.\<close>

definition star_match :: "string \<Rightarrow> string \<Rightarrow> bool" where
  "star_match p path = list_ex (\<lambda>i. prefix ''/**/*'' (drop i p) \<and> prefix (take i p @ ''/'') path
    \<and> suffix (drop (i + 5) p) path) [0..<length p]"

lemma star_match_ok: "glob_ok star_match"
proof -
  have "star_match (dir @ ''/**/*'' @ x) (dir @ ''/'' @ sub @ ''/'' @ name @ x)" for dir sub name x
    unfolding star_match_def list_ex_iff
    by (rule bexI [of _ "length dir"]) (auto simp: suffix_def prefix_def intro: exI [of _ "dir @ ''/'' @ sub @ ''/'' @ name"])
  then show ?thesis by (simp add: glob_ok_def)
qed

lemma pages_scanned_example: "scanned star_match ''./ui/templates/include/base.html'' \<and> \<not> scanned star_match ''./ui/static/css/input.css''"
  using pages_scanned [OF star_match_ok, of "''search.html''" "''templates/include/base.html''"]
  by (simp add: embedded_views_def embedded_includes_def page_files_def view_bases_def include_bases_def)
    (simp add: scanned_def tailwind_config_def star_match_def suffix_def upt_rec)

end
