(* ===== verification/Spec2Isabelle.thy ===== *)
theory Spec2Isabelle
  imports Lazycat Screenshot Indexing_Service Master Metadata_Sink Client Crawl_Loop Crawler_Manager Transport Dht_Manager
    Command_Line Repository Downloader Hub Crawl_Runs Settings Repository_State Web_Pages Mcp Web_Server Notifier Program
    Worker_Runs Backends Worker_Restart Templates
begin

text \<open>
  A verification development for lazy-dhtc, a crawler of the BitTorrent DHT with a web
  interface, a notification module for the browser and a cluster mode in which workers crawl
  and a master stores. The program is written in Go with some JavaScript; paths below are
  relative to \<open>src/\<close>.

  \<^bold>\<open>The parts and how they interact.\<close> A \<^emph>\<open>DHT manager\<close> runs one \<^emph>\<open>indexing service\<close> per
  address family. A service owns a \<^emph>\<open>routing table\<close>, a table of outstanding \<open>get_peers\<close>
  requests and a \<^emph>\<open>protocol\<close> object, which recognises and answers messages that a
  \<^emph>\<open>transport\<close> carries in the wire format of the \<^emph>\<open>codec\<close>. The manager collects the info
  hashes the services find. The \<^emph>\<open>crawl loop\<close> takes them, asks the \<^emph>\<open>cache\<close> of known hashes,
  and hands new ones to the \<^emph>\<open>metadata sink\<close>, which runs one \<^emph>\<open>download\<close> per hash and
  delivers metadata. The \<^emph>\<open>crawler manager\<close> starts and stops crawls by hand, by schedule and
  by timer. Metadata goes to the \<^emph>\<open>database\<close>, the watch notifications and the \<^emph>\<open>live feed\<close>,
  or, on a worker, into the \<^emph>\<open>worker queue\<close>, from which a \<^emph>\<open>master\<close> pulls it or which pushes
  to a master. The \<^emph>\<open>web interface\<close> and its MCP endpoint read and edit the database, which is
  CloverDB or an SQL database behind one interface, and control crawler and workers. The entry
  point puts a node together from its configuration. The connectors to torrent clients and the
  two scripts in JavaScript stand beside this.

  \<^bold>\<open>Theories.\<close>
  \<^item> \<open>Prelude\<close>: Go values (byte slices, big-endian numbers, instants, wrap-around of \<open>int64\<close>),
    errors as sums, and the locales the components instantiate: \<open>step_system\<close> and
    \<open>total_step_system\<close> (an invariant kept by every step holds after every run, and steps that
    cannot fail never do), \<open>record_codec\<close> (fixed-size encodings and their concatenation),
    \<open>strict_order_on\<close> (a sort does not depend on its algorithm). \<open>Netip\<close>, \<open>Sha1\<close>, \<open>Sha256\<close>,
    \<open>Hex\<close>: the parts of Go's library the program calls.
  \<^item> \<open>Routing_Table\<close>: \<open>dhtc-client/routing_table.go\<close>. Well-formedness, the XOR metric, \<open>Add\<close> as a
    refinement of an update of a finite map, \<open>Closest\<close> and \<open>Prune\<close>; the locale \<open>node_table\<close> is
    what the service relies on.
  \<^item> \<open>Codec\<close>, \<open>Protocol\<close>: \<open>dhtc-client/codec.go\<close> and \<open>protocol.go\<close>. Round trips of the compact
    encodings, which handler a message reaches, the life of an announce token.
  \<^item> \<open>Request_Table\<close>, \<open>Indexing_Service\<close>, \<open>Maintenance\<close>: \<open>dhtc-client/indexingService.go\<close>, the
    requests, the handlers, and the maintenance loop with bootstrap and the routing-table
    file. The invariant of the service over every sequence of messages and rounds, that no
    handler fails, and what a reply is matched with.
  \<^item> \<open>Transport\<close>, \<open>Dht_Manager\<close>: \<open>dhtc-client/transport.go\<close> and \<open>managers.go\<close>. Bounded queues in
    order, nothing lost without being counted.
  \<^item> \<open>Client\<close>, \<open>Metadata_Sink\<close>: \<open>dhtc-client/client.go\<close>, \<open>util.go\<close> and \<open>sink.go\<close>. A download ends,
    calls back once, and delivers only metadata with the right checksum; every accepted hash
    is in exactly one place.
  \<^item> \<open>Cache\<close>, \<open>Crawl_Loop\<close>, \<open>Crawl_Runs\<close>, \<open>Crawler_Manager\<close>: \<open>cache/cache.go\<close> and
    \<open>ui/crawler.go\<close>. The conservation of hashes through loop, cache and sink (stated in this
    theory), the figures of the status page, at most one crawl and no channel closed twice,
    the schedule and its overrides. \<open>Worker_Runs\<close> composes the loop with the worker's queue and
    the master's acknowledgements: where every known hash of a worker is.
  \<^item> \<open>Worker_Queue\<close>, \<open>Master\<close>: \<open>cluster/transport.go\<close>. The bounded queue, the flush loop, and
    delivery at least once over links that lose messages; the token check. \<open>Worker_Restart\<close>: the
    queue file over the life of a worker's process, what the next process has of the queue
    and what a shutdown loses.
  \<^item> \<open>Repository\<close>, \<open>Repository_Queries\<close>: \<open>db/clover.go\<close> with the rules of \<open>db/helper.go\<close>,
    \<open>categorizer.go\<close>, \<open>chinese_filter.go\<close>, \<open>blacklist_helper.go\<close>, \<open>watch.go\<close> and \<open>db.go\<close>. Filters and
    pruning, search pages, what a watch reports; statistics as direct counts. \<open>Repository_State\<close>:
    the invariant of the database over every sequence of its operations, what a restart
    knows, category counts. \<open>Sql_Repository\<close>: \<open>db/gorm.go\<close>, the same interface on SQL; pruning,
    the answer to a search, and the statistics agreeing with those of the other back end.
    \<open>Torrent_Store\<close> states what the interface of \<open>db/repository.go\<close> promises, a step relation on a
    bag of torrents and a set of filters, and the locale \<open>torrent_repository\<close>; \<open>Backends\<close> shows that
    both back ends of \<open>OpenRepository\<close> implement it and that they answer alike.
  \<^item> \<open>Web_Pages\<close>, \<open>Mcp\<close>, \<open>Web_Server\<close>, \<open>Hub\<close>: the handlers under \<open>ui/\<close> (\<open>api.go\<close>, \<open>helpers.go\<close>,
    \<open>search.go\<close>, \<open>discover.go\<close>, \<open>blacklist.go\<close>, \<open>watch.go\<close>, \<open>saved.go\<close>, \<open>i18n.go\<close>, \<open>mcp.go\<close>, \<open>ui.go\<close>,
    \<open>workers.go\<close>, \<open>hub.go\<close>). The pages of the latest torrents, the limits of the MCP tools, which
    requests the password guards, who gets a broadcast. \<open>Notifier\<close>: \<open>notifier/\<close>; a failing service
    does not keep the others from their message.
  \<^item> \<open>Program\<close>: \<open>cmd/dhtc/main.go\<close> with the figures and controls of \<open>ui/crawler.go\<close>,
    \<open>ui/dashboard.go\<close> and \<open>ui/crawler_controls.go\<close>; the state a node starts in, the health page and
    the logged figures of a worker.
  \<^item> \<open>Templates\<close>: \<open>loadTemplates\<close> of \<open>ui/ui.go\<close> and \<open>tailwind.config.js\<close>; the pages the handlers render
    are the pages registered, and every file they are made of is scanned for class names.
  \<^item> \<open>Configuration\<close>, \<open>Command_Line\<close>: \<open>config/configuration.go\<close>. Which of file, flag and default
    wins. \<open>Downloader\<close>: \<open>downloader/downloader.go\<close> and \<open>ui/downloader.go\<close>, the session handshake.
    \<open>Settings\<close>: \<open>ui/settings.go\<close> and the control endpoint of a worker in \<open>cmd/dhtc/main.go\<close>; a stored
    schedule is usable.
  \<^item> \<open>Lazycat\<close>, \<open>Screenshot\<close>: \<open>ui/static/js/lazycat-notifications.src.js\<close> and
    \<open>scripts/screenshot.js\<close>, as a machine of interleaved asynchronous calls and as a script
    that may wait forever.

  \<^bold>\<open>How state and effects are modelled.\<close> A Go struct is a record with the fields of the code;
  logs of what left the component (packets, results, closed channels) are further fields.
  An operation under a mutex is one step; where the code releases a mutex, sends on a channel
  or calls another component, the steps are separate and any interleaving of them is a run.
  A step that would block is not enabled. Where a Go \<open>select\<close> or a walk over a map may choose,
  the choice is an argument. A panic, a nil callback and a loop without end are failures of a
  sum type, and the theorems show which of them cannot happen. Machine integers wrap as in
  Go: 64-bit and 16-bit words, \<open>int64\<close> written out.

  \<^bold>\<open>Bounds and fuel.\<close> Loops that end by structure are recursive functions. The search for a
  free transaction id and the wait loop of the screenshot script are partial functions with
  \<open>None\<close> for not returning; the first is shown to return while fewer than 65536 requests are
  outstanding, which the table guarantees, and for the second it is characterised exactly when
  it does not. The rounds of the push loop and of a download are measured by the queue and by
  the bytes the peer still sends. Capacities (8 nodes a bucket, 8192 requests, 10 and 1024
  places of the channels, 256 of the packet queues) are those of the code.

  \<^bold>\<open>The environment.\<close> The clock, random bytes, what a socket, a file or a server answers, and
  the outcome of a promise are arguments. Packages that are not part of the repository are
  parameters: bencode, JSON and YAML decoders, the HTTP client, CloverDB (under the laws
  \<open>clover_ok\<close>, which a store of lists satisfies), GORM and the SQL engines (under \<open>gorm_ok\<close>, which
  a list of rows satisfies), Gin's dispatch and its basic authentication, the rate limiter, name lookup,
  \<open>url.Parse\<close>, regular expressions, Unicode tables. \<open>strings.TrimSpace\<close> and \<open>strings.ToLower\<close> are
  those of ASCII text where they are not parameters. The random source does not fail. The
  schedule is read in a location without daylight saving.

  \<^bold>\<open>Not modelled.\<close> What the templates render, the tables of translations, the WebSocket
  upgrade, the SQL text of \<open>db/gorm.go\<close> (a query is the list of its conditions) and the index it
  keeps for full-text search, signals, log lines, rates in floating point, the bundle
  \<open>ui/static/js/lazycat-notifications.js\<close>, which is generated from the modelled source and a
  package that is not in the repository, the vendored scripts, build and packaging files.
\<close>

section \<open>The crawl loop, the cache and the sink together\<close>


definition two_results :: "cr_event list" where
  "two_results = [CrOutput 5 one_peer, CrCall, CrDownload (SkCheck (replicate 20 1)), CrOutput 6 one_peer, CrCall]"

lemma two_results_run:
  "foldl (cr_step False) (crawl_begin empty_cache 10 2) two_results =
    \<lparr>cr_cache = \<lparr>infoHashCache = {replicate 20 1}, infoHashExpiry = []\<rparr>,
     cr_sink = (NewSink 10 2)\<lparr>incomingInfoHashes := [(replicate 20 1, [])],
       incomingFamilies := [replicate 20 1 \<mapsto> 4], incomingPeers := [replicate 20 1 \<mapsto> {AddrPort (IP4 1) 6881}],
       downloads := [(replicate 20 1, AddrPort (IP4 1) 6881, Queued)], sk_accepted := [replicate 20 1]\<rparr>,
     cr_pc = Selecting, discovered = 2, downloadSucceeded = 0, cr_handled = []\<rparr>"
  by (simp add: two_results_def crawl_begin_def empty_cache_def on_output_def loop_call_def on_download_def
      background_def InfoHashCacheAdd_def expired_def one_peer_def NewSink_def Sink_Sink_def uniqueValidPeers_def
      sk_run_step_def download_check_def phase_of_def set_phase_def AddPeers_def Let_def del: replicate.simps)

lemma two_results_ordinary: "\<forall>e \<in> set two_results. ordinary e" "\<forall>e \<in> set (two_results @ [CrStop]). ordinary e"
  by (simp_all add: two_results_def ordinary_def)


text \<open>C38. Stopping the crawler loses the downloads under way for good: a hash in download when
  the sink is terminated is never delivered, and it stays known, so that a crawl started
  later in the same process refuses it, whatever happens meanwhile.\<close>
theorem crawl_stop_strands:
  assumes "infoHashExpiry cache = []" and "\<forall>e \<in> set es. ordinary e"
    and "cr = foldl (cr_step False) (crawl_begin cache maxLeeches maxConcurrent) es"
    and "cr_pc cr = Stopping" and "flushing (cr_sink cr) = None" and "h \<in> set (keys_of (downloads (cr_sink cr)))"
    and "\<forall>e \<in> set es'. ordinary e" and "cr' = foldl (cr_step False) cr (CrTerminate # es')"
  shows "h \<notin> md_InfoHash ` set (sk_delivered (cr_sink cr')) \<and> \<not> fst (InfoHashCacheAdd t h (cr_cache cr'))"
proof -
  have inv: "cr_inv (infoHashCache cache) cr"
    using crawl_run_inv [OF assms(1,2), of maxLeeches maxConcurrent] assms(3) by simp
  have "h \<in> set (owned cr)" using assms(6) by (simp add: owned_def places_def)
  from ended.erun_total [OF terminate_strands [OF inv assms(4,5) this] assms(7)]
  have "stranded h (sk_delivered (cr_sink cr)) (sk_discarded (cr_sink cr)) cr'"
    using assms(8) by (auto simp: efold_Inr)
  moreover have "h \<notin> md_InfoHash ` set (sk_delivered (cr_sink cr))"
    using inv assms(4,6) by (auto simp: cr_inv_def owned_def places_def)
  ultimately show ?thesis by (simp add: stranded_def over_def)
qed

theorem crawl_stop_strands_witness:
  "\<not> fst (InfoHashCacheAdd 1000 (replicate 20 1) (cr_cache (foldl (cr_step False)
      (foldl (cr_step False) (crawl_begin empty_cache 10 2) (two_results @ [CrStop])) [CrTerminate])))"
  using crawl_stop_strands [OF _ two_results_ordinary(2) refl _ _ _ _ refl, of empty_cache 10 2 "replicate 20 1" "[]" 1000]
  by (simp add: two_results_run NewSink_def del: replicate.simps)

end
